(* ===== verification/Prelude.thy ===== *)
theory Prelude
  imports Main "HOL-Library.AList" "HOL-Library.Word" "HOL-Library.List_Lexorder" "HOL-Library.Char_ord"
begin

text \<open>
  Shared vocabulary of the development.

  \<^item> The effect model: a Go function that talks to a disk, to hostd or to a backend is a
    \<open>prog\<close>, a function from a world to an optional result and the next world. The result
    \<open>None\<close> is a power loss: nothing after that point of the function runs. A Go \<open>error\<close> is a
    \<open>string option\<close> (\<open>None\<close> is \<open>nil\<close>), so that every early return is an ordinary branch.
  \<^item> The weakest-precondition rules of those combinators, collected in \<open>wp_simps\<close>, by which
    the components' proofs execute a program symbolically.
  \<^item> Machines: \<open>runs\<close> lifts a step function to a list of inputs, and the locale \<open>machine\<close>
    is the contract "every step keeps the invariant" with its consequences for runs.
  \<^item> Lemmas on association lists, used for Go maps whose keys are enumerated.
\<close>

named_theorems wp_simps \<open>symbolic execution of effectful programs\<close>

section \<open>Effectful programs\<close>

type_synonym error = "string option"

type_synonym ('w, 'a) prog = "'w \<Rightarrow> 'a option \<times> 'w"

definition ret :: "'a \<Rightarrow> ('w, 'a) prog" where
  "ret x = (\<lambda>w. (Some x, w))"

definition seq :: "('w, 'a) prog \<Rightarrow> ('a \<Rightarrow> ('w, 'b) prog) \<Rightarrow> ('w, 'b) prog" where
  "seq m f = (\<lambda>w. case m w of (None, w') \<Rightarrow> (None, w') | (Some x, w') \<Rightarrow> f x w')"

definition get :: "('w \<Rightarrow> 'a) \<Rightarrow> ('w, 'a) prog" where
  "get f = (\<lambda>w. (Some (f w), w))"

definition modify :: "('w \<Rightarrow> 'w) \<Rightarrow> ('w, unit) prog" where
  "modify f = (\<lambda>w. (Some (), f w))"

text \<open>\<open>if err := m; err != nil { return h err }; k\<close>\<close>

definition guarded :: "('w, error) prog \<Rightarrow> (string \<Rightarrow> ('w, 'b) prog) \<Rightarrow> ('w, 'b) prog \<Rightarrow> ('w, 'b) prog" where
  "guarded m h k = seq m (\<lambda>e. case e of None \<Rightarrow> k | Some x \<Rightarrow> h x)"

text \<open>\<open>if v, err := m; err != nil { return bad err }; k v\<close>\<close>

definition fetch :: "('w, string + 'a) prog \<Rightarrow> (string \<Rightarrow> ('w, 'c) prog) \<Rightarrow> ('a \<Rightarrow> ('w, 'c) prog) \<Rightarrow> ('w, 'c) prog" where
  "fetch m bad k = seq m (\<lambda>r. case r of Inl e \<Rightarrow> bad e | Inr x \<Rightarrow> k x)"

text \<open>\<open>_ = m; k\<close>\<close>

definition ignoring :: "('w, 'a) prog \<Rightarrow> ('w, 'b) prog \<Rightarrow> ('w, 'b) prog" where
  "ignoring m k = seq m (\<lambda>_. k)"

section \<open>Calls that leave the process\<close>

text \<open>
  A call to another process succeeds, is refused, takes effect although an error is returned, or never
  returns because the caller dies.
\<close>

datatype result = Done | Refused string | Doubtful string | Crash

section \<open>Weakest preconditions\<close>

text \<open>
  \<open>wp m Q w\<close> says that running \<open>m\<close> in \<open>w\<close> ends in a result and a world related by \<open>Q\<close>;
  the result \<open>None\<close> (power loss) is passed to \<open>Q\<close> like any other.
\<close>

definition wp :: "('w, 'a) prog \<Rightarrow> ('a option \<Rightarrow> 'w \<Rightarrow> bool) \<Rightarrow> 'w \<Rightarrow> bool" where
  "wp m Q w \<longleftrightarrow> (case m w of (r, w') \<Rightarrow> Q r w')"

lemma wp_ret [wp_simps]: "wp (ret x) Q w \<longleftrightarrow> Q (Some x) w"
  by (simp add: wp_def ret_def)

lemma wp_get [wp_simps]: "wp (get f) Q w \<longleftrightarrow> Q (Some (f w)) w"
  by (simp add: wp_def get_def)

lemma wp_modify [wp_simps]: "wp (modify f) Q w \<longleftrightarrow> Q (Some ()) (f w)"
  by (simp add: wp_def modify_def)

lemma wp_seq [wp_simps]:
  "wp (seq m f) Q w \<longleftrightarrow> wp m (\<lambda>r w'. case r of None \<Rightarrow> Q None w' | Some x \<Rightarrow> wp (f x) Q w') w"
  by (simp add: wp_def seq_def split: prod.splits option.splits)

lemma wp_guarded [wp_simps]:
  "wp (guarded m h k) Q w \<longleftrightarrow>
     wp m (\<lambda>r w'. case r of None \<Rightarrow> Q None w' | Some None \<Rightarrow> wp k Q w' | Some (Some e) \<Rightarrow> wp (h e) Q w') w"
  by (simp add: guarded_def wp_seq split: option.splits cong: option.case_cong)

lemma wp_ignoring [wp_simps]:
  "wp (ignoring m k) Q w \<longleftrightarrow> wp m (\<lambda>r w'. case r of None \<Rightarrow> Q None w' | Some _ \<Rightarrow> wp k Q w') w"
  by (simp add: ignoring_def wp_seq)

lemma wp_if [wp_simps]: "wp (if b then m else n) Q w \<longleftrightarrow> (if b then wp m Q w else wp n Q w)"
  by simp

lemma wp_mono: "wp m P w \<Longrightarrow> (\<And>r w'. P r w' \<Longrightarrow> Q r w') \<Longrightarrow> wp m Q w"
  by (auto simp: wp_def)

lemma wpD: "wp m Q w \<Longrightarrow> m w = (r, w') \<Longrightarrow> Q r w'"
  by (simp add: wp_def)

lemma wpI: "(\<And>r w'. m w = (r, w') \<Longrightarrow> Q r w') \<Longrightarrow> wp m Q w"
  by (auto simp: wp_def split: prod.splits)

text \<open>A program keeps a property of the world on every path, power loss included.\<close>

definition keeps :: "('w \<Rightarrow> bool) \<Rightarrow> ('w, 'a) prog \<Rightarrow> bool" where
  "keeps P m \<longleftrightarrow> (\<forall>w. P w \<longrightarrow> P (snd (m w)))"

lemma keepsI: "(\<And>w. P w \<Longrightarrow> wp m (\<lambda>_ w'. P w') w) \<Longrightarrow> keeps P m"
  by (simp add: keeps_def wp_def split_def)

lemma keepsD: "keeps P m \<Longrightarrow> P w \<Longrightarrow> wp m (\<lambda>_ w'. P w') w"
  by (simp add: keeps_def wp_def split_def)

lemma keeps_ret [intro!]: "keeps P (ret x)"
  by (simp add: keeps_def ret_def)

lemma keeps_get [intro!]: "keeps P (get f)"
  by (simp add: keeps_def get_def)

lemma keeps_seq [intro]: "keeps P m \<Longrightarrow> (\<And>x. keeps P (f x)) \<Longrightarrow> keeps P (seq m f)"
  by (simp add: keeps_def seq_def split_def split: option.splits)

lemma keeps_guarded [intro]:
  "keeps P m \<Longrightarrow> (\<And>e. keeps P (h e)) \<Longrightarrow> keeps P k \<Longrightarrow> keeps P (guarded m h k)"
  unfolding guarded_def by (rule keeps_seq) (auto split: option.splits)

lemma keeps_ignoring [intro]: "keeps P m \<Longrightarrow> keeps P k \<Longrightarrow> keeps P (ignoring m k)"
  unfolding ignoring_def by (rule keeps_seq)

text \<open>
  Triples: from a world in \<open>P\<close> the program ends with a result related to its world by \<open>Q\<close>, and
  where the power fails the world is in \<open>C\<close>.
\<close>

definition triple :: "('w \<Rightarrow> bool) \<Rightarrow> ('w \<Rightarrow> bool) \<Rightarrow> ('w, 'a) prog \<Rightarrow> ('a \<Rightarrow> 'w \<Rightarrow> bool) \<Rightarrow> bool" where
  "triple C P m Q \<longleftrightarrow> (\<forall>w. P w \<longrightarrow> wp m (\<lambda>r w'. case r of None \<Rightarrow> C w' | Some x \<Rightarrow> Q x w') w)"

lemma tripleD: "triple C P m Q \<Longrightarrow> P w \<Longrightarrow> m w = (r, w') \<Longrightarrow> (case r of None \<Rightarrow> C w' | Some x \<Rightarrow> Q x w')"
  by (auto simp: triple_def dest: wpD)

lemma triple_ret [intro]: "(\<And>w. P w \<Longrightarrow> Q x w) \<Longrightarrow> triple C P (ret x) Q"
  by (simp add: triple_def wp_ret)

lemma triple_get [intro]: "(\<And>w. P w \<Longrightarrow> Q (f w) w) \<Longrightarrow> triple C P (get f) Q"
  by (simp add: triple_def wp_get)

lemma triple_modify [intro]: "(\<And>w. P w \<Longrightarrow> Q () (f w)) \<Longrightarrow> triple C P (modify f) Q"
  by (simp add: triple_def wp_modify)

lemma triple_seq:
  assumes "triple C P m R" "\<And>x. triple C (R x) (f x) Q"
  shows "triple C P (seq m f) Q"
  unfolding triple_def
proof (intro allI impI)
  fix w
  assume "P w"
  then have "wp m (\<lambda>r w'. case r of None \<Rightarrow> C w' | Some x \<Rightarrow> R x w') w" using assms(1) by (simp add: triple_def)
  then show "wp (seq m f) (\<lambda>r w'. case r of None \<Rightarrow> C w' | Some x \<Rightarrow> Q x w') w"
    unfolding wp_seq
  proof (rule wp_mono)
    fix r w'
    assume "case r of None \<Rightarrow> C w' | Some x \<Rightarrow> R x w'"
    then show "case r of None \<Rightarrow> case None of None \<Rightarrow> C w' | Some x \<Rightarrow> Q x w'
      | Some x \<Rightarrow> wp (f x) (\<lambda>r w'. case r of None \<Rightarrow> C w' | Some x \<Rightarrow> Q x w') w'"
      using assms(2) by (cases r) (simp_all add: triple_def)
  qed
qed

lemma triple_guarded:
  "triple C P m R \<Longrightarrow> (\<And>e. triple C (R (Some e)) (h e) Q) \<Longrightarrow> triple C (R None) k Q \<Longrightarrow> triple C P (guarded m h k) Q"
  unfolding guarded_def by (rule triple_seq) (auto split: option.splits)

lemma triple_weaken:
  "triple C P m Q \<Longrightarrow> (\<And>w. P' w \<Longrightarrow> P w) \<Longrightarrow> (\<And>x w. Q x w \<Longrightarrow> Q' x w) \<Longrightarrow> (\<And>w. C w \<Longrightarrow> C' w) \<Longrightarrow> triple C' P' m Q'"
  unfolding triple_def
proof (intro allI impI)
  fix w
  assume a: "\<forall>w. P w \<longrightarrow> wp m (\<lambda>r w'. case r of None \<Rightarrow> C w' | Some x \<Rightarrow> Q x w') w" "\<And>w. P' w \<Longrightarrow> P w"
    "\<And>x w. Q x w \<Longrightarrow> Q' x w" "\<And>w. C w \<Longrightarrow> C' w" "P' w"
  then have "wp m (\<lambda>r w'. case r of None \<Rightarrow> C w' | Some x \<Rightarrow> Q x w') w" by blast
  then show "wp m (\<lambda>r w'. case r of None \<Rightarrow> C' w' | Some x \<Rightarrow> Q' x w') w"
    by (rule wp_mono) (use a(3,4) in \<open>simp split: option.splits\<close>)
qed

lemma triple_pre: "(\<And>w. P w \<Longrightarrow> b) \<Longrightarrow> (b \<Longrightarrow> triple C P m Q) \<Longrightarrow> triple C P m Q"
  by (auto simp: triple_def)

lemma triple_if [intro]: "(b \<Longrightarrow> triple C P m Q) \<Longrightarrow> (\<not> b \<Longrightarrow> triple C P n Q) \<Longrightarrow> triple C P (if b then m else n) Q"
  by simp

text \<open>An invariant kept on every path, with a property of the result.\<close>

definition ensures :: "('w \<Rightarrow> bool) \<Rightarrow> ('w, 'a) prog \<Rightarrow> ('a \<Rightarrow> bool) \<Rightarrow> bool" where
  "ensures I m R \<longleftrightarrow> triple I I m (\<lambda>x w. I w \<and> R x)"

lemma ensuresD: "ensures I m R \<Longrightarrow> I w \<Longrightarrow> m w = (r, w') \<Longrightarrow> I w' \<and> (\<forall>x. r = Some x \<longrightarrow> R x)"
  unfolding ensures_def by (drule (2) tripleD) (auto split: option.splits)

lemma ensures_inv: "ensures I m R \<Longrightarrow> I w \<Longrightarrow> I (snd (m w))"
  using ensuresD [of I m R w "fst (m w)" "snd (m w)"] by simp

lemma ensures_ret: "R x \<Longrightarrow> ensures I (ret x) R"
  by (auto simp: ensures_def)

lemma ensures_get: "(\<And>w. I w \<Longrightarrow> R (f w)) \<Longrightarrow> ensures I (get f) R"
  by (auto simp: ensures_def)

lemma ensures_modify: "(\<And>w. I w \<Longrightarrow> I (f w)) \<Longrightarrow> R () \<Longrightarrow> ensures I (modify f) R"
  by (auto simp: ensures_def)

lemma ensures_seq:
  "ensures I m R \<Longrightarrow> (\<And>x. R x \<Longrightarrow> ensures I (f x) S) \<Longrightarrow> ensures I (seq m f) S"
  unfolding ensures_def
proof (rule triple_seq)
  fix x
  assume "\<And>x. R x \<Longrightarrow> triple I I (f x) (\<lambda>x w. I w \<and> S x)"
  then show "triple I (\<lambda>w. I w \<and> R x) (f x) (\<lambda>x w. I w \<and> S x)" by (simp add: triple_def)
qed

lemma ensures_pair:
  "ensures I m (\<lambda>(a, b). R a b) \<Longrightarrow> (\<And>a b. R a b \<Longrightarrow> ensures I (f a b) S) \<Longrightarrow> ensures I (seq m (\<lambda>(a, b). f a b)) S"
  by (erule ensures_seq) auto

lemma ensures_guarded:
  "ensures I m R \<Longrightarrow> (\<And>e. R (Some e) \<Longrightarrow> ensures I (h e) S) \<Longrightarrow> (R None \<Longrightarrow> ensures I k S) \<Longrightarrow> ensures I (guarded m h k) S"
  unfolding guarded_def by (erule ensures_seq) (auto split: option.splits)

lemma ensures_weaken: "ensures I m R \<Longrightarrow> (\<And>x. R x \<Longrightarrow> S x) \<Longrightarrow> ensures I m S"
  unfolding ensures_def by (erule triple_weaken) auto

lemma ensures_if: "(b \<Longrightarrow> ensures I m S) \<Longrightarrow> (\<not> b \<Longrightarrow> ensures I n S) \<Longrightarrow> ensures I (if b then m else n) S"
  by simp

lemma ensures_option:
  "(x = None \<Longrightarrow> ensures I m S) \<Longrightarrow> (\<And>y. x = Some y \<Longrightarrow> ensures I (f y) S) \<Longrightarrow> ensures I (case x of None \<Rightarrow> m | Some y \<Rightarrow> f y) S"
  by (simp split: option.splits)

lemma ensures_sum:
  "(\<And>y. x = Inl y \<Longrightarrow> ensures I (f y) S) \<Longrightarrow> (\<And>y. x = Inr y \<Longrightarrow> ensures I (g y) S) \<Longrightarrow> ensures I (case x of Inl y \<Rightarrow> f y | Inr y \<Rightarrow> g y) S"
  by (simp split: sum.splits)

lemma triple_ensures: "(b \<Longrightarrow> ensures I m R) \<Longrightarrow> triple I (\<lambda>w. I w \<and> b) m (\<lambda>_. I)"
  unfolding ensures_def by (rule triple_pre [where b = b], blast, rule triple_weaken, assumption) auto

lemma ensures_pre: "((\<exists>w. I w) \<Longrightarrow> ensures I m R) \<Longrightarrow> ensures I m R"
  by (auto simp: ensures_def triple_def)

lemma ensures_fetch:
  "ensures I m R \<Longrightarrow> (\<And>e. ensures I (bad e) S) \<Longrightarrow> (\<And>x. R (Inr x) \<Longrightarrow> ensures I (k x) S) \<Longrightarrow> ensures I (fetch m bad k) S"
  unfolding fetch_def by (erule ensures_seq) (auto split: sum.splits)

lemmas ensures_rules = ensures_ret ensures_pair ensures_if ensures_option ensures_sum

section \<open>Machines and their runs\<close>

fun runs :: "('i \<Rightarrow> 's \<Rightarrow> 's) \<Rightarrow> 'i list \<Rightarrow> 's \<Rightarrow> 's" where
  "runs step [] s = s"
| "runs step (i # is) s = runs step is (step i s)"

lemma runs_append: "runs step (xs @ ys) s = runs step ys (runs step xs s)"
  by (induction xs arbitrary: s) auto

locale machine =
  fixes step :: "'i \<Rightarrow> 's \<Rightarrow> 's"
    and inv :: "'s \<Rightarrow> bool"
  assumes step_inv: "inv s \<Longrightarrow> inv (step i s)"
begin

lemma runs_inv: "inv s \<Longrightarrow> inv (runs step is s)"
  by (induction "is" arbitrary: s) (auto intro: step_inv)

lemma runs_prefix_inv: "inv s \<Longrightarrow> inv (runs step (take n is) s)"
  by (rule runs_inv)

end

section \<open>Association lists\<close>

lemma map_of_update [simp]: "map_of (AList.update k v al) = (map_of al)(k \<mapsto> v)"
  by (simp add: update_conv')

lemma in_keys_iff: "k \<in> fst ` set al \<longleftrightarrow> map_of al k \<noteq> None"
  by (simp add: map_of_eq_None_iff)

lemma map_of_rev_distinct: "distinct (map fst al) \<Longrightarrow> map_of (rev al) = map_of al"
proof
  fix k
  assume d: "distinct (map fst al)"
  then have r: "distinct (map fst (rev al))" by (simp add: rev_map [symmetric])
  show "map_of (rev al) k = map_of al k"
  proof (cases "map_of al k")
    case None
    then have "map_of (rev al) k = None" by (simp add: map_of_eq_None_iff)
    with None show ?thesis by simp
  next
    case (Some v)
    then have "(k, v) \<in> set (rev al)" using d by (simp add: map_of_eq_Some_iff)
    then show ?thesis using r Some by (simp add: map_of_eq_Some_iff)
  qed
qed

end
