(* ===== verification/Stack_Lifecycle.thy ===== *)
theory Stack_Lifecycle
  imports Prelude "HOL-Library.Sublist"
begin

text \<open>
  The stack state machine (\<open>pkg/run/machine.go\<close>), the log entries that carry its transitions
  (\<open>pkg/run/events.go\<close>), the replicated state map that applies them (\<open>pkg/raft/fsm.go\<close>), and
  the single-node variant that commits them to a local table first (\<open>pkg/raft/local.go\<close>).

  \<open>State\<close> and \<open>Event\<close> are Go string types: the declared constants are constructors, any other
  string is \<open>StateOther\<close> or \<open>EventOther\<close> (an entry read from the log is not validated, and the
  state map starts an unknown stack in the empty string). \<open>time.Now()\<close> is an argument.
\<close>

section \<open>States, events and the transition table\<close>

datatype state =
    StateProvisioning | StateIdle | StateStarting | StateRunningPrimary | StateFailingOver
  | StateRunningBackup | StateRestoring | StateStopping | StateUpdating | StateRollingBack
  | StateFailed | StateOther string

datatype event =
    EventCreateStack | EventBackupRestoreStart | EventBackupRestorePrepared | EventProvisionDone
  | EventStartStack | EventStartDone | EventStartFailed | EventFailStack | EventFailoverStart
  | EventFailoverDone | EventFailoverFailed | EventRestoreStart | EventRestoreDone
  | EventRestoreFailed | EventStopStack | EventStopDone | EventUpdateStack | EventUpdateDone
  | EventUpdateFailed | EventRollbackDone | EventRollbackFailed | EventPurgeStack
  | EventOther string

definition transitionalStates :: "state \<Rightarrow> bool" where
  "transitionalStates s \<longleftrightarrow> s \<in> {StateProvisioning, StateStarting, StateFailingOver,
     StateRestoring, StateStopping, StateUpdating, StateRollingBack}"

record transition =
  tr_From :: state
  tr_Event :: event
  tr_To :: state

definition transitions :: "transition list" where
  "transitions = map (\<lambda>(f, e, t). \<lparr>tr_From = f, tr_Event = e, tr_To = t\<rparr>)
    [(StateIdle, EventBackupRestoreStart, StateRestoring),
     (StateRestoring, EventBackupRestorePrepared, StateProvisioning),
     (StateIdle, EventCreateStack, StateProvisioning),
     (StateProvisioning, EventProvisionDone, StateIdle),
     (StateProvisioning, EventFailStack, StateFailed),
     (StateIdle, EventStartStack, StateStarting),
     (StateFailed, EventStartStack, StateStarting),
     (StateStarting, EventStartDone, StateRunningPrimary),
     (StateStarting, EventStartFailed, StateFailed),
     (StateRunningPrimary, EventFailStack, StateFailed),
     (StateRunningPrimary, EventFailoverStart, StateFailingOver),
     (StateFailingOver, EventFailoverDone, StateRunningBackup),
     (StateFailingOver, EventFailoverFailed, StateFailed),
     (StateRunningBackup, EventRestoreStart, StateRestoring),
     (StateRestoring, EventRestoreDone, StateRunningPrimary),
     (StateRestoring, EventRestoreFailed, StateFailed),
     (StateRunningPrimary, EventStopStack, StateStopping),
     (StateRunningBackup, EventStopStack, StateStopping),
     (StateIdle, EventStopStack, StateIdle),
     (StateStopping, EventStopDone, StateIdle),
     (StateRunningPrimary, EventUpdateStack, StateUpdating),
     (StateUpdating, EventUpdateDone, StateRunningPrimary),
     (StateUpdating, EventUpdateFailed, StateRollingBack),
     (StateRollingBack, EventRollbackDone, StateRunningPrimary),
     (StateRollingBack, EventRollbackFailed, StateFailed)]"

text \<open>
  \<open>init\<close> indexes the table as from, event, to. The inner Go maps are association lists without
  duplicate keys, since \<open>ValidTransitions\<close> iterates over their keys.
\<close>

type_synonym transition_map = "state \<rightharpoonup> (event \<times> state) list"

definition init_step :: "transition \<Rightarrow> transition_map \<Rightarrow> transition_map" where
  "init_step t m = (let inner = (case m (tr_From t) of None \<Rightarrow> [] | Some al \<Rightarrow> al)
     in m(tr_From t \<mapsto> AList.update (tr_Event t) (tr_To t) inner))"

definition transitionMap :: transition_map where
  "transitionMap = fold init_step transitions Map.empty"

record stack_instance =
  si_ID :: string
  si_State :: state
  si_PreviousState :: state
  si_LockedBy :: string
  si_UpdatedAt :: int

datatype run_error =
    ErrTransitionInProgress
  | ErrNoTransitions state
  | ErrInvalidTransition state event

definition Apply :: "int \<Rightarrow> stack_instance \<Rightarrow> event \<Rightarrow> run_error + stack_instance" where
  "Apply now inst ev =
     (if transitionalStates (si_State inst) \<and> si_LockedBy inst \<noteq> [] \<and>
         (case transitionMap (si_State inst) of None \<Rightarrow> True | Some toMap \<Rightarrow> map_of toMap ev = None)
      then Inl ErrTransitionInProgress
      else case transitionMap (si_State inst) of
        None \<Rightarrow> Inl (ErrNoTransitions (si_State inst))
      | Some toMap \<Rightarrow>
         (case map_of toMap ev of
            None \<Rightarrow> Inl (ErrInvalidTransition (si_State inst) ev)
          | Some nxt \<Rightarrow> Inr (inst\<lparr>si_PreviousState := si_State inst, si_State := nxt,
              si_UpdatedAt := now,
              si_LockedBy := (if transitionalStates nxt then ''control'' else [])\<rparr>)))"

definition ValidTransitions :: "state \<Rightarrow> event list" where
  "ValidTransitions s = (case transitionMap s of None \<Rightarrow> [] | Some toMap \<Rightarrow> map fst toMap)"

section \<open>The replicated state map\<close>

record state_changed =
  sc_StackID :: string
  sc_From :: state
  sc_To :: state
  sc_Event :: event
  sc_Timestamp :: int
  sc_NodeID :: string

text \<open>
  A subscriber's channel is its buffer (at most 64 entries). Bytes of the Raft log and of the
  local table are modelled by what \<open>json.Unmarshal\<close> makes of them: a decoding error or an entry.
\<close>

record fsm =
  fsm_stacks :: "string \<rightharpoonup> stack_instance"
  fsm_subs :: "64 word \<rightharpoonup> state_changed list"
  fsm_nextID :: "64 word"

definition NewFSM :: fsm where
  "NewFSM = \<lparr>fsm_stacks = Map.empty, fsm_subs = Map.empty, fsm_nextID = 0\<rparr>"

definition Subscribe :: "fsm \<Rightarrow> 64 word \<times> fsm" where
  "Subscribe f = (fsm_nextID f,
     f\<lparr>fsm_nextID := fsm_nextID f + 1, fsm_subs := (fsm_subs f)(fsm_nextID f \<mapsto> [])\<rparr>)"

definition unsubscribe :: "64 word \<Rightarrow> fsm \<Rightarrow> fsm" where
  "unsubscribe sid f = f\<lparr>fsm_subs := (fsm_subs f)(sid := None)\<rparr>"

definition fanOut :: "state_changed \<Rightarrow> fsm \<Rightarrow> fsm" where
  "fanOut entry f = f\<lparr>fsm_subs := (\<lambda>sid. map_option
     (\<lambda>buf. if length buf < 64 then buf @ [entry] else buf) (fsm_subs f sid))\<rparr>"

text \<open>A subscriber reads its channel: the oldest entry of the buffer, if there is one (it waits otherwise).\<close>

definition receive :: "64 word \<Rightarrow> fsm \<Rightarrow> state_changed list \<times> fsm" where
  "receive sid f = (case fsm_subs f sid of Some (entry # buf) \<Rightarrow> ([entry], f\<lparr>fsm_subs := (fsm_subs f)(sid \<mapsto> buf)\<rparr>) | _ \<Rightarrow> ([], f))"

text \<open>The zero value of \<open>run.StackInstance\<close> with its ID set.\<close>

definition new_instance :: "string \<Rightarrow> stack_instance" where
  "new_instance sid = \<lparr>si_ID = sid, si_State = StateOther [], si_PreviousState = StateOther [],
     si_LockedBy = [], si_UpdatedAt = - 62135596800000000000\<rparr>"

definition fsm_Apply :: "string + state_changed \<Rightarrow> fsm \<Rightarrow> error \<times> fsm" where
  "fsm_Apply data f = (case data of
     Inl e \<Rightarrow> (Some (''fsm: unmarshal: '' @ e), f)
   | Inr entry \<Rightarrow>
       (let inst = (case fsm_stacks f (sc_StackID entry) of None \<Rightarrow> new_instance (sc_StackID entry)
                    | Some i \<Rightarrow> i);
            updated = inst\<lparr>si_PreviousState := si_State inst, si_State := sc_To entry,
                        si_UpdatedAt := sc_Timestamp entry\<rparr>
        in (None, fanOut entry (f\<lparr>fsm_stacks := (fsm_stacks f)(sc_StackID entry \<mapsto> updated)\<rparr>))))"

definition Snapshot :: "fsm \<Rightarrow> (string \<rightharpoonup> stack_instance)" where
  "Snapshot f = fsm_stacks f"

definition Restore :: "string + (string \<rightharpoonup> stack_instance) \<Rightarrow> fsm \<Rightarrow> error \<times> fsm" where
  "Restore rc f = (case rc of Inl e \<Rightarrow> (Some (''fsm: restore: '' @ e), f)
     | Inr stacks \<Rightarrow> (None, f\<lparr>fsm_stacks := stacks\<rparr>))"

definition fsm_State :: "fsm \<Rightarrow> string \<Rightarrow> stack_instance option" where
  "fsm_State f sid = fsm_stacks f sid"

definition AllStates :: "fsm \<Rightarrow> (string \<rightharpoonup> stack_instance)" where
  "AllStates f = fsm_stacks f"

section \<open>The local node\<close>

text \<open>
  The rqlite client of a standalone node: its local path, the identity stored in it and the
  table \<open>workload_lifecycle\<close>. What the database answers to a statement is an argument of the
  operation that issues it. A table cell is text holding an encoded entry, or something that is
  not a string.
\<close>

datatype cell = CText "string + state_changed" | CNotText

record local_db =
  ldb_path :: string
  ldb_identity :: "string + string"
  ldb_lifecycle :: "(string \<times> cell list) list"

record local_node =
  ln_fsm :: fsm
  ln_db :: local_db
  ln_nodeID :: string

definition lifecycle_rows :: "local_db \<Rightarrow> cell list list" where
  "lifecycle_rows db = map snd (sort_key fst (ldb_lifecycle db))"

fun load_rows :: "string \<Rightarrow> cell list list \<Rightarrow> fsm \<Rightarrow> string + fsm" where
  "load_rows nodeID [] f = Inr f"
| "load_rows nodeID (row # rows) f = (case row of
     [CText data] \<Rightarrow>
       (case data of
          Inl e \<Rightarrow> Inl e
        | Inr persisted \<Rightarrow>
            if sc_NodeID persisted \<noteq> [] \<and> sc_NodeID persisted \<noteq> nodeID
            then Inl ''persisted lifecycle belongs to another node''
            else case fsm_Apply data f of
              (Some e, _) \<Rightarrow> Inl e
            | (None, f') \<Rightarrow> load_rows nodeID rows f')
   | [CNotText] \<Rightarrow> Inl ''invalid persisted lifecycle entry''
   | _ \<Rightarrow> Inl ''invalid persisted lifecycle row'')"

definition NewLocalNode :: "error \<Rightarrow> error \<Rightarrow> local_db \<Rightarrow> string \<Rightarrow> string + local_node" where
  "NewLocalNode createErr queryErr db nodeID =
     (if ldb_path db = [] \<or> nodeID = []
      then Inl ''local lifecycle requires a local database and node identity''
      else case ldb_identity db of
        Inl e \<Rightarrow> Inl e
      | Inr owner \<Rightarrow>
          if owner \<noteq> nodeID then Inl (''lifecycle database belongs to node '' @ owner)
          else case createErr of Some e \<Rightarrow> Inl e
          | None \<Rightarrow>
            (case queryErr of Some e \<Rightarrow> Inl e
             | None \<Rightarrow>
                (case load_rows nodeID (lifecycle_rows db) NewFSM of
                   Inl e \<Rightarrow> Inl e
                 | Inr f \<Rightarrow> Inr \<lparr>ln_fsm = f, ln_db = db, ln_nodeID = nodeID\<rparr>)))"

definition applyLocal :: "error \<Rightarrow> state_changed \<Rightarrow> local_node \<Rightarrow> error \<times> local_node" where
  "applyLocal executeErr entry n =
     (if sc_NodeID entry \<noteq> [] \<and> sc_NodeID entry \<noteq> ln_nodeID n
      then (Some ''workload lifecycle belongs to another node'', n)
      else case executeErr of Some e \<Rightarrow> (Some e, n)
      | None \<Rightarrow>
         (let db' = (ln_db n)\<lparr>ldb_lifecycle :=
                AList.update (sc_StackID entry) [CText (Inr entry)] (ldb_lifecycle (ln_db n))\<rparr>;
              (err, f') = fsm_Apply (Inr entry) (ln_fsm n)
          in (err, n\<lparr>ln_db := db', ln_fsm := f'\<rparr>)))"

section \<open>The table\<close>

text \<open>
  The index built by \<open>init\<close> answers a lookup exactly as the table does: building it by updates
  loses no row, because no two rows share a source state and an event.
\<close>

definition lookup :: "transition_map \<Rightarrow> state \<Rightarrow> event \<Rightarrow> state option" where
  "lookup m s e = Option.bind (m s) (\<lambda>al. map_of al e)"

abbreviation table_rows :: "transition list \<Rightarrow> ((state \<times> event) \<times> state) list" where
  "table_rows ts \<equiv> map (\<lambda>t. ((tr_From t, tr_Event t), tr_To t)) ts"

definition edge :: "state \<Rightarrow> event \<Rightarrow> state \<Rightarrow> bool" where
  "edge s e t \<longleftrightarrow> ((s, e), t) \<in> set (table_rows transitions)"

lemma lookup_init_step:
  "lookup (init_step t m) s e = (if s = tr_From t \<and> e = tr_Event t then Some (tr_To t) else lookup m s e)"
  by (auto simp: lookup_def init_step_def Let_def split: option.splits)

lemma lookup_fold: "lookup (fold init_step ts m) s e =
    (case map_of (rev (table_rows ts)) (s, e) of None \<Rightarrow> lookup m s e | Some t \<Rightarrow> Some t)"
  by (induction ts arbitrary: m) (auto simp: lookup_init_step map_add_def split: option.splits)

lemma distinct_table: "distinct (map fst (table_rows transitions))"
  by (simp add: transitions_def)

lemma lookup_transitionMap: "lookup transitionMap s e = Some t \<longleftrightarrow> edge s e t"
proof -
  have "lookup transitionMap s e = map_of (rev (table_rows transitions)) (s, e)"
    unfolding transitionMap_def lookup_fold by (simp add: lookup_def split: option.splits)
  also have "\<dots> = map_of (table_rows transitions) (s, e)"
    by (simp only: map_of_rev_distinct [OF distinct_table])
  finally show ?thesis
    by (simp add: edge_def map_of_eq_Some_iff [OF distinct_table])
qed

lemma Apply_cases:
  "Apply now inst ev = (case lookup transitionMap (si_State inst) ev of
     Some nxt \<Rightarrow> Inr (inst\<lparr>si_PreviousState := si_State inst, si_State := nxt, si_UpdatedAt := now,
                  si_LockedBy := (if transitionalStates nxt then ''control'' else [])\<rparr>)
   | None \<Rightarrow> Inl (if transitionalStates (si_State inst) \<and> si_LockedBy inst \<noteq> [] then ErrTransitionInProgress
                 else if transitionMap (si_State inst) = None then ErrNoTransitions (si_State inst)
                 else ErrInvalidTransition (si_State inst) ev))"
  by (auto simp: Apply_def lookup_def split: option.splits)

lemma Apply_Inr_iff:
  "Apply now inst ev = Inr inst' \<longleftrightarrow>
     (\<exists>nxt. edge (si_State inst) ev nxt \<and>
       inst' = inst\<lparr>si_PreviousState := si_State inst, si_State := nxt, si_UpdatedAt := now,
                 si_LockedBy := (if transitionalStates nxt then ''control'' else [])\<rparr>)"
  by (auto simp: Apply_cases lookup_transitionMap [symmetric] split: option.splits)

lemma edge_functional: "edge s e t \<Longrightarrow> edge s e t' \<Longrightarrow> t = t'"
  by (simp add: lookup_transitionMap [symmetric])

lemma no_edge_iff: "lookup transitionMap s e = None \<longleftrightarrow> (\<forall>t. \<not> edge s e t)"
  by (metis lookup_transitionMap not_None_eq)

text \<open>The states of the table are declared states: no transition leaves or enters another string.\<close>

lemma edge_declared: "edge s e t \<Longrightarrow> s \<noteq> StateOther x \<and> t \<noteq> StateOther x"
  by (auto simp: edge_def transitions_def)

lemma mapped_states: "transitionMap s \<noteq> None \<longleftrightarrow> (\<forall>x. s \<noteq> StateOther x)"
  by (cases s) (simp_all add: transitionMap_def transitions_def init_step_def Let_def)

section \<open>Runs of the state machine\<close>

text \<open>A rejected event leaves the instance as it was; an accepted one replaces it.\<close>

definition machine_step :: "int \<times> event \<Rightarrow> stack_instance \<Rightarrow> stack_instance" where
  "machine_step i inst = (case Apply (fst i) inst (snd i) of Inl _ \<Rightarrow> inst | Inr inst' \<Rightarrow> inst')"

text \<open>A run that stops at the first rejected event.\<close>

fun drive :: "int \<Rightarrow> stack_instance \<Rightarrow> event list \<Rightarrow> run_error + stack_instance" where
  "drive now inst [] = Inr inst"
| "drive now inst (ev # evs) =
     (case Apply now inst ev of Inl e \<Rightarrow> Inl e | Inr inst' \<Rightarrow> drive now inst' evs)"

definition declared :: "state \<Rightarrow> bool" where
  "declared s \<longleftrightarrow> (case s of StateOther _ \<Rightarrow> False | _ \<Rightarrow> True)"

definition locked_iff_transitional :: "stack_instance \<Rightarrow> bool" where
  "locked_iff_transitional inst \<longleftrightarrow> declared (si_State inst) \<and>
     si_LockedBy inst = (if transitionalStates (si_State inst) then ''control'' else [])"

lemma edge_to_declared: "edge s e t \<Longrightarrow> declared t"
  using edge_declared by (cases t) (auto simp: declared_def)

interpretation lifecycle: machine machine_step locked_iff_transitional
proof
  fix i inst
  assume inv: "locked_iff_transitional inst"
  show "locked_iff_transitional (machine_step i inst)"
  proof (cases "Apply (fst i) inst (snd i)")
    case (Inl e)
    with inv show ?thesis by (simp add: machine_step_def)
  next
    case (Inr inst')
    then have "machine_step i inst = inst'" by (simp add: machine_step_def)
    moreover from Inr have "locked_iff_transitional inst'"
      by (auto simp: Apply_Inr_iff locked_iff_transitional_def edge_to_declared)
    ultimately show ?thesis by simp
  qed
qed

fun way_home :: "state \<Rightarrow> event list" where
  "way_home StateProvisioning = [EventProvisionDone]"
| "way_home StateIdle = []"
| "way_home StateStarting = [EventStartDone, EventStopStack, EventStopDone]"
| "way_home StateRunningPrimary = [EventStopStack, EventStopDone]"
| "way_home StateFailingOver = [EventFailoverDone, EventStopStack, EventStopDone]"
| "way_home StateRunningBackup = [EventStopStack, EventStopDone]"
| "way_home StateRestoring = [EventBackupRestorePrepared, EventProvisionDone]"
| "way_home StateStopping = [EventStopDone]"
| "way_home StateUpdating = [EventUpdateDone, EventStopStack, EventStopDone]"
| "way_home StateRollingBack = [EventRollbackDone, EventStopStack, EventStopDone]"
| "way_home StateFailed = [EventStartStack, EventStartDone, EventStopStack, EventStopDone]"
| "way_home (StateOther x) = []"

lemma lookup_eqs:
  "lookup transitionMap StateProvisioning EventProvisionDone = Some StateIdle"
  "lookup transitionMap StateStarting EventStartDone = Some StateRunningPrimary"
  "lookup transitionMap StateRunningPrimary EventStopStack = Some StateStopping"
  "lookup transitionMap StateFailingOver EventFailoverDone = Some StateRunningBackup"
  "lookup transitionMap StateRunningBackup EventStopStack = Some StateStopping"
  "lookup transitionMap StateRestoring EventBackupRestorePrepared = Some StateProvisioning"
  "lookup transitionMap StateStopping EventStopDone = Some StateIdle"
  "lookup transitionMap StateUpdating EventUpdateDone = Some StateRunningPrimary"
  "lookup transitionMap StateRollingBack EventRollbackDone = Some StateRunningPrimary"
  "lookup transitionMap StateFailed EventStartStack = Some StateStarting"
  by (simp_all add: lookup_transitionMap edge_def transitions_def)

lemma way_home_idle:
  "declared (si_State inst) \<Longrightarrow> \<exists>inst'. drive now inst (way_home (si_State inst)) = Inr inst' \<and> si_State inst' = StateIdle"
  by (cases "si_State inst") (simp_all add: declared_def Apply_cases lookup_eqs)

section \<open>Claims on the state machine\<close>

text \<open>
  \<open>Apply\<close> accepts an event exactly when the transition table has a row for the instance's
  state and that event, whoever holds the lock; the instance it returns is in the row's target
  state, remembers the state it left, and is locked by \<open>control\<close> exactly when the target is a
  transitional state.
\<close>
theorem apply_follows_table:
  "Apply now inst ev = Inr inst' \<longleftrightarrow>
     (\<exists>nxt. edge (si_State inst) ev nxt \<and>
       inst' = inst\<lparr>si_PreviousState := si_State inst, si_State := nxt, si_UpdatedAt := now,
                 si_LockedBy := (if transitionalStates nxt then ''control'' else [])\<rparr>)"
  by (rule Apply_Inr_iff)

text \<open>
  C25. Whatever sequence of events is offered to a stack created idle and unlocked, and whichever
  of them are rejected, the stack stays in a declared state and is locked exactly while a
  transition is in progress.
\<close>
theorem lock_held_exactly_in_transition:
  "si_State inst = StateIdle \<Longrightarrow> si_LockedBy inst = [] \<Longrightarrow>
     declared (si_State (runs machine_step evs inst)) \<and>
     (si_LockedBy (runs machine_step evs inst) \<noteq> [] \<longleftrightarrow> transitionalStates (si_State (runs machine_step evs inst)))"
  using lifecycle.runs_inv [of inst evs]
  by (auto simp: locked_iff_transitional_def declared_def transitionalStates_def)

theorem lock_held_exactly_in_transition_witness:
  "transitionalStates (si_State (runs machine_step [(7, EventStopDone), (8, EventStartStack)]
     ((new_instance ''s'')\<lparr>si_State := StateIdle\<rparr>)))
   \<and> si_LockedBy (runs machine_step [(7, EventStopDone), (8, EventStartStack)]
     ((new_instance ''s'')\<lparr>si_State := StateIdle\<rparr>)) \<noteq> []"
proof -
  let ?i = "(new_instance ''s'')\<lparr>si_State := StateIdle\<rparr>"
  let ?evs = "[(7, EventStopDone), (8, EventStartStack)]"
  have st: "si_State (runs machine_step ?evs ?i) = StateStarting"
    by (simp add: machine_step_def Apply_def transitionMap_def transitions_def init_step_def
        transitionalStates_def new_instance_def)
  then show ?thesis
    using lock_held_exactly_in_transition [of ?i ?evs]
    by (simp add: new_instance_def transitionalStates_def)
qed

text \<open>
  The lock only decides which error a rejected event gets: the same events are accepted, with
  the same result, whatever \<open>LockedBy\<close> holds. A stack whose lock was lost (the replicated state
  map never stores it) still rejects every command that does not complete its transition.
\<close>
theorem lock_does_not_change_acceptance:
  "Apply now (inst\<lparr>si_LockedBy := l\<rparr>) ev = Inr inst' \<longleftrightarrow> Apply now inst ev = Inr inst'"
  by (auto simp: Apply_Inr_iff)

text \<open>
  No declared state is a dead end: from each of them some sequence of events is accepted in
  full and brings the stack to \<open>Idle\<close>.
\<close>
theorem every_state_can_reach_idle:
  "declared (si_State inst) \<Longrightarrow>
     \<exists>evs inst'. drive now inst evs = Inr inst' \<and> si_State inst' = StateIdle"
  using way_home_idle [of inst now] by blast

theorem every_state_can_reach_idle_witness:
  "\<exists>evs inst'. drive 5 ((new_instance ''s'')\<lparr>si_State := StateFailed\<rparr>) evs = Inr inst' \<and> si_State inst' = StateIdle"
  by (rule every_state_can_reach_idle) (simp add: declared_def)

section \<open>The state map as a log machine\<close>

text \<open>
  What Raft asks of a finite state machine: applying an entry changes the part of the state that
  a snapshot holds as a function of that part only, and restoring a snapshot brings that part
  back. Then a node that installs a snapshot and replays the rest of the log agrees with a node
  that replayed the whole log.
\<close>

locale log_machine =
  fixes apply_entry :: "'e \<Rightarrow> 's \<Rightarrow> 's"
    and snapshot :: "'s \<Rightarrow> 'v"
    and restore :: "'v \<Rightarrow> 's \<Rightarrow> 's"
  assumes snapshot_apply: "snapshot s = snapshot t \<Longrightarrow> snapshot (apply_entry e s) = snapshot (apply_entry e t)"
    and snapshot_restore: "snapshot (restore v t) = v"
begin

lemma replay_agrees: "snapshot s = snapshot t \<Longrightarrow> snapshot (runs apply_entry es s) = snapshot (runs apply_entry es t)"
proof (induction es arbitrary: s t)
  case Nil
  then show ?case by simp
next
  case (Cons e es)
  from Cons.prems have "snapshot (apply_entry e s) = snapshot (apply_entry e t)"
    by (rule snapshot_apply)
  then show ?case unfolding runs.simps by (rule Cons.IH)
qed

lemma compaction:
  "snapshot (runs apply_entry ys (restore (snapshot (runs apply_entry xs s)) t)) = snapshot (runs apply_entry (xs @ ys) s)"
  by (simp add: runs_append) (rule replay_agrees, rule snapshot_restore)

end

definition fsm_step :: "string + state_changed \<Rightarrow> fsm \<Rightarrow> fsm" where
  "fsm_step data f = snd (fsm_Apply data f)"

lemma fsm_step_Inl [simp]: "fsm_step (Inl e) f = f"
  by (simp add: fsm_step_def fsm_Apply_def)

lemma fsm_step_stacks: "fsm_stacks (fsm_step (Inr entry) f) =
    (let inst = (case fsm_stacks f (sc_StackID entry) of None \<Rightarrow> new_instance (sc_StackID entry) | Some i \<Rightarrow> i)
     in (fsm_stacks f)(sc_StackID entry \<mapsto> inst\<lparr>si_PreviousState := si_State inst,
          si_State := sc_To entry, si_UpdatedAt := sc_Timestamp entry\<rparr>))"
  by (simp add: fsm_step_def fsm_Apply_def fanOut_def Let_def)

lemma fsm_step_subs: "fsm_subs (fsm_step (Inr entry) f) =
    (\<lambda>sid. map_option (\<lambda>buf. if length buf < 64 then buf @ [entry] else buf) (fsm_subs f sid))"
  by (simp add: fsm_step_def fsm_Apply_def fanOut_def Let_def)

interpretation stack_log: log_machine fsm_step Snapshot "\<lambda>v f. snd (Restore (Inr v) f)"
proof
  fix s t :: fsm and e
  assume "Snapshot s = Snapshot t"
  then show "Snapshot (fsm_step e s) = Snapshot (fsm_step e t)"
    by (cases e) (simp_all add: Snapshot_def fsm_step_stacks)
qed (simp add: Snapshot_def Restore_def)

definition unlocked_map :: "fsm \<Rightarrow> bool" where
  "unlocked_map f \<longleftrightarrow> (\<forall>sid inst. fsm_stacks f sid = Some inst \<longrightarrow> si_LockedBy inst = [])"

interpretation unlocked: machine fsm_step unlocked_map
proof
  fix f e
  assume "unlocked_map f"
  then show "unlocked_map (fsm_step e f)"
    by (cases e) (auto simp: unlocked_map_def fsm_step_stacks Let_def new_instance_def split: option.splits)
qed

fun decoded :: "(string + state_changed) list \<Rightarrow> state_changed list" where
  "decoded [] = []"
| "decoded (Inl e # ds) = decoded ds"
| "decoded (Inr entry # ds) = entry # decoded ds"

text \<open>The state map at work: log entries are applied and subscribers read, in any order. What a subscriber has read is kept.\<close>

datatype fsm_event = Applied "string + state_changed" | Received "64 word"

fun react :: "fsm_event \<Rightarrow> fsm \<times> (64 word \<Rightarrow> state_changed list) \<Rightarrow> fsm \<times> (64 word \<Rightarrow> state_changed list)" where
  "react (Applied d) (f, got) = (fsm_step d f, got)"
| "react (Received sid) (f, got) = (case receive sid f of (entries, f') \<Rightarrow> (f', got(sid := got sid @ entries)))"

fun applied :: "fsm_event list \<Rightarrow> (string + state_changed) list" where
  "applied [] = []"
| "applied (Applied d # evs) = d # applied evs"
| "applied (Received sid # evs) = applied evs"

text \<open>The subscriber, with \<open>n\<close> entries unread, never leaves 64 unread when another arrives.\<close>

fun keeps_up :: "64 word \<Rightarrow> nat \<Rightarrow> fsm_event list \<Rightarrow> bool" where
  "keeps_up sid n [] = True"
| "keeps_up sid n (Applied (Inl e) # evs) = keeps_up sid n evs"
| "keeps_up sid n (Applied (Inr entry) # evs) = (n < 64 \<and> keeps_up sid (n + 1) evs)"
| "keeps_up sid n (Received sid' # evs) = keeps_up sid (if sid' = sid then n - 1 else n) evs"

definition seen :: "64 word \<Rightarrow> fsm \<times> (64 word \<Rightarrow> state_changed list) \<Rightarrow> state_changed list" where
  "seen sid fg = (case fg of (f, got) \<Rightarrow> got sid @ (case fsm_subs f sid of None \<Rightarrow> [] | Some buf \<Rightarrow> buf))"

lemma runs_seen:
  "fsm_subs f sid = Some buf \<Longrightarrow>
   \<exists>new. seen sid (runs react evs (f, got)) = got sid @ buf @ new \<and> subseq new (decoded (applied evs)) \<and>
     (keeps_up sid (length buf) evs \<longrightarrow> new = decoded (applied evs))"
proof (induction evs arbitrary: f got buf)
  case Nil
  then show ?case by (simp add: seen_def)
next
  case (Cons ev evs)
  show ?case
  proof (cases ev)
    case (Applied d)
    show ?thesis
    proof (cases d)
      case (Inl e)
      then show ?thesis using Cons Applied by simp
    next
      case (Inr entry)
      let ?buf = "if length buf < 64 then buf @ [entry] else buf"
      have "fsm_subs (fsm_step (Inr entry) f) sid = Some ?buf" using Cons.prems by (simp add: fsm_step_subs)
      from Cons.IH [OF this, of got] show ?thesis
        by (cases "length buf < 64") (auto simp: Applied Inr intro: list_emb_Cons)
    qed
  next
    case (Received sid')
    show ?thesis
    proof (cases "sid' = sid")
      case True
      show ?thesis
      proof (cases buf)
        case Nil
        then show ?thesis using Cons.prems Cons.IH [of f "[]" got] Received True by (simp add: receive_def)
      next
        case (Cons entry rest)
        then show ?thesis using Cons.prems Cons.IH [of "f\<lparr>fsm_subs := (fsm_subs f)(sid \<mapsto> rest)\<rparr>" rest "got(sid := got sid @ [entry])"] Received True
          by (simp add: receive_def fun_upd_same del: fun_upd_apply)
      qed
    next
      case False
      have "fsm_subs (snd (receive sid' f)) sid = Some buf" using Cons.prems False by (auto simp: receive_def split: option.split list.split)
      from Cons.IH [OF this, of "got(sid' := got sid' @ fst (receive sid' f))"] show ?thesis using Received False by (simp add: case_prod_beta fun_upd_other del: fun_upd_apply)
    qed
  qed
qed

section \<open>The local table and the state map\<close>

text \<open>
  The table is well formed when every key occurs once and holds one decodable entry for that
  stack, recorded by this node or by no node in particular.
\<close>

definition entry_of :: "cell list \<Rightarrow> state_changed option" where
  "entry_of row = (case row of [CText (Inr e)] \<Rightarrow> Some e | _ \<Rightarrow> None)"

definition row_ok :: "string \<Rightarrow> string \<times> cell list \<Rightarrow> bool" where
  "row_ok nodeID kr \<longleftrightarrow> (case entry_of (snd kr) of None \<Rightarrow> False
     | Some e \<Rightarrow> sc_StackID e = fst kr \<and> (sc_NodeID e = [] \<or> sc_NodeID e = nodeID))"

definition wf_lifecycle :: "string \<Rightarrow> (string \<times> cell list) list \<Rightarrow> bool" where
  "wf_lifecycle nodeID tbl \<longleftrightarrow> distinct (map fst tbl) \<and> list_all (row_ok nodeID) tbl"

abbreviation summary :: "fsm \<Rightarrow> string \<Rightarrow> (state \<times> int) option" where
  "summary f sid \<equiv> map_option (\<lambda>i. (si_State i, si_UpdatedAt i)) (fsm_stacks f sid)"

definition table_summary :: "(string \<times> cell list) list \<Rightarrow> string \<Rightarrow> (state \<times> int) option" where
  "table_summary tbl sid = map_option (\<lambda>e. (sc_To e, sc_Timestamp e)) (Option.bind (map_of tbl sid) entry_of)"

lemma row_okE:
  assumes "row_ok nodeID (k, row)"
  obtains e where "row = [CText (Inr e)]" "sc_StackID e = k" "sc_NodeID e = [] \<or> sc_NodeID e = nodeID"
  using assms by (auto simp: row_ok_def entry_of_def split: list.splits cell.splits sum.splits)

lemma load_rows_ok:
  assumes "distinct (map fst kvs)" "list_all (row_ok nodeID) kvs"
  shows "\<exists>f'. load_rows nodeID (map snd kvs) f = Inr f' \<and>
     (\<forall>sid. summary f' sid = (case table_summary kvs sid of None \<Rightarrow> summary f sid | Some v \<Rightarrow> Some v))"
  using assms
proof (induction kvs arbitrary: f)
  case Nil
  then show ?case by (simp add: table_summary_def)
next
  case (Cons kv kvs)
  obtain k row where kv: "kv = (k, row)" by (cases kv)
  from Cons.prems(2) have "row_ok nodeID (k, row)" by (simp add: kv)
  then obtain e where e: "row = [CText (Inr e)]" "sc_StackID e = k" "sc_NodeID e = [] \<or> sc_NodeID e = nodeID"
    by (rule row_okE)
  have step: "fsm_Apply (Inr e) f = (None, fsm_step (Inr e) f)"
    by (simp add: fsm_step_def fsm_Apply_def Let_def)
  have one: "summary (fsm_step (Inr e) f) sid = (if sid = k then Some (sc_To e, sc_Timestamp e) else summary f sid)" for sid
    using e(2) by (simp add: fsm_step_stacks Let_def)
  have fresh: "table_summary kvs k = None"
    using Cons.prems(1) map_of_eq_None_iff [of kvs k] by (simp add: kv table_summary_def)
  from Cons.prems obtain f' where f': "load_rows nodeID (map snd kvs) (fsm_step (Inr e) f) = Inr f'"
    "\<forall>sid. summary f' sid = (case table_summary kvs sid of None \<Rightarrow> summary (fsm_step (Inr e) f) sid | Some v \<Rightarrow> Some v)"
    using Cons.IH [of "fsm_step (Inr e) f"] by auto
  have "load_rows nodeID (map snd (kv # kvs)) f = Inr f'"
    using e(3) f'(1) by (simp add: kv e(1) step)
  moreover have "summary f' sid = (case table_summary (kv # kvs) sid of None \<Rightarrow> summary f sid | Some v \<Rightarrow> Some v)" for sid
    using f'(2) [rule_format, of sid] fresh one [of sid]
    by (auto simp: kv e(1) table_summary_def entry_of_def split: if_splits option.splits)
  ultimately show ?case by blast
qed

lemma map_of_sort_key: "distinct (map fst kvs) \<Longrightarrow> map_of (sort_key fst kvs) = map_of kvs"
  by (rule map_of_inject_set [THEN iffD2]) (simp_all add: distinct_map)

lemma NewLocalNode_wf:
  assumes "wf_lifecycle nodeID (ldb_lifecycle db)" "ldb_path db \<noteq> []" "nodeID \<noteq> []" "ldb_identity db = Inr nodeID"
  shows "\<exists>n. NewLocalNode None None db nodeID = Inr n \<and> ln_db n = db \<and> ln_nodeID n = nodeID \<and>
           (\<forall>sid. summary (ln_fsm n) sid = table_summary (ldb_lifecycle db) sid)"
proof -
  let ?kvs = "sort_key fst (ldb_lifecycle db)"
  have d: "distinct (map fst (ldb_lifecycle db))" and r: "list_all (row_ok nodeID) (ldb_lifecycle db)"
    using assms(1) by (simp_all add: wf_lifecycle_def)
  have "distinct (map fst ?kvs)" using d by (simp add: distinct_map)
  moreover have "list_all (row_ok nodeID) ?kvs" using r by (simp add: list_all_iff)
  ultimately obtain f where f: "load_rows nodeID (map snd ?kvs) NewFSM = Inr f"
    "\<forall>sid. summary f sid = (case table_summary ?kvs sid of None \<Rightarrow> summary NewFSM sid | Some v \<Rightarrow> Some v)"
    using load_rows_ok by blast
  have "summary f sid = table_summary (ldb_lifecycle db) sid" for sid
    using f(2) [rule_format, of sid]
    by (simp add: table_summary_def map_of_sort_key [OF d] NewFSM_def split: option.splits)
  with f(1) assms(2-4) show ?thesis
    by (simp add: NewLocalNode_def lifecycle_rows_def)
qed

text \<open>A local node whose table is well formed and whose state map is the table's summary.\<close>

definition local_ok :: "local_node \<Rightarrow> bool" where
  "local_ok n \<longleftrightarrow> wf_lifecycle (ln_nodeID n) (ldb_lifecycle (ln_db n)) \<and> ldb_path (ln_db n) \<noteq> [] \<and>
     ln_nodeID n \<noteq> [] \<and> ldb_identity (ln_db n) = Inr (ln_nodeID n) \<and>
     (\<forall>sid. summary (ln_fsm n) sid = table_summary (ldb_lifecycle (ln_db n)) sid)"

definition local_step :: "error \<times> state_changed \<Rightarrow> local_node \<Rightarrow> local_node" where
  "local_step i n = snd (applyLocal (fst i) (snd i) n)"

lemma wf_lifecycle_update:
  assumes "wf_lifecycle nodeID tbl" "sc_NodeID e = [] \<or> sc_NodeID e = nodeID"
  shows "wf_lifecycle nodeID (AList.update (sc_StackID e) [CText (Inr e)] tbl)"
proof -
  have "kv \<in> set (AList.update (sc_StackID e) [CText (Inr e)] tbl) \<Longrightarrow>
      kv \<in> set tbl \<or> kv = (sc_StackID e, [CText (Inr e)])" for kv
    by (induction tbl) (auto split: if_splits)
  moreover have "row_ok nodeID (sc_StackID e, [CText (Inr e)])"
    using assms(2) by (auto simp: row_ok_def entry_of_def)
  ultimately show ?thesis
    using assms(1) by (auto simp: wf_lifecycle_def distinct_update list_all_iff)
qed

interpretation local: machine local_step local_ok
proof
  fix i :: "error \<times> state_changed" and n :: local_node
  assume ok: "local_ok n"
  obtain err e where i: "i = (err, e)" by (cases i)
  show "local_ok (local_step i n)"
  proof (cases "(sc_NodeID e \<noteq> [] \<and> sc_NodeID e \<noteq> ln_nodeID n) \<or> err \<noteq> None")
    case True
    then have "local_step i n = n"
      by (auto simp: local_step_def applyLocal_def i split: option.splits)
    with ok show ?thesis by simp
  next
    case False
    then have step: "local_step i n = n\<lparr>ln_db := (ln_db n)\<lparr>ldb_lifecycle :=
        AList.update (sc_StackID e) [CText (Inr e)] (ldb_lifecycle (ln_db n))\<rparr>,
        ln_fsm := fsm_step (Inr e) (ln_fsm n)\<rparr>"
      by (auto simp: local_step_def applyLocal_def i fsm_step_def Let_def split: prod.splits)
    have "summary (fsm_step (Inr e) (ln_fsm n)) sid =
        table_summary (AList.update (sc_StackID e) [CText (Inr e)] (ldb_lifecycle (ln_db n))) sid" for sid
      using ok by (simp add: local_ok_def fsm_step_stacks Let_def table_summary_def entry_of_def)
    with ok False show ?thesis
      by (auto simp: step local_ok_def intro: wf_lifecycle_update)
  qed
qed

section \<open>Claims on the state map and the local node\<close>

text \<open>
  C32. A node that installs a snapshot taken after any prefix of the log and replays the rest of
  the log holds the same stacks as a node that replayed the whole log, whatever state the first
  node had before.
\<close>
theorem snapshot_then_replay:
  "AllStates (runs fsm_step ys (snd (Restore (Inr (Snapshot (runs fsm_step xs f))) g)))
     = AllStates (runs fsm_step (xs @ ys) f)"
  using stack_log.compaction [of ys xs f g] by (simp add: Snapshot_def AllStates_def)

text \<open>
  C37. No log, however it was produced, makes the state map report a lock holder. So the error
  \<open>ErrTransitionInProgress\<close> never reaches a caller that reads the instance from the map before
  it applies an event: such an event is refused as an invalid transition instead.
\<close>
theorem state_map_never_locked:
  "fsm_State (runs fsm_step ds NewFSM) sid = Some inst \<Longrightarrow>
     si_LockedBy inst = [] \<and> Apply now inst ev \<noteq> Inl ErrTransitionInProgress"
  using unlocked.runs_inv [of NewFSM ds]
  by (auto simp: unlocked_map_def NewFSM_def fsm_State_def Apply_def split: option.splits)

theorem state_map_never_locked_witness:
  "Apply 9 \<lparr>si_ID = ''s'', si_State = StateStarting, si_PreviousState = StateOther [],
       si_LockedBy = [], si_UpdatedAt = 3\<rparr> EventStopStack \<noteq> Inl ErrTransitionInProgress"
  using state_map_never_locked [of "[Inr \<lparr>sc_StackID = ''s'', sc_From = StateIdle, sc_To = StateStarting,
      sc_Event = EventStartStack, sc_Timestamp = 3, sc_NodeID = []\<rparr>]" "''s''"
      "\<lparr>si_ID = ''s'', si_State = StateStarting, si_PreviousState = StateOther [],
       si_LockedBy = [], si_UpdatedAt = 3\<rparr>" 9 EventStopStack]
  by (simp add: fsm_State_def fsm_step_stacks NewFSM_def new_instance_def Let_def)

text \<open>
  C33. What a subscriber has read and what waits in its channel is, in log order and without repetition, part of the decodable entries
  applied since it subscribed, whenever it reads. It is all of them when the channel never was full as an entry arrived; otherwise
  entries are missing, possibly in the middle.
\<close>
theorem subscriber_sees_the_log_in_order:
  "let (sid, f\<^sub>0) = Subscribe f; log = decoded (applied evs); entries = seen sid (runs react evs (f\<^sub>0, \<lambda>_. []))
   in subseq entries log \<and> (keeps_up sid 0 evs \<longrightarrow> entries = log)"
proof -
  let ?sid = "fst (Subscribe f)" and ?f = "snd (Subscribe f)"
  have "fsm_subs ?f ?sid = Some []" by (simp add: Subscribe_def)
  from runs_seen [OF this, of evs "\<lambda>_. []"] show ?thesis by (auto simp: Let_def split: prod.split)
qed

definition log_entry :: "int \<Rightarrow> string + state_changed" where
  "log_entry t = Inr \<lparr>sc_StackID = ''s'', sc_From = StateIdle, sc_To = StateStarting, sc_Event = EventStartStack, sc_Timestamp = t, sc_NodeID = []\<rparr>"

definition busy_log :: "fsm_event list" where
  "busy_log = [Applied (log_entry 1), Received 0, Applied (Inl ''bad''), Applied (log_entry 2)]"

theorem subscriber_sees_the_log_in_order_witness:
  "seen 0 (runs react busy_log (snd (Subscribe NewFSM), \<lambda>_. [])) = decoded [log_entry 1, log_entry 2]"
proof -
  have "fst (Subscribe NewFSM) = 0" "keeps_up 0 0 busy_log" "decoded (applied busy_log) = decoded [log_entry 1, log_entry 2]"
    by (simp_all add: Subscribe_def NewFSM_def log_entry_def busy_log_def)
  then show ?thesis using subscriber_sees_the_log_in_order [of NewFSM busy_log] by (simp add: case_prod_beta Let_def)
qed

text \<open>
  C24. A local node that restarts from its table reports for every stack the state and the time of
  the last transition it had acknowledged, after any sequence of transitions, failed writes and
  entries of other nodes.
\<close>
theorem local_restart_restores_states:
  "local_ok n \<Longrightarrow> \<exists>n'. NewLocalNode None None (ln_db (runs local_step is n)) (ln_nodeID (runs local_step is n)) = Inr n' \<and>
     (\<forall>sid. map_option (\<lambda>i. (si_State i, si_UpdatedAt i)) (fsm_State (ln_fsm n') sid) =
            map_option (\<lambda>i. (si_State i, si_UpdatedAt i)) (fsm_State (ln_fsm (runs local_step is n)) sid))"
proof -
  assume "local_ok n"
  then have "local_ok (runs local_step is n)" by (rule local.runs_inv)
  then show ?thesis
    using NewLocalNode_wf [of "ln_nodeID (runs local_step is n)" "ln_db (runs local_step is n)"]
    by (auto simp: local_ok_def fsm_State_def)
qed

abbreviation node_example :: local_node where
  "node_example \<equiv> \<lparr>ln_fsm = NewFSM, ln_db = \<lparr>ldb_path = ''/db'', ldb_identity = Inr ''a'', ldb_lifecycle = []\<rparr>, ln_nodeID = ''a''\<rparr>"

theorem local_restart_restores_states_witness:
  "\<exists>n'. NewLocalNode None None (ln_db (runs local_step [(None, \<lparr>sc_StackID = ''s'', sc_From = StateIdle,
       sc_To = StateStarting, sc_Event = EventStartStack, sc_Timestamp = 3, sc_NodeID = ''a''\<rparr>)] node_example)) ''a'' = Inr n' \<and>
     map_option si_State (fsm_State (ln_fsm n') ''s'') = Some StateStarting"
proof -
  let ?is = "[(None, \<lparr>sc_StackID = ''s'', sc_From = StateIdle, sc_To = StateStarting,
       sc_Event = EventStartStack, sc_Timestamp = 3, sc_NodeID = ''a''\<rparr>)]"
  have "local_ok node_example"
    by (simp add: local_ok_def wf_lifecycle_def NewFSM_def table_summary_def)
  from local_restart_restores_states [OF this, of ?is]
  show ?thesis
    by (auto simp: local_step_def applyLocal_def fsm_Apply_def fanOut_def fsm_State_def NewFSM_def Let_def
        new_instance_def dest!: spec [of _ "''s''"])
qed

end
