(* ===== verification/Snapshot_Names.thy ===== *)
theory Snapshot_Names
  imports Prelude
begin

text \<open>
  Snapshot names: the six-character timestamp of automated snapshots (\<open>pkg/store/timestamp.go\<close>)
  and the classification of names (\<open>pkg/store/snapshot.go\<close>).

  A \<open>time.Time\<close> is its number of nanoseconds since the Unix epoch. \<open>int64\<close> ticks stay below
  \<open>2 ^ 30\<close>, so they are \<open>int\<close>, with \<open>& 31\<close> and \<open>>> 5\<close> as \<open>mod 32\<close> and \<open>div 32\<close>. Strings that the
  code walks rune by rune (\<open>DecodeSnapshotTimestamp\<close>) are lists of code points; the others are
  lists of bytes.
\<close>

section \<open>Time\<close>

type_synonym time = int
type_synonym rune = nat

abbreviation second :: int where "second \<equiv> 1000000000"

definition Unix :: "time \<Rightarrow> int" where
  "Unix t = t div second"

definition time_Unix :: "int \<Rightarrow> time" where
  "time_Unix s = s * second"

section \<open>Timestamps\<close>

definition snapshotAlphabet :: string where
  "snapshotAlphabet = ''0123456789ABCDEFGHJKMNPQRSTVWXYZ''"

definition snapshotEpoch :: int where
  "snapshotEpoch = 1735689600"

definition snapshotTicks :: int where
  "snapshotTicks = 2 ^ 30"

fun encode_loop :: "nat \<Rightarrow> int \<Rightarrow> string \<Rightarrow> string" where
  "encode_loop 0 tick out = out"
| "encode_loop (Suc i) tick out =
     encode_loop i (tick div 32) (snapshotAlphabet ! nat (tick mod 32) # out)"

definition EncodeSnapshotTimestamp :: "time \<Rightarrow> string + string" where
  "EncodeSnapshotTimestamp t =
     (if t < time_Unix snapshotEpoch \<or> \<not> t < time_Unix (snapshotEpoch + snapshotTicks * 3)
      then Inl ''snapshot timestamp outside RFD-0008 range''
      else let seconds = Unix t - snapshotEpoch; tick = seconds div 3
        in Inr (encode_loop 6 tick []))"

text \<open>
  The number of bytes of a rune in UTF-8, and \<open>unicode.ToUpper\<close> as far as the alphabet can see:
  two non-ASCII letters (dotless i and long s) have an ASCII upper case; every other non-ASCII
  rune has an upper case outside ASCII, so outside the alphabet like the rune itself.
\<close>

definition rune_len :: "rune \<Rightarrow> nat" where
  "rune_len r = (if r < 128 then 1 else if r < 2048 then 2 else if r < 65536 then 3 else 4)"

definition to_upper :: "rune \<Rightarrow> rune" where
  "to_upper r = (if 97 \<le> r \<and> r \<le> 122 then r - 32
     else if r = 305 then 73 else if r = 383 then 83 else r)"

definition fold_letter :: "rune \<Rightarrow> rune" where
  "fold_letter c = (if c = of_char CHR ''O'' then of_char CHR ''0''
     else if c = of_char CHR ''I'' \<or> c = of_char CHR ''L'' then of_char CHR ''1'' else c)"

fun IndexRune :: "string \<Rightarrow> rune \<Rightarrow> nat option" where
  "IndexRune [] c = None"
| "IndexRune (a # as) c = (if of_char a = c then Some 0 else map_option Suc (IndexRune as c))"

fun decode_loop :: "rune list \<Rightarrow> int \<Rightarrow> string + int" where
  "decode_loop [] tick = Inr tick"
| "decode_loop (c # cs) tick = (case IndexRune snapshotAlphabet (fold_letter c) of
     None \<Rightarrow> Inl ''invalid snapshot timestamp character''
   | Some n \<Rightarrow> decode_loop cs (tick * 32 + int n))"

definition DecodeSnapshotTimestamp :: "rune list \<Rightarrow> string + time" where
  "DecodeSnapshotTimestamp s =
     (if sum_list (map rune_len s) \<noteq> 6 then Inl ''snapshot timestamp must have six characters''
      else case decode_loop (map to_upper s) 0 of
        Inl e \<Rightarrow> Inl e
      | Inr tick \<Rightarrow> Inr (time_Unix (snapshotEpoch + tick * 3)))"

definition AutomatedSnapshotName :: "time \<Rightarrow> string + string" where
  "AutomatedSnapshotName t = (case EncodeSnapshotTimestamp t of
     Inl e \<Rightarrow> Inl e | Inr stamp \<Rightarrow> Inr (''fl-'' @ stamp))"

definition HasPrefix :: "string \<Rightarrow> string \<Rightarrow> bool" where
  "HasPrefix s p \<longleftrightarrow> take (length p) s = p"

definition HasSuffix :: "string \<Rightarrow> string \<Rightarrow> bool" where
  "HasSuffix s p \<longleftrightarrow> length p \<le> length s \<and> drop (length s - length p) s = p"

definition IsAutomatedSnapshot :: "string \<Rightarrow> bool" where
  "IsAutomatedSnapshot name \<longleftrightarrow> length name = 9 \<and> HasPrefix name ''fl-'' \<and>
     list_all (\<lambda>c. c \<in> set snapshotAlphabet) (drop 3 name)"

section \<open>Classification\<close>

datatype snapshot_type = SnapshotTypeUser | SnapshotTypeScheduled | SnapshotTypeReplication

definition PrefixUser :: string where "PrefixUser = ''user''"
definition PrefixScheduled :: string where "PrefixScheduled = ''flsnap''"
definition PrefixReplication :: string where "PrefixReplication = ''fsrepl''"

definition ClassifySnapshot :: "string \<Rightarrow> snapshot_type" where
  "ClassifySnapshot name =
     (if IsAutomatedSnapshot name then SnapshotTypeScheduled
      else if HasPrefix name (PrefixUser @ ''-'') then SnapshotTypeUser
      else if HasPrefix name (PrefixScheduled @ ''-'') then SnapshotTypeScheduled
      else if HasPrefix name (PrefixReplication @ ''-'') then SnapshotTypeReplication
      else SnapshotTypeUser)"

text \<open>\<open>time.Now().UTC().Format\<close> is the argument \<open>stamp\<close>.\<close>

definition UserSnapshotName :: "string \<Rightarrow> string \<Rightarrow> string" where
  "UserSnapshotName stamp label = PrefixUser @ ''-'' @ stamp @ ''-'' @ label"

definition DatasetPath :: "string \<Rightarrow> string \<Rightarrow> string" where
  "DatasetPath pool stackName = pool @ ''/'' @ stackName"

definition VolumeDatasetPath :: "string \<Rightarrow> string \<Rightarrow> string \<Rightarrow> string \<Rightarrow> string" where
  "VolumeDatasetPath pool stackName service volume =
     pool @ ''/'' @ stackName @ ''/'' @ service @ ''/'' @ volume"

section \<open>The alphabet\<close>

lemma alphabet_length [simp]: "length snapshotAlphabet = 32"
  by (simp add: snapshotAlphabet_def)

lemma alphabet_distinct: "distinct snapshotAlphabet"
  by (simp add: snapshotAlphabet_def)

lemma alphabet_sorted: "sorted_wrt (<) (map of_char snapshotAlphabet :: nat list)"
  by (simp add: snapshotAlphabet_def)

lemma IndexRune_nth: "distinct xs \<Longrightarrow> i < length xs \<Longrightarrow> IndexRune xs (of_char (xs ! i)) = Some i"
proof (induction xs arbitrary: i)
  case Nil
  then show ?case by simp
next
  case (Cons x xs)
  then show ?case by (cases i) (auto simp: nth_eq_iff_index_eq)
qed

lemma alphabet_fixed:
  "c \<in> set snapshotAlphabet \<Longrightarrow>
     fold_letter (of_char c) = of_char c \<and> to_upper (of_char c) = of_char c \<and> rune_len (of_char c) = 1"
  by (auto simp: snapshotAlphabet_def fold_letter_def to_upper_def rune_len_def)

lemma alphabet_nth_in: "i < 32 \<Longrightarrow> snapshotAlphabet ! i \<in> set snapshotAlphabet"
  by (simp add: nth_mem)

section \<open>Digits\<close>

text \<open>\<open>digit_loop i tick\<close> is the list of the \<open>i\<close> low base-32 digits of \<open>tick\<close>, most significant first.\<close>

fun digit_loop :: "nat \<Rightarrow> int \<Rightarrow> nat list" where
  "digit_loop 0 tick = []"
| "digit_loop (Suc i) tick = digit_loop i (tick div 32) @ [nat (tick mod 32)]"

lemma encode_loop_digits:
  "encode_loop i tick out = map (\<lambda>d. snapshotAlphabet ! d) (digit_loop i tick) @ out"
  by (induction i arbitrary: tick out) auto

lemma digit_loop_bound: "d \<in> set (digit_loop i tick) \<Longrightarrow> d < 32"
  by (induction i arbitrary: tick) auto

lemma length_digit_loop [simp]: "length (digit_loop i tick) = i"
  by (induction i arbitrary: tick) auto

lemma length_encode_loop: "length (encode_loop i tick []) = i"
  by (simp add: encode_loop_digits)

lemma decode_digits:
  "(\<And>d. d \<in> set ds \<Longrightarrow> d < 32) \<Longrightarrow>
     decode_loop (map (\<lambda>d. of_char (snapshotAlphabet ! d)) ds) acc = Inr (fold (\<lambda>d a. a * 32 + int d) ds acc)"
proof (induction ds arbitrary: acc)
  case Nil
  then show ?case by simp
next
  case (Cons d ds)
  then have "d < 32" by simp
  then have "IndexRune snapshotAlphabet (fold_letter (of_char (snapshotAlphabet ! d))) = Some d"
    using alphabet_fixed [OF alphabet_nth_in] IndexRune_nth [OF alphabet_distinct, of d] by simp
  with Cons show ?case by simp
qed

lemma fold_digits: "fold (\<lambda>d a. a * 32 + int d) (digit_loop i tick) acc = acc * 32 ^ i + tick mod 32 ^ i"
proof (induction i arbitrary: tick)
  case 0
  then show ?case by simp
next
  case (Suc i)
  have "tick mod 32 ^ Suc i = 32 * (tick div 32 mod 32 ^ i) + tick mod 32"
    by (simp add: zmod_zmult2_eq)
  then show ?case using Suc by (simp add: algebra_simps)
qed

definition in_range :: "time \<Rightarrow> bool" where
  "in_range t \<longleftrightarrow> time_Unix snapshotEpoch \<le> t \<and> t < time_Unix (snapshotEpoch + snapshotTicks * 3)"

definition tick_of :: "time \<Rightarrow> int" where
  "tick_of t = (Unix t - snapshotEpoch) div 3"

lemma tick_of_bounds: "in_range t \<Longrightarrow> 0 \<le> tick_of t \<and> tick_of t < 32 ^ 6"
proof -
  assume "in_range t"
  then have t: "1735689600000000000 \<le> t" "t < 4956915072000000000"
    by (simp_all add: in_range_def time_Unix_def snapshotEpoch_def snapshotTicks_def)
  have "1735689600 \<le> Unix t" using zdiv_mono1 [OF t(1), of second] by (simp add: Unix_def)
  moreover have "Unix t < 4956915072"
    using t(2) unfolding Unix_def by linarith
  ultimately show ?thesis
    unfolding tick_of_def snapshotEpoch_def by (simp, intro conjI; linarith)
qed

lemma Encode_in_range: "in_range t \<Longrightarrow> EncodeSnapshotTimestamp t = Inr (encode_loop 6 (tick_of t) [])"
  by (auto simp: in_range_def EncodeSnapshotTimestamp_def tick_of_def Let_def)

lemma Encode_Inr_iff: "EncodeSnapshotTimestamp t = Inr s \<longleftrightarrow> in_range t \<and> s = encode_loop 6 (tick_of t) []"
  by (auto simp: in_range_def EncodeSnapshotTimestamp_def tick_of_def Let_def)

lemma encode_loop_alphabet: "c \<in> set (encode_loop i tick []) \<Longrightarrow> c \<in> set snapshotAlphabet"
  by (auto simp: encode_loop_digits intro: alphabet_nth_in dest: digit_loop_bound)

lemma decode_encode_loop:
  assumes "0 \<le> tick" "tick < 32 ^ 6"
  shows "DecodeSnapshotTimestamp (map of_char (encode_loop 6 tick [])) = Inr (time_Unix (snapshotEpoch + tick * 3))"
proof -
  let ?s = "map of_char (encode_loop 6 tick []) :: rune list"
  have fixed: "to_upper r = r \<and> rune_len r = 1" if "r \<in> set ?s" for r
    using that alphabet_fixed encode_loop_alphabet by fastforce
  then have up: "map to_upper ?s = ?s" by (intro map_idI) blast
  have "map rune_len ?s = replicate 6 1"
    using fixed by (intro replicate_eqI) (auto simp: length_encode_loop)
  then have len: "sum_list (map rune_len ?s) = 6"
    by (simp add: sum_list_replicate)
  have "?s = map (\<lambda>d. of_char (snapshotAlphabet ! d)) (digit_loop 6 tick)"
    by (simp add: encode_loop_digits)
  then have "decode_loop ?s 0 = Inr (tick mod 32 ^ 6)"
    using decode_digits [of "digit_loop 6 tick" 0] by (simp add: digit_loop_bound fold_digits)
  then have "decode_loop ?s 0 = Inr tick" using assms by simp
  then show ?thesis unfolding DecodeSnapshotTimestamp_def up len by simp
qed

section \<open>Order\<close>

lemma less_append: "xs < ys \<Longrightarrow> length xs = length ys \<Longrightarrow> xs @ us < ys @ vs"
  for xs ys :: "'a :: order list"
  by (auto simp: list_less_def intro: lexord_sufI)

lemma append_less: "us < vs \<Longrightarrow> xs @ us < xs @ vs"
  for xs us :: "'a :: order list"
  by (auto simp: list_less_def intro: lexord_append_leftI)

lemma alphabet_mono: "d < e \<Longrightarrow> e < 32 \<Longrightarrow> snapshotAlphabet ! d < snapshotAlphabet ! e"
  using sorted_wrt_nth_less [OF alphabet_sorted, of d e] by (simp add: less_char_def)

lemma encode_loop_Suc:
  "encode_loop (Suc i) tick [] = encode_loop i (tick div 32) [] @ [snapshotAlphabet ! nat (tick mod 32)]"
  by (simp add: encode_loop_digits)

lemma encode_loop_strict_mono:
  "0 \<le> x \<Longrightarrow> x < y \<Longrightarrow> y < 32 ^ i \<Longrightarrow> encode_loop i x [] < encode_loop i y []"
proof (induction i arbitrary: x y)
  case 0
  then show ?case by simp
next
  case (Suc i)
  have bound: "y div 32 < 32 ^ i" using Suc.prems(3) by simp
  show ?case
  proof (cases "x div 32 = y div 32")
    case True
    then have "x mod 32 < y mod 32"
      using Suc.prems(2) mult_div_mod_eq [of 32 x] mult_div_mod_eq [of 32 y] by linarith
    then have "snapshotAlphabet ! nat (x mod 32) < snapshotAlphabet ! nat (y mod 32)"
      by (intro alphabet_mono) auto
    then show ?thesis unfolding encode_loop_Suc True by (intro append_less) simp
  next
    case False
    then have "x div 32 < y div 32" using Suc.prems(2) zdiv_mono1 [of x y 32] by simp
    then have "encode_loop i (x div 32) [] < encode_loop i (y div 32) []"
      using Suc.IH [of "x div 32" "y div 32"] Suc.prems(1) bound by simp
    then show ?thesis unfolding encode_loop_Suc by (intro less_append) (simp_all add: length_encode_loop)
  qed
qed

lemma tick_of_interval:
  "time_Unix (snapshotEpoch + tick_of t * 3) \<le> t \<and> t < time_Unix (snapshotEpoch + tick_of t * 3) + 3 * second"
proof -
  have "Unix t * second \<le> t \<and> t < Unix t * second + second"
    using mult_div_mod_eq [of second t] pos_mod_bound [of second t] pos_mod_sign [of second t]
    unfolding Unix_def by linarith
  moreover have "tick_of t * 3 \<le> Unix t - snapshotEpoch \<and> Unix t - snapshotEpoch \<le> tick_of t * 3 + 2"
    unfolding tick_of_def by linarith
  ultimately show ?thesis unfolding time_Unix_def by auto
qed

lemma six_steps: "(6 :: nat) = Suc (Suc (Suc (Suc (Suc (Suc 0)))))"
  by simp

lemma name_example: "AutomatedSnapshotName 1735689600000000000 = Inr ''fl-000000''"
  "AutomatedSnapshotName 1735689603000000000 = Inr ''fl-000001''"
  by (simp_all add: AutomatedSnapshotName_def EncodeSnapshotTimestamp_def time_Unix_def Unix_def
      snapshotEpoch_def snapshotTicks_def snapshotAlphabet_def six_steps)

section \<open>Claims\<close>

text \<open>
  C23. Every time in the RFD-0008 range has a six-character timestamp, and decoding it gives back
  the beginning of its three-second interval: nothing is lost but the position within the
  interval.
\<close>
theorem timestamp_roundtrip:
  "in_range t \<Longrightarrow> \<exists>s. EncodeSnapshotTimestamp t = Inr s \<and> length s = 6 \<and>
     (\<exists>d. DecodeSnapshotTimestamp (map of_char s) = Inr d \<and> d \<le> t \<and> t < d + 3 * second)"
proof -
  assume r: "in_range t"
  have "time_Unix (snapshotEpoch + tick_of t * 3) \<le> t \<and> t < time_Unix (snapshotEpoch + tick_of t * 3) + 3 * second"
    using tick_of_interval .
  with r show ?thesis
    using decode_encode_loop [of "tick_of t"] tick_of_bounds [OF r]
    by (auto simp: Encode_in_range length_encode_loop)
qed

theorem timestamp_roundtrip_witness:
  "\<exists>s. EncodeSnapshotTimestamp 1767225600000000000 = Inr s \<and> length s = 6 \<and>
     (\<exists>d. DecodeSnapshotTimestamp (map of_char s) = Inr d \<and> d \<le> 1767225600000000000 \<and> 1767225600000000000 < d + 3 * second)"
  by (rule timestamp_roundtrip) (simp add: in_range_def time_Unix_def snapshotEpoch_def snapshotTicks_def)

text \<open>
  The names of automated snapshots sort like their times: of two times in range, the later
  interval has the greater name, and times of the same three-second interval share their name.
\<close>
theorem names_sort_by_time:
  "AutomatedSnapshotName t = Inr n \<Longrightarrow> AutomatedSnapshotName u = Inr m \<Longrightarrow>
     (n < m \<longleftrightarrow> tick_of t < tick_of u) \<and> (n = m \<longleftrightarrow> tick_of t = tick_of u)"
proof -
  assume "AutomatedSnapshotName t = Inr n" and "AutomatedSnapshotName u = Inr m"
  then have t: "in_range t" "n = ''fl-'' @ encode_loop 6 (tick_of t) []"
    and u: "in_range u" "m = ''fl-'' @ encode_loop 6 (tick_of u) []"
    by (auto simp: AutomatedSnapshotName_def Encode_Inr_iff split: sum.splits)
  define f where "f x = ''fl-'' @ encode_loop 6 x []" for x
  have less: "f (tick_of a) < f (tick_of b)" if "in_range a" "in_range b" "tick_of a < tick_of b" for a b
    unfolding f_def using that tick_of_bounds by (intro append_less encode_loop_strict_mono) auto
  have "n = f (tick_of t)" "m = f (tick_of u)" using t(2) u(2) by (simp_all add: f_def)
  then show ?thesis
    using less [OF t(1) u(1)] less [OF u(1) t(1)]
    by (metis less_irrefl less_asym linorder_less_linear)
qed

theorem names_sort_by_time_witness:
  "''fl-000000'' < (''fl-000001'' :: string)"
proof -
  have "tick_of 1735689600000000000 < tick_of 1735689603000000000"
    by (simp add: tick_of_def Unix_def snapshotEpoch_def)
  then show ?thesis by (rule names_sort_by_time [OF name_example, THEN conjunct1, THEN iffD2])
qed

text \<open>
  Every name that automated snapshots get is recognised by \<open>IsAutomatedSnapshot\<close>, is
  classified as scheduled, and no user snapshot name is ever recognised, so automatic pruning
  sees exactly the names the program generated itself.
\<close>
theorem automated_names_recognised:
  "(AutomatedSnapshotName t = Inr n \<longrightarrow> IsAutomatedSnapshot n \<and> ClassifySnapshot n = SnapshotTypeScheduled) \<and>
   \<not> IsAutomatedSnapshot (UserSnapshotName stamp label) \<and>
   ClassifySnapshot (UserSnapshotName stamp label) = SnapshotTypeUser"
  by (auto simp: AutomatedSnapshotName_def Encode_Inr_iff IsAutomatedSnapshot_def HasPrefix_def
      ClassifySnapshot_def UserSnapshotName_def PrefixUser_def length_encode_loop list_all_iff
      encode_loop_alphabet split: sum.splits)

theorem automated_names_recognised_witness:
  "IsAutomatedSnapshot ''fl-000001''"
  using automated_names_recognised [of 1735689603000000000 "''fl-000001''"] name_example(2) by blast

text \<open>
  The length check of \<open>DecodeSnapshotTimestamp\<close> counts bytes while its loop counts
  characters: a five-character text with a dotless i is accepted as a timestamp, against the
  message "must have six characters".
\<close>
theorem decode_accepts_five_characters:
  "length [305, 48, 48, 48, 49 :: rune] = 5 \<and>
   DecodeSnapshotTimestamp [305, 48, 48, 48, 49] = Inr (time_Unix (snapshotEpoch + 1048577 * 3))"
  by (simp add: DecodeSnapshotTimestamp_def rune_len_def to_upper_def fold_letter_def snapshotAlphabet_def)

end
