(* ===== verification/Retention.thy ===== *)
theory Retention
  imports Snapshot_Names "HOL-Library.Product_Lexorder"
begin

text \<open>
  Snapshot policies (\<open>pkg/store/policy.go\<close>): parsing a policy into retention tiers, the calendar
  buckets that decide when a snapshot is due and which snapshots a tier keeps, the cutoff of a
  tier's window, and the selection of the retained snapshots.

  What the source uses of package \<open>time\<close> is modelled on nanoseconds since the Unix epoch with the
  proleptic Gregorian calendar: \<open>Year\<close>, \<open>Month\<close> and \<open>Day\<close> of a time, \<open>time.Date\<close> and \<open>AddDate\<close>
  with their normalisation, \<open>Truncate(time.Minute)\<close>. A policy is a list of code points, since
  \<open>strings.Fields\<close> splits at Unicode white space. The text of a snapshot's creation time is
  modelled by what \<open>time.Parse\<close> makes of it.
\<close>

section \<open>The calendar\<close>

abbreviation day_ns :: int where "day_ns \<equiv> 86400000000000"

text \<open>Days from 0001-01-01 to the first of January of year \<open>y\<close>.\<close>

definition year_start :: "int \<Rightarrow> int" where
  "year_start y = 365 * (y - 1) + (y - 1) div 4 - (y - 1) div 100 + (y - 1) div 400"

definition leap :: "int \<Rightarrow> bool" where
  "leap y \<longleftrightarrow> y mod 4 = 0 \<and> (y mod 100 \<noteq> 0 \<or> y mod 400 = 0)"

definition year_of :: "int \<Rightarrow> int" where
  "year_of n = (let q = 400 * n div 146097 in if year_start (q + 2) \<le> n then q + 2 else q + 1)"

definition month_start :: "bool \<Rightarrow> int \<Rightarrow> int" where
  "month_start lp m = (let l = (if lp then 1 else 0) in
     if m \<le> 1 then 0 else if m = 2 then 31 else if m = 3 then 59 + l else if m = 4 then 90 + l
     else if m = 5 then 120 + l else if m = 6 then 151 + l else if m = 7 then 181 + l
     else if m = 8 then 212 + l else if m = 9 then 243 + l else if m = 10 then 273 + l
     else if m = 11 then 304 + l else if m = 12 then 334 + l else 365 + l)"

definition month_of :: "bool \<Rightarrow> int \<Rightarrow> int" where
  "month_of lp doy = (if doy < month_start lp 2 then 1 else if doy < month_start lp 3 then 2
     else if doy < month_start lp 4 then 3 else if doy < month_start lp 5 then 4
     else if doy < month_start lp 6 then 5 else if doy < month_start lp 7 then 6
     else if doy < month_start lp 8 then 7 else if doy < month_start lp 9 then 8
     else if doy < month_start lp 10 then 9 else if doy < month_start lp 11 then 10
     else if doy < month_start lp 12 then 11 else 12)"

text \<open>The day number (from 0001-01-01) of a time and its place within the day.\<close>

definition day_number :: "time \<Rightarrow> int" where
  "day_number t = t div day_ns + 719162"

definition clock_of :: "time \<Rightarrow> int" where
  "clock_of t = t mod day_ns"

definition Year :: "time \<Rightarrow> int" where
  "Year t = year_of (day_number t)"

definition Month :: "time \<Rightarrow> int" where
  "Month t = month_of (leap (Year t)) (day_number t - year_start (Year t))"

definition Day :: "time \<Rightarrow> int" where
  "Day t = day_number t - year_start (Year t) - month_start (leap (Year t)) (Month t) + 1"

text \<open>\<open>time.Date\<close> (with the time of day given as nanoseconds) and \<open>AddDate\<close>.\<close>

definition time_Date :: "int \<Rightarrow> int \<Rightarrow> int \<Rightarrow> int \<Rightarrow> time" where
  "time_Date y m d clock =
     (let y' = y + (m - 1) div 12; m' = (m - 1) mod 12 + 1
      in (year_start y' + month_start (leap y') m' + (d - 1) - 719162) * day_ns + clock)"

definition AddDate :: "time \<Rightarrow> int \<Rightarrow> int \<Rightarrow> int \<Rightarrow> time" where
  "AddDate t years months days =
     time_Date (Year t + years) (Month t + months) (Day t + days) (clock_of t)"

definition Truncate_minute :: "time \<Rightarrow> time" where
  "Truncate_minute t = t - t mod (60 * second)"

section \<open>Parsing policies\<close>

record retention_tier =
  rt_Interval :: string
  rt_Retain :: int

definition is_space :: "rune \<Rightarrow> bool" where
  "is_space r \<longleftrightarrow> 9 \<le> r \<and> r \<le> 13 \<or> r \<in> {32, 133, 160, 5760, 8232, 8233, 8239, 8287, 12288} \<or> 8192 \<le> r \<and> r \<le> 8202"

fun Fields_from :: "rune list \<Rightarrow> rune list \<Rightarrow> rune list list" where
  "Fields_from cur [] = (if cur = [] then [] else [cur])"
| "Fields_from cur (r # rs) =
     (if is_space r then (if cur = [] then Fields_from [] rs else cur # Fields_from [] rs)
      else Fields_from (cur @ [r]) rs)"

definition Fields :: "rune list \<Rightarrow> rune list list" where
  "Fields s = Fields_from [] s"

definition is_digit :: "char \<Rightarrow> bool" where
  "is_digit c \<longleftrightarrow> c \<in> set ''0123456789''"

text \<open>\<open>[1-9][0-9]*\<close>\<close>

definition positive_digits :: "string \<Rightarrow> bool" where
  "positive_digits s \<longleftrightarrow> s \<noteq> [] \<and> hd s \<noteq> CHR ''0'' \<and> list_all is_digit s"

definition units :: "string list" where
  "units = [''mo'', ''m'', ''h'', ''d'', ''w'', ''y'']"

text \<open>
  The two regular expressions. A token is split at its leading digits, and after the unit at the
  slash; both splits are forced, since no unit starts with a digit or contains a slash.
\<close>

definition ascii :: "rune list \<Rightarrow> string option" where
  "ascii tok = (if list_all (\<lambda>r. r < 128) tok then Some (map char_of tok) else None)"

definition policyToken :: "rune list \<Rightarrow> (string \<times> string \<times> string) option" where
  "policyToken tok = (case ascii tok of None \<Rightarrow> None | Some s \<Rightarrow>
     (let count = takeWhile is_digit s; rest = dropWhile is_digit s;
          unit = takeWhile (\<lambda>c. c \<noteq> CHR ''/'') rest; tl = dropWhile (\<lambda>c. c \<noteq> CHR ''/'') rest
      in if (count = [] \<or> positive_digits count) \<and> unit \<in> set units \<and> tl \<noteq> [] \<and> positive_digits (drop 1 tl)
         then Some (count, unit, drop 1 tl) else None))"

definition policyInterval :: "string \<Rightarrow> (string \<times> string) option" where
  "policyInterval s =
     (let count = takeWhile is_digit s; unit = dropWhile is_digit s
      in if positive_digits count \<and> unit \<in> set units then Some (count, unit) else None)"

definition digit_value :: "char \<Rightarrow> int" where
  "digit_value c = int (of_char c) - 48"

definition MaxInt :: int where
  "MaxInt = 2 ^ 63 - 1"

definition Atoi :: "string \<Rightarrow> string + int" where
  "Atoi s = (let v = fold (\<lambda>c a. a * 10 + digit_value c) s 0
     in if MaxInt < v then Inl ''value out of range'' else Inr v)"

definition intervalParts :: "string \<Rightarrow> string + (int \<times> string)" where
  "intervalParts interval = (case policyInterval interval of
     None \<Rightarrow> Inl (''invalid snapshot interval '' @ interval)
   | Some (c, unit) \<Rightarrow> (case Atoi c of Inl e \<Rightarrow> Inl e | Inr count \<Rightarrow> Inr (count, unit)))"

text \<open>Go's division and remainder truncate towards zero.\<close>

definition go_div :: "int \<Rightarrow> int \<Rightarrow> int" where
  "go_div n d = sgn n * sgn d * (\<bar>n\<bar> div \<bar>d\<bar>)"

definition go_rem :: "int \<Rightarrow> int \<Rightarrow> int" where
  "go_rem n d = n - d * go_div n d"

definition floorDiv :: "int \<Rightarrow> int \<Rightarrow> int" where
  "floorDiv n d = (let q = go_div n d in if go_rem n d < 0 then q - 1 else q)"

definition intervalBucket :: "time \<Rightarrow> int \<Rightarrow> string \<Rightarrow> int" where
  "intervalBucket t count unit =
     (if unit = ''m'' then floorDiv (floorDiv (Unix t) 60) count
      else if unit = ''h'' then floorDiv (floorDiv (Unix t) 3600) count
      else if unit = ''d'' then floorDiv (floorDiv (Unix t) 86400) count
      else if unit = ''w'' then floorDiv (floorDiv (Unix t - 4 * 86400) (7 * 86400)) count
      else if unit = ''mo'' then floorDiv (Year t * 12 + Month t - 1) count
      else if unit = ''y'' then floorDiv (Year t) count
      else 0)"

definition SnapshotDue :: "time \<Rightarrow> string \<Rightarrow> bool" where
  "SnapshotDue now interval = (case intervalParts interval of Inl _ \<Rightarrow> False
     | Inr (count, unit) \<Rightarrow>
         (let now = Truncate_minute now
          in intervalBucket now count unit \<noteq> intervalBucket (now - 60 * second) count unit))"

definition unit_seconds :: "string \<Rightarrow> int option" where
  "unit_seconds = [''m'' \<mapsto> 60, ''h'' \<mapsto> 3600, ''d'' \<mapsto> 86400, ''w'' \<mapsto> 7 * 86400]"

definition retentionCutoff :: "time \<Rightarrow> retention_tier \<Rightarrow> string + time" where
  "retentionCutoff now tier = (case intervalParts (rt_Interval tier) of Inl e \<Rightarrow> Inl e
     | Inr (count, unit) \<Rightarrow>
        if rt_Retain tier < 1 \<or> go_div MaxInt count < rt_Retain tier then Inl ''invalid snapshot retention''
        else let span = count * rt_Retain tier in
          (case unit_seconds unit of
             Some scale \<Rightarrow>
               if go_div (go_div MaxInt second) scale < span then Inl ''snapshot retention duration overflows''
               else Inr (now - span * scale * second)
           | None \<Rightarrow>
               if unit = ''y'' \<and> 9999 < span then Inl ''snapshot retention exceeds calendar range''
               else let months = (if unit = ''y'' then span * 12 else span) in
                 if 9999 * 12 < months then Inl ''snapshot retention exceeds calendar range''
                 else let monthStart = AddDate (time_Date (Year now) (Month now) 1 (clock_of now)) 0 (- months) 0;
                          last = Day (AddDate (AddDate monthStart 0 1 0) 0 0 (-1));
                          day = (if last < Day now then last else Day now)
                      in Inr (AddDate monthStart 0 0 (day - 1))))"

text \<open>\<open>time.Now()\<close> at each token's check is the argument \<open>now\<close>: the check does not depend on it.\<close>

fun parse_tokens :: "time \<Rightarrow> string list \<Rightarrow> rune list list \<Rightarrow> retention_tier list \<Rightarrow> string + retention_tier list" where
  "parse_tokens now seen [] tiers = Inr tiers"
| "parse_tokens now seen (token # tokens) tiers = (case policyToken token of
     None \<Rightarrow> Inl ''invalid or duplicate snapshot tier''
   | Some (c, unit, r) \<Rightarrow>
       if unit \<in> set seen then Inl ''invalid or duplicate snapshot tier''
       else let countText = (if c = [] then ''1'' else c) in
         (case Atoi countText of Inl e \<Rightarrow> Inl ''invalid snapshot interval''
          | Inr count \<Rightarrow>
            (case Atoi r of Inl e \<Rightarrow> Inl ''snapshot retention overflows''
             | Inr retain \<Rightarrow>
                 if go_div MaxInt count < retain then Inl ''snapshot retention overflows''
                 else let tier = \<lparr>rt_Interval = countText @ unit, rt_Retain = retain\<rparr> in
                   (case retentionCutoff now tier of Inl e \<Rightarrow> Inl e
                    | Inr _ \<Rightarrow> parse_tokens now (unit # seen) tokens (tiers @ [tier])))))"

definition ParseSnapshotPolicy :: "time \<Rightarrow> rune list \<Rightarrow> string + retention_tier list" where
  "ParseSnapshotPolicy now policy = parse_tokens now [] (Fields policy) []"

section \<open>Selecting snapshots\<close>

record snapshot_info =
  sn_Name :: string
  sn_Dataset :: string
  sn_CreatedAt :: "string + time"

record point =
  pt_snapshot :: snapshot_info
  pt_created :: time

abbreviation pt_dataset :: "point \<Rightarrow> string" where "pt_dataset p \<equiv> sn_Dataset (pt_snapshot p)"
abbreviation pt_name :: "point \<Rightarrow> string" where "pt_name p \<equiv> sn_Name (pt_snapshot p)"

definition key :: "point \<Rightarrow> string" where
  "key p = pt_dataset p @ ''@'' @ pt_name p"

fun collect_points :: "snapshot_info list \<Rightarrow> string + point list" where
  "collect_points [] = Inr []"
| "collect_points (snap # snaps) =
     (if \<not> IsAutomatedSnapshot (sn_Name snap) then collect_points snaps
      else case sn_CreatedAt snap of
        Inl e \<Rightarrow> Inl (''snapshot '' @ sn_Dataset snap @ ''@'' @ sn_Name snap @ '' creation time: '' @ e)
      | Inr created \<Rightarrow> (case collect_points snaps of Inl e \<Rightarrow> Inl e
          | Inr ps \<Rightarrow> Inr (\<lparr>pt_snapshot = snap, pt_created = created\<rparr> # ps)))"

definition sort_points :: "point list \<Rightarrow> point list" where
  "sort_points = sort_key (\<lambda>p. (pt_created p, pt_name p))"

text \<open>The keys kept as futures, and the latest point of each dataset.\<close>

definition future_keys :: "time \<Rightarrow> point list \<Rightarrow> string list" where
  "future_keys now points = map key (filter (\<lambda>p. now < pt_created p) points)"

definition latest :: "point list \<Rightarrow> string \<rightharpoonup> point" where
  "latest points = fold (\<lambda>p m. m(pt_dataset p \<mapsto> p)) points Map.empty"

definition latest_keys :: "point list \<Rightarrow> string list" where
  "latest_keys points = List.map_filter (\<lambda>p. map_option key (latest points (pt_dataset p))) points"

fun tier_keys :: "time \<Rightarrow> time \<Rightarrow> int \<Rightarrow> string \<Rightarrow> (string \<times> int) list \<Rightarrow> point list \<Rightarrow> string list" where
  "tier_keys now cutoff count unit seen [] = []"
| "tier_keys now cutoff count unit seen (p # ps) =
     (if \<not> cutoff < pt_created p \<or> now < pt_created p then tier_keys now cutoff count unit seen ps
      else let b = (pt_dataset p, intervalBucket (pt_created p) count unit) in
        if b \<notin> set seen then key p # tier_keys now cutoff count unit (b # seen) ps
        else tier_keys now cutoff count unit seen ps)"

fun all_tier_keys :: "time \<Rightarrow> point list \<Rightarrow> retention_tier list \<Rightarrow> string + string list" where
  "all_tier_keys now points [] = Inr []"
| "all_tier_keys now points (tier # tiers) = (case retentionCutoff now tier of Inl e \<Rightarrow> Inl e
     | Inr cutoff \<Rightarrow> (case intervalParts (rt_Interval tier) of
         Inl e \<Rightarrow> Inl e
       | Inr (count, unit) \<Rightarrow> (case all_tier_keys now points tiers of Inl e \<Rightarrow> Inl e
           | Inr ks \<Rightarrow> Inr (tier_keys now cutoff count unit [] points @ ks))))"

definition RetainedSnapshots :: "snapshot_info list \<Rightarrow> retention_tier list \<Rightarrow> time \<Rightarrow> string + string set" where
  "RetainedSnapshots snaps tiers now = (case collect_points snaps of Inl e \<Rightarrow> Inl e
     | Inr ps \<Rightarrow> (let points = sort_points ps in
         (case all_tier_keys now points tiers of Inl e \<Rightarrow> Inl e
          | Inr ks \<Rightarrow> Inr (set (future_keys now points) \<union> set (latest_keys points) \<union> set ks))))"

section \<open>Arithmetic of the buckets\<close>

lemma go_div_nonneg: "0 \<le> n \<Longrightarrow> 0 < d \<Longrightarrow> go_div n d = n div d"
  by (simp add: go_div_def sgn_if)

lemma floorDiv_eq: "0 < d \<Longrightarrow> floorDiv n d = n div d"
proof -
  assume d: "0 < d"
  show ?thesis
  proof (cases "0 \<le> n")
    case True
    then have "go_rem n d = n mod d" using d by (simp add: go_rem_def go_div_nonneg minus_mult_div_eq_mod)
    then show ?thesis using True d pos_mod_sign [of d n] by (simp add: floorDiv_def go_div_nonneg Let_def not_less)
  next
    case False
    then have q: "go_div n d = - (- n div d)" using d by (simp add: go_div_def sgn_if)
    have "d * (- n div d) = - n - (- n mod d)" using mult_div_mod_eq [of d "- n"] by linarith
    then have r: "go_rem n d = - (- n mod d)" unfolding go_rem_def q by simp
    have "n div d = (if - n mod d = 0 then - (- n div d) else - (- n div d) - 1)"
      using zdiv_zminus1_eq_if [of d "- n"] d by simp
    then show ?thesis using pos_mod_sign [OF d, of "- n"] unfolding floorDiv_def q r Let_def by auto
  qed
qed

lemma digits_value_bounds:
  "list_all is_digit s \<Longrightarrow> 0 \<le> a \<Longrightarrow> a \<le> fold (\<lambda>c a. a * 10 + digit_value c) s a"
proof (induction s arbitrary: a)
  case Nil
  then show ?case by simp
next
  case (Cons c s)
  have "0 \<le> digit_value c" using Cons.prems(1) by (auto simp: is_digit_def digit_value_def)
  then show ?case using Cons.IH [of "a * 10 + digit_value c"] Cons.prems by simp
qed

lemma Atoi_pos:
  assumes "positive_digits s" "Atoi s = Inr v"
  shows "0 < v \<and> v \<le> MaxInt"
proof -
  obtain c cs where s: "s = c # cs" using assms(1) by (cases s) (auto simp: positive_digits_def)
  have "0 < digit_value c" "list_all is_digit cs"
    using assms(1) by (auto simp: s positive_digits_def is_digit_def digit_value_def)
  then have "0 < fold (\<lambda>c a. a * 10 + digit_value c) s 0"
    using digits_value_bounds [of cs "digit_value c"] by (simp add: s)
  then show ?thesis using assms(2) by (auto simp: Atoi_def Let_def split: if_splits)
qed

lemma intervalParts_pos: "intervalParts i = Inr (count, unit) \<Longrightarrow> 0 < count \<and> count \<le> MaxInt \<and> unit \<in> set units"
  by (auto simp: intervalParts_def policyInterval_def Let_def dest: Atoi_pos split: option.splits sum.splits if_splits)

section \<open>The calendar is consistent\<close>

lemma year_start_bounds: "400 * year_start (y + 1) \<le> 146097 * y + 396" "146097 * y - 699 \<le> 400 * year_start (y + 1)"
proof -
  have "4 * (y div 4) \<le> y" "y \<le> 4 * (y div 4) + 3" "100 * (y div 100) \<le> y" "y \<le> 100 * (y div 100) + 99"
    "400 * (y div 400) \<le> y" "y \<le> 400 * (y div 400) + 399"
    by linarith+
  then show "400 * year_start (y + 1) \<le> 146097 * y + 396" "146097 * y - 699 \<le> 400 * year_start (y + 1)"
    unfolding year_start_def by simp_all
qed

lemma year_of_correct: "year_start (year_of n) \<le> n \<and> n < year_start (year_of n + 1)"
proof -
  define q where "q = 400 * n div 146097"
  have q: "146097 * q \<le> 400 * n" "400 * n < 146097 * q + 146097"
    unfolding q_def by linarith+
  have lo: "year_start (q + 1) \<le> n" using year_start_bounds(1) [of q] q(1) by linarith
  have hi: "n < year_start (q + 3)" using year_start_bounds(2) [of "q + 2"] q(2) by (simp add: add.assoc)
  show ?thesis
    using lo hi by (simp add: year_of_def q_def [symmetric] Let_def add.assoc)
qed

lemma year_start_mono: "y < z \<Longrightarrow> year_start y < year_start z"
proof -
  assume "y < z"
  then have "y - 1 \<le> z - 1 - 1" by simp
  then have "(y - 1) div 4 \<le> (z - 1) div 4" "(y - 1) div 400 \<le> (z - 1) div 400"
    "(z - 1) div 100 - (y - 1) div 100 \<le> z - y"
    by (auto intro: zdiv_mono1)
  moreover have "365 * (y - 1) + p - q + r < 365 * (z - 1) + p' - q' + r'"
    if "p \<le> p'" "r \<le> r'" "q' - q \<le> z - y" for p q r p' q' r' :: int
    using that \<open>y < z\<close> by presburger
  ultimately show ?thesis unfolding year_start_def by blast
qed

lemma year_of_unique: "year_start y \<le> n \<Longrightarrow> n < year_start (y + 1) \<Longrightarrow> year_of n = y"
proof (rule ccontr)
  assume a: "year_start y \<le> n" "n < year_start (y + 1)" "year_of n \<noteq> y"
  then consider "y + 1 \<le> year_of n" | "year_of n + 1 \<le> y" by linarith
  then show False
  proof cases
    case 1
    then have "year_start (y + 1) \<le> year_start (year_of n)"
      using year_start_mono [of "y + 1" "year_of n"] by (cases "y + 1 = year_of n") auto
    with a(2) year_of_correct [of n] show False by linarith
  next
    case 2
    then have "year_start (year_of n + 1) \<le> year_start y"
      using year_start_mono [of "year_of n + 1" y] by (cases "year_of n + 1 = y") auto
    with a(1) year_of_correct [of n] show False by linarith
  qed
qed

lemma div_step: "0 < k \<Longrightarrow> y div k = (y - 1) div k + (if y mod k = 0 then 1 else 0)" for y k :: int
proof -
  assume k: "0 < k"
  let ?r = "if y mod k = 0 then k - 1 else y mod k - 1"
  let ?q = "if y mod k = 0 then y div k - 1 else y div k"
  have r: "0 \<le> ?r" "?r < k" using k pos_mod_bound [OF k, of y] pos_mod_sign [OF k, of y] by auto
  have "y - 1 = k * ?q + ?r"
    using mult_div_mod_eq [of k y] by (auto simp: algebra_simps)
  then have "(y - 1) div k = ?q" using r by (rule int_div_pos_eq)
  then show ?thesis by simp
qed

lemma mod_400_100: "(y :: int) mod 400 = 0 \<Longrightarrow> y mod 100 = 0" "(y :: int) mod 100 = 0 \<Longrightarrow> y mod 4 = 0"
  by presburger+

lemma year_length: "year_start (y + 1) = year_start y + 365 + (if leap y then 1 else 0)"
proof -
  have "365 * y + (p + (if b4 then 1 else 0)) - (q + (if b100 then 1 else 0)) + (r + (if b400 then 1 else 0))
      = 365 * (y - 1) + p - q + r + 365 + (if b4 \<and> (\<not> b100 \<or> b400) then 1 else 0)"
    if "b400 \<longrightarrow> b100" "b100 \<longrightarrow> b4" for p q r :: int and b4 b100 b400
    using that by (cases b4; cases b100; cases b400; simp)
  note sum = this
  have steps: "y div 4 = (y - 1) div 4 + (if y mod 4 = 0 then 1 else 0)"
    "y div 100 = (y - 1) div 100 + (if y mod 100 = 0 then 1 else 0)"
    "y div 400 = (y - 1) div 400 + (if y mod 400 = 0 then 1 else 0)"
    by (rule div_step, simp)+
  show ?thesis
    unfolding year_start_def leap_def add_diff_cancel_right' steps
    by (rule sum) (use mod_400_100 [of y] in simp_all)
qed

lemma month_of_correct:
  assumes "0 \<le> doy" "doy < 365 + (if lp then 1 else 0)"
  shows "1 \<le> month_of lp doy \<and> month_of lp doy \<le> 12 \<and>
         month_start lp (month_of lp doy) \<le> doy \<and> doy < month_start lp (month_of lp doy + 1)"
  using assms by (cases lp) (simp_all add: month_of_def month_start_def)

definition month_length :: "int \<Rightarrow> int \<Rightarrow> int" where
  "month_length y m = month_start (leap y) (m + 1) - month_start (leap y) m"

lemma month_range: "1 \<le> m \<Longrightarrow> m \<le> 12 \<Longrightarrow>
    m \<in> {1, 2, 3, 4, 5, 6, 7, 8, 9, 10, 11, 12}" for m :: int
  by simp presburger

lemma month_of_unique:
  assumes "1 \<le> m" "m \<le> 12" "month_start lp m \<le> doy" "doy < month_start lp (m + 1)"
  shows "month_of lp doy = m"
  using month_range [OF assms(1,2)] assms(3,4)
  by (cases lp) (auto simp: month_of_def month_start_def)

lemma month_start_end: "1 \<le> m \<Longrightarrow> m \<le> 12 \<Longrightarrow>
    0 \<le> month_start lp m \<and> month_start lp (m + 1) \<le> 365 + (if lp then 1 else 0)"
  using month_range [of m] by (cases lp) (auto simp: month_start_def)

lemma month_length_pos: "1 \<le> m \<Longrightarrow> m \<le> 12 \<Longrightarrow> 28 \<le> month_length y m"
  using month_range [of m] by (cases "leap y") (auto simp: month_start_def month_length_def)

text \<open>Dates in range are what \<open>time.Date\<close> was given.\<close>

lemma Date_parts:
  assumes "1 \<le> m" "m \<le> 12" "1 \<le> d" "d \<le> month_length y m" "0 \<le> c" "c < day_ns"
  shows "Year (time_Date y m d c) = y \<and> Month (time_Date y m d c) = m \<and>
         Day (time_Date y m d c) = d \<and> clock_of (time_Date y m d c) = c"
proof -
  let ?doy = "month_start (leap y) m + (d - 1)"
  have m: "(m - 1) div 12 = 0" "(m - 1) mod 12 = m - 1" using assms(1,2) by auto
  have t: "time_Date y m d c = (year_start y + ?doy - 719162) * day_ns + c"
    by (simp add: time_Date_def m Let_def)
  have dn: "day_number (time_Date y m d c) = year_start y + ?doy"
    unfolding t day_number_def using assms(5,6) by simp
  have doy: "0 \<le> ?doy" "?doy < 365 + (if leap y then 1 else 0)"
    "month_start (leap y) m \<le> ?doy" "?doy < month_start (leap y) (m + 1)"
    using month_start_end [OF assms(1,2), of "leap y"] assms(3,4) by (simp_all add: month_length_def)
  have y: "Year (time_Date y m d c) = y"
    unfolding Year_def dn using doy(1,2) year_length [of y] by (intro year_of_unique) auto
  have mo: "Month (time_Date y m d c) = m"
    unfolding Month_def y dn using month_of_unique [OF assms(1,2) doy(3,4)] by simp
  have "Day (time_Date y m d c) = d" unfolding Day_def y mo dn by simp
  moreover have "clock_of (time_Date y m d c) = c"
    unfolding t clock_of_def mod_mult_self3 using assms(5,6) by simp
  ultimately show ?thesis using y mo by simp
qed

text \<open>The parts of any time are in range, and \<open>time.Date\<close> of them is that time.\<close>

lemma parts_range:
  "1 \<le> Month t \<and> Month t \<le> 12 \<and> 1 \<le> Day t \<and> Day t \<le> month_length (Year t) (Month t) \<and>
   0 \<le> clock_of t \<and> clock_of t < day_ns"
proof -
  let ?doy = "day_number t - year_start (Year t)"
  have "0 \<le> ?doy" "?doy < 365 + (if leap (Year t) then 1 else 0)"
    using year_of_correct [of "day_number t"] year_length [of "Year t"] unfolding Year_def by auto
  from month_of_correct [OF this] show ?thesis
    unfolding Month_def Day_def month_length_def clock_of_def by simp
qed

text \<open>\<open>time.Date\<close> normalises a month outside 1 to 12 into the year.\<close>

lemma Date_normal: "time_Date y m d c = time_Date (y + (m - 1) div 12) ((m - 1) mod 12 + 1) d c"
  by (simp add: time_Date_def Let_def)

section \<open>Selection\<close>

lemma collect_points_set:
  "collect_points snaps = Inr ps \<Longrightarrow>
     p \<in> set ps \<longleftrightarrow> pt_snapshot p \<in> set snaps \<and> IsAutomatedSnapshot (pt_name p) \<and>
       sn_CreatedAt (pt_snapshot p) = Inr (pt_created p)"
proof (induction snaps arbitrary: ps)
  case Nil
  then show ?case by simp
next
  case (Cons snap snaps)
  then show ?case
    by (auto split: if_splits sum.splits)
qed

lemma collect_points_filter:
  "collect_points snaps = Inr ps \<Longrightarrow>
     collect_points (filter (\<lambda>sn. IsAutomatedSnapshot (sn_Name sn) \<longrightarrow> P (sn_Dataset sn) (sn_Name sn)) snaps)
       = Inr (filter (\<lambda>p. P (pt_dataset p) (pt_name p)) ps)"
  by (induction snaps arbitrary: ps) (auto split: if_splits sum.splits)

lemma set_sort_points [simp]: "set (sort_points ps) = set ps"
  by (simp add: sort_points_def)

lemma sort_points_filter: "filter P (sort_points ps) = sort_points (filter P ps)"
  by (simp add: sort_points_def filter_sort)

lemma sort_points_sorted: "sorted_wrt (\<lambda>p q. pt_created p \<le> pt_created q) (sort_points ps)"
proof -
  have "sorted (map (\<lambda>p. (pt_created p, pt_name p)) (sort_points ps))"
    unfolding sort_points_def by (rule sorted_sort_key)
  then show ?thesis
    unfolding sorted_map by (rule sorted_wrt_mono_rel [rotated]) (auto simp: less_eq_prod_def)
qed

text \<open>The latest point of a dataset is the last of its points in the sorted list.\<close>

lemma latest_snoc: "latest (ps @ [p]) d = (if d = pt_dataset p then Some p else latest ps d)"
  by (simp add: latest_def)

lemma latest_Some: "latest ps d = Some p \<Longrightarrow> p \<in> set ps \<and> pt_dataset p = d"
  by (induction ps rule: rev_induct) (auto simp: latest_snoc latest_def split: if_splits)

lemma latest_exists: "p \<in> set ps \<Longrightarrow> \<exists>q. latest ps (pt_dataset p) = Some q"
  by (induction ps rule: rev_induct) (auto simp: latest_snoc)

lemma latest_last:
  "sorted_wrt (\<lambda>p q. pt_created p \<le> pt_created q) ps \<Longrightarrow> latest ps d = Some q \<Longrightarrow>
     p \<in> set ps \<Longrightarrow> pt_dataset p = d \<Longrightarrow> pt_created p \<le> pt_created q"
proof (induction ps rule: rev_induct)
  case Nil
  then show ?case by simp
next
  case (snoc x ps)
  then show ?case by (auto simp: latest_snoc sorted_wrt_append split: if_splits)
qed

lemma latest_filter:
  "(\<And>p. latest ps d = Some p \<Longrightarrow> P p) \<Longrightarrow> latest (filter P ps) d = latest ps d"
proof (induction ps rule: rev_induct)
  case Nil
  then show ?case by simp
next
  case (snoc x ps)
  then show ?case by (cases "d = pt_dataset x") (simp_all add: latest_snoc)
qed

lemma set_latest_keys: "set (latest_keys ps) = {key q |q d. latest ps d = Some q}"
proof
  show "set (latest_keys ps) \<subseteq> {key q |q d. latest ps d = Some q}"
    by (auto simp: latest_keys_def List.map_filter_def)
  show "{key q |q d. latest ps d = Some q} \<subseteq> set (latest_keys ps)"
  proof
    fix k
    assume "k \<in> {key q |q d. latest ps d = Some q}"
    then obtain q d where q: "k = key q" "latest ps d = Some q" by blast
    then have "q \<in> set ps" "pt_dataset q = d" using latest_Some by auto
    with q show "k \<in> set (latest_keys ps)"
      by (auto simp: latest_keys_def List.map_filter_def image_iff intro!: bexI [of _ q])
  qed
qed

definition in_window :: "time \<Rightarrow> time \<Rightarrow> point \<Rightarrow> bool" where
  "in_window now cutoff p \<longleftrightarrow> cutoff < pt_created p \<and> pt_created p \<le> now"

definition bucket :: "int \<Rightarrow> string \<Rightarrow> point \<Rightarrow> string \<times> int" where
  "bucket count unit p = (pt_dataset p, intervalBucket (pt_created p) count unit)"

lemma tier_keys_sub:
  "k \<in> set (tier_keys now cutoff count unit seen ps) \<Longrightarrow> \<exists>p \<in> set ps. key p = k"
  by (induction ps arbitrary: seen) (auto simp: Let_def split: if_splits)

lemma tier_keys_seen:
  "set s1 = set s2 \<Longrightarrow> tier_keys now cutoff count unit s1 ps = tier_keys now cutoff count unit s2 ps"
proof (induction ps arbitrary: s1 s2)
  case Nil
  then show ?case by simp
next
  case (Cons p ps)
  from Cons.prems have "set (b # s1) = set (b # s2)" for b by simp
  then show ?case
    unfolding tier_keys.simps Let_def Cons.prems Cons.IH [OF Cons.prems]
    using Cons.IH [of "_ # s1" "_ # s2"] by simp
qed

lemma tier_keys_cover:
  assumes "sorted_wrt (\<lambda>p q. pt_created p \<le> pt_created q) ps" "p \<in> set ps" "in_window now cutoff p"
    "bucket count unit p \<notin> set seen"
  shows "\<exists>q \<in> set ps. in_window now cutoff q \<and> bucket count unit q = bucket count unit p \<and>
      pt_created q \<le> pt_created p \<and> key q \<in> set (tier_keys now cutoff count unit seen ps)"
  using assms
proof (induction ps arbitrary: seen)
  case Nil
  then show ?case by simp
next
  case (Cons x ps)
  show ?case
  proof (cases "in_window now cutoff x \<and> bucket count unit x = bucket count unit p")
    case True
    then have "key x \<in> set (tier_keys now cutoff count unit seen (x # ps))"
      using Cons.prems(4) by (auto simp: in_window_def bucket_def Let_def)
    moreover have "pt_created x \<le> pt_created p" using Cons.prems(1,2) by auto
    ultimately show ?thesis using True by auto
  next
    case False
    then have p: "p \<in> set ps" using Cons.prems(2,3) by auto
    let ?seen = "if in_window now cutoff x then bucket count unit x # seen else seen"
    have "bucket count unit p \<notin> set ?seen" using False Cons.prems(4) by auto
    then obtain q where "q \<in> set ps" "in_window now cutoff q" "bucket count unit q = bucket count unit p"
      "pt_created q \<le> pt_created p" "key q \<in> set (tier_keys now cutoff count unit ?seen ps)"
      using Cons.IH [of ?seen] Cons.prems(1,3) p by auto
    moreover have "set (tier_keys now cutoff count unit ?seen ps) \<subseteq> set (tier_keys now cutoff count unit seen (x # ps))"
    proof (cases "bucket count unit x \<in> set seen")
      case True
      have "tier_keys now cutoff count unit ?seen ps = tier_keys now cutoff count unit seen ps"
        by (rule tier_keys_seen) (use True in auto)
      then show ?thesis using True by (auto simp: in_window_def bucket_def Let_def)
    qed (auto simp: in_window_def bucket_def Let_def)
    ultimately show ?thesis by auto
  qed
qed

lemma tier_keys_filter:
  "set (tier_keys now cutoff count unit seen ps) \<subseteq> K \<Longrightarrow>
     tier_keys now cutoff count unit seen (filter (\<lambda>p. key p \<in> K) ps) = tier_keys now cutoff count unit seen ps"
proof (induction ps arbitrary: seen)
  case Nil
  then show ?case by simp
next
  case (Cons p ps)
  then show ?case by (cases "key p \<in> K") (auto simp: Let_def split: if_splits)
qed

lemma all_tier_keys_sub:
  "all_tier_keys now ps tiers = Inr ks \<Longrightarrow> k \<in> set ks \<Longrightarrow> \<exists>p \<in> set ps. key p = k"
proof (induction tiers arbitrary: ks)
  case Nil
  then show ?case by simp
next
  case (Cons tier tiers)
  then show ?case using tier_keys_sub [of k now] by (auto split: sum.splits)
qed

lemma all_tier_keys_filter:
  "all_tier_keys now ps tiers = Inr ks \<Longrightarrow> set ks \<subseteq> K \<Longrightarrow>
     all_tier_keys now (filter (\<lambda>p. key p \<in> K) ps) tiers = Inr ks"
  by (induction tiers arbitrary: ks) (auto simp: tier_keys_filter split: sum.splits)

lemma all_tier_keys_tier:
  "all_tier_keys now ps tiers = Inr ks \<Longrightarrow> tier \<in> set tiers \<Longrightarrow>
     \<exists>cutoff count unit. retentionCutoff now tier = Inr cutoff \<and> intervalParts (rt_Interval tier) = Inr (count, unit) \<and>
       set (tier_keys now cutoff count unit [] ps) \<subseteq> set ks"
  by (induction tiers arbitrary: ks) (fastforce split: sum.splits)+

text \<open>What a successful call of \<open>RetainedSnapshots\<close> computed.\<close>

lemma Retained_Inr:
  assumes "RetainedSnapshots snaps tiers now = Inr keep"
  obtains ps ks where "collect_points snaps = Inr ps" "all_tier_keys now (sort_points ps) tiers = Inr ks"
    "keep = set (future_keys now (sort_points ps)) \<union> set (latest_keys (sort_points ps)) \<union> set ks"
  using assms by (auto simp: RetainedSnapshots_def Let_def split: sum.splits)

lemma key_inject:
  assumes "IsAutomatedSnapshot (pt_name p)" "IsAutomatedSnapshot (pt_name q)" "key p = key q"
  shows "pt_dataset p = pt_dataset q \<and> pt_name p = pt_name q"
  using assms by (auto simp: key_def IsAutomatedSnapshot_def append_eq_append_conv)

lemma Retained_keys:
  assumes "RetainedSnapshots snaps tiers now = Inr keep" "collect_points snaps = Inr ps" "k \<in> keep"
  shows "\<exists>p \<in> set ps. key p = k"
proof -
  obtain ks where ks: "all_tier_keys now (sort_points ps) tiers = Inr ks"
    "keep = set (future_keys now (sort_points ps)) \<union> set (latest_keys (sort_points ps)) \<union> set ks"
    using Retained_Inr [OF assms(1)] assms(2) by auto
  from assms(3) ks(2) consider "k \<in> set (future_keys now (sort_points ps))"
    | "k \<in> set (latest_keys (sort_points ps))" | "k \<in> set ks" by blast
  then show ?thesis
  proof cases
    case 1
    then show ?thesis by (auto simp: future_keys_def)
  next
    case 2
    then show ?thesis using latest_Some [of "sort_points ps"] by (auto simp: set_latest_keys)
  next
    case 3
    then show ?thesis using all_tier_keys_sub [OF ks(1)] by simp
  qed
qed

lemma Retained_filter:
  assumes "RetainedSnapshots snaps tiers now = Inr keep"
  shows "RetainedSnapshots (filter (\<lambda>sn. IsAutomatedSnapshot (sn_Name sn) \<longrightarrow>
           sn_Dataset sn @ ''@'' @ sn_Name sn \<in> keep) snaps) tiers now = Inr keep"
proof -
  obtain ps ks where ps: "collect_points snaps = Inr ps" and ks: "all_tier_keys now (sort_points ps) tiers = Inr ks"
    and keep: "keep = set (future_keys now (sort_points ps)) \<union> set (latest_keys (sort_points ps)) \<union> set ks"
    using Retained_Inr [OF assms] .
  let ?P = "\<lambda>p. key p \<in> keep"
  let ?qs = "filter ?P (sort_points ps)"
  have col: "collect_points (filter (\<lambda>sn. IsAutomatedSnapshot (sn_Name sn) \<longrightarrow>
           sn_Dataset sn @ ''@'' @ sn_Name sn \<in> keep) snaps) = Inr (filter ?P ps)"
    using collect_points_filter [OF ps, of "\<lambda>d n. d @ ''@'' @ n \<in> keep"] by (simp add: key_def)
  have tiers: "all_tier_keys now ?qs tiers = Inr ks"
    using ks by (rule all_tier_keys_filter) (use keep in blast)
  have lat: "latest ?qs d = latest (sort_points ps) d" for d
    by (rule latest_filter) (use keep set_latest_keys in blast)
  have fut: "future_keys now ?qs = future_keys now (sort_points ps)"
    using keep by (auto simp: future_keys_def intro!: arg_cong [where f = "map key"] filter_cong)
  have "set (latest_keys ?qs) = set (latest_keys (sort_points ps))"
    unfolding set_latest_keys lat ..
  then show ?thesis
    unfolding RetainedSnapshots_def col using tiers fut keep
    by (simp add: Let_def sort_points_filter [symmetric])
qed

section \<open>Claims on retention\<close>

text \<open>
  C22. Pruning never removes the newest automated snapshot of a dataset, nor one dated in the
  future: whatever the tiers, every automated snapshot is kept or a kept snapshot of the same
  dataset is at least as new.
\<close>
theorem newest_snapshot_kept:
  "RetainedSnapshots snaps tiers now = Inr keep \<Longrightarrow> sn \<in> set snaps \<Longrightarrow>
   IsAutomatedSnapshot (sn_Name sn) \<Longrightarrow> sn_CreatedAt sn = Inr created \<Longrightarrow>
     (now < created \<longrightarrow> sn_Dataset sn @ ''@'' @ sn_Name sn \<in> keep) \<and>
     (\<exists>sn' \<in> set snaps. \<exists>created'. sn_Dataset sn' = sn_Dataset sn \<and> sn_CreatedAt sn' = Inr created' \<and>
        created \<le> created' \<and> sn_Dataset sn' @ ''@'' @ sn_Name sn' \<in> keep)"
proof -
  assume a: "RetainedSnapshots snaps tiers now = Inr keep" "sn \<in> set snaps"
    "IsAutomatedSnapshot (sn_Name sn)" "sn_CreatedAt sn = Inr created"
  obtain ps ks where ps: "collect_points snaps = Inr ps"
    and keep: "keep = set (future_keys now (sort_points ps)) \<union> set (latest_keys (sort_points ps)) \<union> set ks"
    using Retained_Inr [OF a(1)] by metis
  define p where "p = \<lparr>pt_snapshot = sn, pt_created = created\<rparr>"
  have p: "p \<in> set (sort_points ps)" using a collect_points_set [OF ps, of p] by (simp add: p_def)
  then obtain q where q: "latest (sort_points ps) (pt_dataset p) = Some q" using latest_exists by blast
  then have "key q \<in> keep" using keep by (auto simp: set_latest_keys)
  moreover have "pt_dataset q = sn_Dataset sn" "q \<in> set (sort_points ps)"
    using latest_Some [OF q] by (simp_all add: p_def)
  moreover have "created \<le> pt_created q"
    using latest_last [OF sort_points_sorted q p] by (simp add: p_def)
  ultimately have "\<exists>sn' \<in> set snaps. \<exists>created'. sn_Dataset sn' = sn_Dataset sn \<and> sn_CreatedAt sn' = Inr created' \<and>
        created \<le> created' \<and> sn_Dataset sn' @ ''@'' @ sn_Name sn' \<in> keep"
    using collect_points_set [OF ps, of q] by (auto simp: key_def intro!: bexI [of _ "pt_snapshot q"])
  moreover have "now < created \<longrightarrow> key p \<in> keep"
    using p keep by (auto simp: future_keys_def p_def)
  ultimately show ?thesis by (simp add: key_def p_def)
qed

abbreviation snap_a :: snapshot_info where
  "snap_a \<equiv> \<lparr>sn_Name = ''fl-000000'', sn_Dataset = ''t/a'', sn_CreatedAt = Inr 1735689600000000000\<rparr>"

theorem newest_snapshot_kept_witness:
  "\<exists>keep. RetainedSnapshots [snap_a] [] 1735689700000000000 = Inr keep \<and> ''t/a@fl-000000'' \<in> keep"
proof -
  have auto_name: "IsAutomatedSnapshot (sn_Name snap_a)"
    by (simp add: IsAutomatedSnapshot_def HasPrefix_def snapshotAlphabet_def)
  obtain keep where k: "RetainedSnapshots [snap_a] [] 1735689700000000000 = Inr keep"
    using auto_name by (simp add: RetainedSnapshots_def Let_def)
  show ?thesis using newest_snapshot_kept [OF k _ auto_name, of 1735689600000000000] k by simp
qed

text \<open>
  C11. Every tier covers its window: for each automated snapshot created after the tier's cutoff
  and not in the future, some kept snapshot of the same dataset falls into the same interval
  bucket and is no newer. So each bucket keeps its earliest point.
\<close>
theorem every_bucket_keeps_a_point:
  "RetainedSnapshots snaps tiers now = Inr keep \<Longrightarrow> tier \<in> set tiers \<Longrightarrow>
   retentionCutoff now tier = Inr cutoff \<Longrightarrow> intervalParts (rt_Interval tier) = Inr (count, unit) \<Longrightarrow>
   sn \<in> set snaps \<Longrightarrow> IsAutomatedSnapshot (sn_Name sn) \<Longrightarrow> sn_CreatedAt sn = Inr created \<Longrightarrow>
   cutoff < created \<Longrightarrow> created \<le> now \<Longrightarrow>
     \<exists>sn' \<in> set snaps. \<exists>created'. sn_Dataset sn' = sn_Dataset sn \<and> sn_CreatedAt sn' = Inr created' \<and>
        cutoff < created' \<and> created' \<le> created \<and>
        intervalBucket created' count unit = intervalBucket created count unit \<and>
        sn_Dataset sn' @ ''@'' @ sn_Name sn' \<in> keep"
proof -
  assume a: "RetainedSnapshots snaps tiers now = Inr keep" "tier \<in> set tiers"
    "retentionCutoff now tier = Inr cutoff" "intervalParts (rt_Interval tier) = Inr (count, unit)"
    "sn \<in> set snaps" "IsAutomatedSnapshot (sn_Name sn)" "sn_CreatedAt sn = Inr created"
    "cutoff < created" "created \<le> now"
  obtain ps ks where ps: "collect_points snaps = Inr ps" and ks: "all_tier_keys now (sort_points ps) tiers = Inr ks"
    and keep: "keep = set (future_keys now (sort_points ps)) \<union> set (latest_keys (sort_points ps)) \<union> set ks"
    using Retained_Inr [OF a(1)] .
  define p where "p = \<lparr>pt_snapshot = sn, pt_created = created\<rparr>"
  have p: "p \<in> set (sort_points ps)" using a collect_points_set [OF ps, of p] by (simp add: p_def)
  obtain q where q: "q \<in> set (sort_points ps)" "in_window now cutoff q" "bucket count unit q = bucket count unit p"
    "pt_created q \<le> pt_created p" "key q \<in> set (tier_keys now cutoff count unit [] (sort_points ps))"
    using tier_keys_cover [OF sort_points_sorted p, of now cutoff count unit "[]"] a(8,9)
    by (auto simp: in_window_def p_def)
  have "key q \<in> keep" using q(5) all_tier_keys_tier [OF ks a(2)] a(3,4) keep by auto
  then show ?thesis
    using q(1-4) collect_points_set [OF ps, of q]
    by (auto simp: key_def in_window_def bucket_def p_def intro!: bexI [of _ "pt_snapshot q"])
qed

abbreviation tier_d :: retention_tier where
  "tier_d \<equiv> \<lparr>rt_Interval = ''1d'', rt_Retain = 7\<rparr>"

lemma tier_d_eval: "intervalParts (rt_Interval tier_d) = Inr (1, ''d'')"
  "retentionCutoff 1735689700000000000 tier_d = Inr 1735084900000000000"
  by (simp_all add: retentionCutoff_def intervalParts_def policyInterval_def is_digit_def positive_digits_def
      units_def Atoi_def digit_value_def MaxInt_def unit_seconds_def go_div_def)

lemma snap_a_kept: "RetainedSnapshots [snap_a] [tier_d] 1735689700000000000 = Inr {''t/a@fl-000000''}"
  by (auto simp: RetainedSnapshots_def tier_d_eval [simplified] Let_def sort_points_def IsAutomatedSnapshot_def HasPrefix_def
      snapshotAlphabet_def future_keys_def latest_keys_def latest_def List.map_filter_def key_def)

theorem every_bucket_keeps_a_point_witness:
  "\<exists>sn' \<in> set [snap_a]. \<exists>created'. sn_Dataset sn' = sn_Dataset snap_a \<and> sn_CreatedAt sn' = Inr created' \<and>
        1735084900000000000 < created' \<and> created' \<le> 1735689600000000000 \<and>
        intervalBucket created' 1 ''d'' = intervalBucket 1735689600000000000 1 ''d'' \<and>
        sn_Dataset sn' @ ''@'' @ sn_Name sn' \<in> {''t/a@fl-000000''}"
  by (rule every_bucket_keeps_a_point [OF snap_a_kept _ tier_d_eval(2) tier_d_eval(1)])
    (simp_all add: IsAutomatedSnapshot_def HasPrefix_def snapshotAlphabet_def)

text \<open>
  C30. Pruning is stable: the keys kept are keys of automated snapshots of the list, and pruning
  the list down to what was kept (and the snapshots that are not automated) and selecting again
  with the same tiers at the same time keeps exactly the same keys.
\<close>
theorem retention_idempotent:
  "RetainedSnapshots snaps tiers now = Inr keep \<Longrightarrow>
     (\<forall>k \<in> keep. \<exists>sn \<in> set snaps. IsAutomatedSnapshot (sn_Name sn) \<and> k = sn_Dataset sn @ ''@'' @ sn_Name sn) \<and>
     RetainedSnapshots (filter (\<lambda>sn. IsAutomatedSnapshot (sn_Name sn) \<longrightarrow>
       sn_Dataset sn @ ''@'' @ sn_Name sn \<in> keep) snaps) tiers now = Inr keep"
proof -
  assume r: "RetainedSnapshots snaps tiers now = Inr keep"
  obtain ps where ps: "collect_points snaps = Inr ps" using Retained_Inr [OF r] by metis
  have "\<forall>k \<in> keep. \<exists>sn \<in> set snaps. IsAutomatedSnapshot (sn_Name sn) \<and> k = sn_Dataset sn @ ''@'' @ sn_Name sn"
    using Retained_keys [OF r ps] collect_points_set [OF ps] by (fastforce simp: key_def)
  with Retained_filter [OF r] show ?thesis by simp
qed

theorem retention_idempotent_witness:
  "RetainedSnapshots (filter (\<lambda>sn. IsAutomatedSnapshot (sn_Name sn) \<longrightarrow>
       sn_Dataset sn @ ''@'' @ sn_Name sn \<in> {''t/a@fl-000000''}) [snap_a]) [tier_d] 1735689700000000000
     = Inr {''t/a@fl-000000''}"
  using retention_idempotent [OF snap_a_kept] by blast

section \<open>Windows and schedules\<close>

lemma cutoff_ok_any_time:
  "retentionCutoff now tier = Inr c \<Longrightarrow> \<exists>c'. retentionCutoff now' tier = Inr c'"
  by (auto simp: retentionCutoff_def Let_def split: sum.splits option.splits if_splits)

text \<open>The shape of a parsed tier: its unit is new, and its cutoff could be computed.\<close>

definition tier_ok :: "retention_tier \<Rightarrow> bool" where
  "tier_ok tier \<longleftrightarrow> (\<forall>now. \<exists>c. retentionCutoff now tier = Inr c)"

lemma parse_tokens_ok:
  "parse_tokens now seen toks tiers = Inr tiers' \<Longrightarrow> list_all tier_ok tiers \<Longrightarrow> list_all tier_ok tiers'"
proof (induction now seen toks tiers rule: parse_tokens.induct)
  case (1 now seen tiers)
  then show ?case by simp
next
  case (2 now seen token tokens tiers)
  show ?case
    using 2 cutoff_ok_any_time
    by (auto simp: Let_def tier_ok_def split: option.splits sum.splits if_splits)
qed

lemma all_tier_keys_ok: "list_all tier_ok tiers \<Longrightarrow> \<exists>ks. all_tier_keys now ps tiers = Inr ks"
proof (induction tiers)
  case Nil
  then show ?case by simp
next
  case (Cons tier tiers)
  then obtain ks where "all_tier_keys now ps tiers = Inr ks" by auto
  moreover from Cons.prems obtain c where c: "retentionCutoff now tier = Inr c"
    by (auto simp: tier_ok_def dest: spec [of _ now])
  moreover from c obtain cu where "intervalParts (rt_Interval tier) = Inr cu"
    by (auto simp: retentionCutoff_def split: sum.splits)
  ultimately show ?case by (cases cu) simp
qed

lemma unit_seconds_iff: "unit_seconds unit = Some scale \<longleftrightarrow>
    unit = ''m'' \<and> scale = 60 \<or> unit = ''h'' \<and> scale = 3600 \<or> unit = ''d'' \<and> scale = 86400 \<or> unit = ''w'' \<and> scale = 604800"
  by (auto simp: unit_seconds_def split: if_splits)

text \<open>Weeks are counted from Monday 1970-01-05, the other units from the Unix epoch.\<close>

definition unit_origin :: "string \<Rightarrow> int" where
  "unit_origin unit = (if unit = ''w'' then 4 * 86400 else 0)"

lemma bucket_seconds:
  assumes "unit_seconds unit = Some scale" "0 < count"
  shows "intervalBucket t count unit = (Unix t - unit_origin unit) div (scale * count)"
proof -
  have "0 < scale" using assms(1) by (auto simp: unit_seconds_iff)
  then have "(Unix t - unit_origin unit) div scale div count = (Unix t - unit_origin unit) div (scale * count)"
    using assms(2) by (simp add: zdiv_zmult2_eq)
  then show ?thesis
    using assms by (auto simp: intervalBucket_def unit_seconds_iff unit_origin_def floorDiv_eq)
qed

lemma div_changes_iff:
  fixes x k m :: int
  assumes "0 < k" "m dvd k" "m dvd x" "0 < m"
  shows "x div k \<noteq> (x - m) div k \<longleftrightarrow> k dvd x"
proof -
  obtain a where k: "k = m * a" using assms(2) by (rule dvdE)
  obtain b where x: "x = m * b" using assms(3) by (rule dvdE)
  have a: "0 < a" using assms(1,4) by (simp add: k zero_less_mult_iff)
  have x1: "x - m = m * (b - 1)" by (simp add: x algebra_simps)
  have "x div k = b div a" using assms(4) by (simp add: k x)
  moreover have "(x - m) div k = (b - 1) div a" unfolding x1 k using assms(4) by simp
  moreover have "k dvd x \<longleftrightarrow> b mod a = 0" using assms(4) by (simp add: k x dvd_eq_mod_eq_0)
  ultimately show ?thesis using div_step [OF a, of b] by simp
qed

lemma Unix_truncated:
  "Unix (Truncate_minute t) = Unix t - Unix t mod 60" "Unix (Truncate_minute t - 60 * second) = Unix t - Unix t mod 60 - 60"
proof -
  have m: "t mod (60 * second) = t mod second + second * (Unix t mod 60)"
    unfolding Unix_def using zmod_zmult2_eq [of 60 t second] by simp
  have "t = second * Unix t + t mod second" unfolding Unix_def by (rule mult_div_mod_eq [symmetric])
  moreover have "a = b + c \<Longrightarrow> a - (c + d) = b - d" for a b c d :: int by simp
  ultimately have e: "Truncate_minute t = second * (Unix t - Unix t mod 60)"
    unfolding Truncate_minute_def m right_diff_distrib by blast
  show "Unix (Truncate_minute t) = Unix t - Unix t mod 60"
    unfolding e by (simp add: Unix_def)
  have "Truncate_minute t - 60 * second = second * (Unix t - Unix t mod 60 - 60)" unfolding e by simp
  then show "Unix (Truncate_minute t - 60 * second) = Unix t - Unix t mod 60 - 60" by (simp add: Unix_def)
qed

section \<open>Claims on policies and schedules\<close>

text \<open>
  A policy that parses can be applied at any later time: retention with its tiers fails only
  when the creation time of an automated snapshot cannot be parsed, never on a tier.
\<close>
theorem parsed_policy_always_applies:
  "ParseSnapshotPolicy t policy = Inr tiers \<Longrightarrow> collect_points snaps = Inr ps \<Longrightarrow>
     \<exists>keep. RetainedSnapshots snaps tiers now = Inr keep"
proof -
  assume p: "ParseSnapshotPolicy t policy = Inr tiers" and ps: "collect_points snaps = Inr ps"
  from p have "list_all tier_ok tiers"
    unfolding ParseSnapshotPolicy_def by (rule parse_tokens_ok) simp
  then obtain ks where "all_tier_keys now (sort_points ps) tiers = Inr ks" using all_tier_keys_ok by blast
  with ps show ?thesis by (simp add: RetainedSnapshots_def Let_def)
qed

lemma policy_example_token: "policyToken [100, 47, 55] = Some ([], ''d'', ''7'')"
proof -
  have "[100, 47, 55 :: nat] = map of_char ''d/7''" by simp
  then have "map char_of [100, 47, 55 :: nat] = ''d/7''" by (simp only: map_map o_def char_of_char map_ident)
  then have "ascii [100, 47, 55] = Some ''d/7''" by (simp add: ascii_def)
  then show ?thesis by (simp add: policyToken_def is_digit_def positive_digits_def units_def)
qed

lemma policy_example: "ParseSnapshotPolicy 1735689700000000000 [100, 47, 55] = Inr [tier_d]"
  by (simp add: ParseSnapshotPolicy_def Fields_def is_space_def policy_example_token Atoi_def digit_value_def
      MaxInt_def go_div_def Let_def tier_d_eval(2) [simplified])

theorem parsed_policy_always_applies_witness:
  "\<exists>keep. RetainedSnapshots [snap_a] [tier_d] 1735689700000000000 = Inr keep"
  by (rule parsed_policy_always_applies [OF policy_example])
    (simp add: IsAutomatedSnapshot_def HasPrefix_def snapshotAlphabet_def)

text \<open>
  C31. A minute, hour, day or week interval is due in exactly the minutes whose start lies a
  multiple of the interval after the unit's origin (the Unix epoch, for weeks the first Monday
  after it): once per interval, whatever the second within the minute, with no drift.
\<close>
theorem snapshot_due_iff_aligned:
  "intervalParts interval = Inr (count, unit) \<Longrightarrow> unit_seconds unit = Some scale \<Longrightarrow>
     SnapshotDue now interval \<longleftrightarrow> (scale * count) dvd (Unix now - Unix now mod 60 - unit_origin unit)"
proof -
  assume i: "intervalParts interval = Inr (count, unit)" and u: "unit_seconds unit = Some scale"
  let ?x = "Unix now - Unix now mod 60 - unit_origin unit"
  have c: "0 < count" using intervalParts_pos [OF i] by simp
  have s: "0 < scale" "60 dvd scale * count" "60 dvd unit_origin unit"
    using u by (auto simp: unit_seconds_iff unit_origin_def intro: dvd_mult2)
  have "60 dvd Unix now - Unix now mod 60" by (simp add: minus_mod_eq_mult_div)
  then have x: "60 dvd ?x" using s(3) by (rule dvd_diff)
  have "SnapshotDue now interval \<longleftrightarrow> ?x div (scale * count) \<noteq> (?x - 60) div (scale * count)"
    by (simp add: SnapshotDue_def i Let_def bucket_seconds [OF u c] Unix_truncated Unix_truncated(2) [simplified] algebra_simps)
  also have "\<dots> \<longleftrightarrow> (scale * count) dvd ?x"
    using div_changes_iff [OF _ s(2) x] c s(1) by simp
  finally show ?thesis .
qed

theorem snapshot_due_iff_aligned_witness:
  "SnapshotDue 1735689615000000000 ''1d'' \<longleftrightarrow> (86400 * 1) dvd (Unix 1735689615000000000 - Unix 1735689615000000000 mod 60 - unit_origin ''d'')"
  by (rule snapshot_due_iff_aligned) (use tier_d_eval(1) in \<open>simp_all add: unit_seconds_def\<close>)

section \<open>Calendar windows\<close>

lemma Date_first:
  assumes "0 \<le> c" "c < day_ns"
  shows "Year (time_Date y m 1 c) = y + (m - 1) div 12" "Month (time_Date y m 1 c) = (m - 1) mod 12 + 1"
    "Day (time_Date y m 1 c) = 1" "clock_of (time_Date y m 1 c) = c"
proof -
  let ?y = "y + (m - 1) div 12" and ?m = "(m - 1) mod 12 + 1"
  have m: "1 \<le> ?m" "?m \<le> 12" by simp_all
  have "1 \<le> month_length ?y ?m" using month_length_pos [OF m, of ?y] by simp
  note parts = Date_parts [OF m _ this assms, unfolded order_refl simp_thms]
  show "Year (time_Date y m 1 c) = ?y" "Month (time_Date y m 1 c) = ?m" "Day (time_Date y m 1 c) = 1"
    "clock_of (time_Date y m 1 c) = c"
    using parts by (subst Date_normal, simp)+
qed

lemma Date_last_day:
  assumes "1 \<le> m" "m \<le> 12" "0 \<le> c" "c < day_ns"
  shows "Day (AddDate (time_Date y (m + 1) 1 c) 0 0 (- 1)) = month_length y m"
proof -
  have e: "AddDate (time_Date y (m + 1) 1 c) 0 0 (- 1) = time_Date (y + m div 12) (m mod 12 + 1) 0 c"
    by (simp add: AddDate_def Date_first [OF assms(3,4)])
  have "time_Date (y + m div 12) (m mod 12 + 1) 0 c = time_Date y m (month_length y m) c"
  proof (cases "m = 12")
    case True
    then show ?thesis
      by (simp add: time_Date_def Let_def month_length_def month_start_def year_length)
  next
    case False
    then have "m mod 12 = m" "m div 12 = 0" "(m - 1) div 12 = 0" "(m - 1) mod 12 = m - 1"
      using assms(1,2) by auto
    then show ?thesis
      by (simp add: time_Date_def Let_def month_length_def)
  qed
  moreover have "1 \<le> month_length y m" using month_length_pos [OF assms(1,2), of y] by simp
  ultimately show ?thesis unfolding e using Date_parts [OF assms(1,2) _ _ assms(3,4), of "month_length y m" y] by simp
qed

lemma month_steps:
  "(Y + (M - k - 1) div 12) * 12 + ((M - k - 1) mod 12 + 1) - 1 = Y * 12 + M - 1 - k" for Y M k :: int
proof -
  have "(Y + q) * 12 + (r + 1) - 1 = Y * 12 + z" if "12 * q + r = z" for q r z :: int
    using that by simp
  from this [OF mult_div_mod_eq [of 12 "M - k - 1"]] show ?thesis by simp
qed

lemma AddDate_day:
  assumes "1 \<le> m" "m \<le> 12" "0 \<le> c" "c < day_ns"
  shows "AddDate (time_Date y m 1 c) 0 0 (d - 1) = time_Date y m d c"
  using Date_parts [OF assms(1,2) _ _ assms(3,4), of 1 y] month_length_pos [OF assms(1,2), of y]
  by (simp add: AddDate_def)

lemma month_cutoff:
  assumes "ms = AddDate (time_Date (Year now) (Month now) 1 (clock_of now)) 0 (- k) 0"
    and "c = AddDate ms 0 0 ((if Day (AddDate (AddDate ms 0 1 0) 0 0 (-1)) < Day now
                             then Day (AddDate (AddDate ms 0 1 0) 0 0 (-1)) else Day now) - 1)"
  shows "Year c * 12 + Month c - 1 = Year now * 12 + Month now - 1 - k \<and>
         Day c = min (Day now) (month_length (Year c) (Month c)) \<and> clock_of c = clock_of now"
proof -
  define y m where "y = Year now + (Month now - k - 1) div 12" and "m = (Month now - k - 1) mod 12 + 1"
  have r: "1 \<le> Month now" "Month now \<le> 12" "1 \<le> Day now" "0 \<le> clock_of now" "clock_of now < day_ns"
    using parts_range [of now] by auto
  have m: "1 \<le> m" "m \<le> 12" by (simp_all add: m_def)
  have "ms = time_Date (Year now) (Month now - k) 1 (clock_of now)"
    using r by (simp add: assms(1) AddDate_def Date_first)
  then have ms: "ms = time_Date y m 1 (clock_of now)"
    by (subst (asm) Date_normal) (simp add: y_def m_def)
  have "AddDate ms 0 1 0 = time_Date y (m + 1) 1 (clock_of now)"
    using Date_first [OF r(4,5), of y m] m by (simp add: ms AddDate_def)
  then have last: "Day (AddDate (AddDate ms 0 1 0) 0 0 (-1)) = month_length y m"
    using Date_last_day [OF m r(4,5)] by simp
  have c: "c = time_Date y m (min (Day now) (month_length y m)) (clock_of now)"
    unfolding assms(2) last unfolding ms AddDate_day [OF m r(4,5)] min_def by (simp add: not_less)
  have "1 \<le> month_length y m" using month_length_pos [OF m, of y] by simp
  then have "Year c = y \<and> Month c = m \<and> Day c = min (Day now) (month_length y m) \<and> clock_of c = clock_of now"
    unfolding c by (intro Date_parts) (use m r in auto)
  then show ?thesis using month_steps [of "Year now" "Month now" k] by (simp add: y_def m_def)
qed

text \<open>
  The window of a month or year tier ends exactly that many calendar months before now: same
  time of day, same day of the month, clamped to the last day of the target month instead of
  overflowing into the next one.
\<close>
theorem calendar_cutoff_clamps:
  "retentionCutoff now tier = Inr c \<Longrightarrow> intervalParts (rt_Interval tier) = Inr (count, unit) \<Longrightarrow>
   unit_seconds unit = None \<Longrightarrow>
     Year c * 12 + Month c - 1 = Year now * 12 + Month now - 1
        - count * rt_Retain tier * (if unit = ''y'' then 12 else 1) \<and>
     Day c = min (Day now) (month_length (Year c) (Month c)) \<and> clock_of c = clock_of now"
  by (rule month_cutoff [OF refl])
    (auto simp: retentionCutoff_def Let_def ac_simps split: if_splits)

lemma date_example: "Year 1743379200000000000 = 2025" "Month 1743379200000000000 = 3" "Day 1743379200000000000 = 31"
  by (simp_all add: Year_def Month_def Day_def day_number_def year_of_def year_start_def month_of_def
      month_start_def leap_def Let_def)

theorem calendar_cutoff_clamps_witness:
  "\<exists>c. retentionCutoff 1743379200000000000 \<lparr>rt_Interval = ''1mo'', rt_Retain = 1\<rparr> = Inr c \<and> Year c * 12 + Month c = 2025 * 12 + 2"
proof -
  let ?t = "\<lparr>rt_Interval = ''1mo'', rt_Retain = 1\<rparr> :: retention_tier"
  have i: "intervalParts (rt_Interval ?t) = Inr (1, ''mo'')"
    by (simp add: intervalParts_def policyInterval_def is_digit_def positive_digits_def units_def Atoi_def
        digit_value_def MaxInt_def)
  then obtain c where c: "retentionCutoff 1743379200000000000 ?t = Inr c"
    by (simp add: retentionCutoff_def unit_seconds_def MaxInt_def go_div_def Let_def)
  have "unit_seconds ''mo'' = None" by (simp add: unit_seconds_def)
  from calendar_cutoff_clamps [OF c i this] have "Year c * 12 + Month c = 2025 * 12 + 2"
    unfolding date_example by simp
  with c show ?thesis by blast
qed

end
