(* ===== verification/Ipam.thy ===== *)
theory Ipam
  imports Prelude
begin

unbundle bit_operations_syntax

text \<open>
  Address management (\<open>internal/ipam\<close>): network pools and their validation, the reserved node
  ranges with their database triggers, the allocation of IPv4 service addresses from a pool and
  of addresses from an IPv6 prefix, and the checks that place a stack on a host.

  Addresses are words, as \<open>net/netip\<close> has them; a text field that the code parses is modelled by
  what \<open>netip.ParseAddr\<close> or \<open>netip.ParsePrefix\<close> makes of it (\<open>None\<close> on a parse error). The
  database is a record of the tables the package reads and writes, with the constraints and
  triggers of \<open>pkg/rqlite/migrations.go\<close> and \<open>pkg/config/migrations.go\<close>; a statement list is one
  transaction. An operation first queries and then writes, and other control processes write in between: the
  databases that its queries saw are arguments, and only its transaction runs on the current one (the migration
  of legacy pools, which writes several times, is split into its transactions where others may interfere). What the
  database answers beyond that (unreachable, no leader) is an argument as well.
\<close>

section \<open>Addresses\<close>

datatype addr = V4 "32 word" | V6 "128 word"

record prefix =
  pfx_Addr :: addr
  pfx_Bits :: nat

fun Is4 :: "addr \<Rightarrow> bool" where
  "Is4 (V4 _) = True"
| "Is4 (V6 _) = False"

text \<open>\<open>Compare\<close> orders by family first: \<open>addr_le a b\<close> is \<open>a.Compare(b) <= 0\<close>.\<close>

fun addr_le :: "addr \<Rightarrow> addr \<Rightarrow> bool" where
  "addr_le (V4 a) (V4 b) = (a \<le> b)"
| "addr_le (V6 a) (V6 b) = (a \<le> b)"
| "addr_le (V4 _) (V6 _) = True"
| "addr_le (V6 _) (V4 _) = False"

text \<open>\<open>Next\<close> returns the invalid address after the last one.\<close>

fun addr_Next :: "addr \<Rightarrow> addr option" where
  "addr_Next (V4 a) = (if a = -1 then None else Some (V4 (a + 1)))"
| "addr_Next (V6 a) = (if a = -1 then None else Some (V6 (a + 1)))"

fun mask_addr :: "addr \<Rightarrow> nat \<Rightarrow> addr" where
  "mask_addr (V4 a) bits = V4 (a AND NOT (mask (32 - bits)))"
| "mask_addr (V6 a) bits = V6 (a AND NOT (mask (128 - bits)))"

definition Masked :: "prefix \<Rightarrow> prefix" where
  "Masked p = p\<lparr>pfx_Addr := mask_addr (pfx_Addr p) (pfx_Bits p)\<rparr>"

definition Contains :: "prefix \<Rightarrow> addr \<Rightarrow> bool" where
  "Contains p a \<longleftrightarrow> Is4 (pfx_Addr p) = Is4 a \<and>
     mask_addr a (pfx_Bits p) = mask_addr (pfx_Addr p) (pfx_Bits p)"

text \<open>\<open>value |= uint32(1<<bits) - 1\<close> on the four bytes of the address.\<close>

fun lastAddress :: "prefix \<Rightarrow> addr" where
  "lastAddress p = (case pfx_Addr p of
     V4 a \<Rightarrow> V4 (a OR (push_bit (32 - pfx_Bits p) 1 - 1))
   | V6 a \<Rightarrow> V6 a)"

section \<open>Pools\<close>

record pool =
  p_ID :: string
  p_Name :: string
  p_CIDR :: "prefix option"
  p_StartIP :: "addr option"
  p_EndIP :: "addr option"
  p_Default :: bool
  p_NodeIDs :: "string list"
  p_MembershipResolved :: bool
  p_CreatedAt :: int
  p_UpdatedAt :: int

definition ValidatePool :: "pool \<Rightarrow> error" where
  "ValidatePool pool = (case p_CIDR pool of
     None \<Rightarrow> Some ''ipam: cidr must be a canonical IPv4 prefix''
   | Some prefix \<Rightarrow>
       if \<not> Is4 (pfx_Addr prefix) \<or> prefix \<noteq> Masked prefix then Some ''ipam: cidr must be a canonical IPv4 prefix''
       else case (p_StartIP pool, p_EndIP pool) of
         (Some start, Some end) \<Rightarrow>
           if p_Name pool = [] \<or> \<not> Is4 start \<or> \<not> Is4 end \<or> \<not> Contains prefix start \<or>
              \<not> Contains prefix end \<or> \<not> addr_le start end
           then Some ''ipam: invalid pool range''
           else if start = pfx_Addr prefix \<or> end = lastAddress prefix
           then Some ''ipam: range cannot contain network or broadcast address''
           else None
       | _ \<Rightarrow> Some ''ipam: invalid pool range'')"

definition containsNode :: "string list \<Rightarrow> string \<Rightarrow> bool" where
  "containsNode nodes node \<longleftrightarrow> list_ex (\<lambda>v. v = node) nodes"

fun members_loop :: "string list \<Rightarrow> string list \<Rightarrow> error" where
  "members_loop seen [] = None"
| "members_loop seen (node # nodes) =
     (if node = [] \<or> node \<in> set seen then Some ''ipam: member nodes must be nonempty and unique''
      else members_loop (node # seen) nodes)"

definition ValidateMembers :: "string list \<Rightarrow> error" where
  "ValidateMembers nodes = (if nodes = [] then Some ''ipam: at least one member node is required''
     else members_loop [] nodes)"

definition Member :: "pool \<Rightarrow> string \<Rightarrow> bool" where
  "Member pool node \<longleftrightarrow> p_MembershipResolved pool \<and> containsNode (p_NodeIDs pool) node"

section \<open>The database\<close>

record allocation =
  al_id :: string
  al_pool :: string
  al_stack :: string
  al_address :: "addr option"
  al_active :: bool

record runtime =
  ru_stack_ip :: "addr option"
  ru_network_pool :: "string option"
  ru_active_node :: string
  ru_deleted :: bool

record node_range =
  nr_start :: "32 word"
  nr_end :: "32 word"
  nr_owner :: string

record reservation =
  rs_ID :: string
  rs_StackID :: string
  rs_Service :: string
  rs_Address :: "prefix option"
  rs_PrefixPool :: string
  rs_AllocatedAt :: int

record ipam_db =
  db_pools :: "pool list"
  db_scope :: "string \<rightharpoonup> bool"
  db_members :: "(string \<times> string) list"
  db_ranges :: "(string \<times> node_range) list"
  db_allocations :: "allocation list"
  db_runtime :: "(string \<times> runtime) list"
  db_dns_outbox :: "(string \<times> string \<times> addr option) list"
  db_reservations :: "reservation list"

text \<open>
  \<open>ListPools\<close>: the rows of \<open>network_pools\<close> by name, each with its members and its resolution
  (rows of pools never hold members themselves: \<open>p_NodeIDs\<close> and \<open>p_MembershipResolved\<close> come from
  the other two tables).
\<close>

definition load_pool :: "ipam_db \<Rightarrow> pool \<Rightarrow> pool" where
  "load_pool db row = row\<lparr>p_NodeIDs := map snd (filter (\<lambda>pn. fst pn = p_ID row) (db_members db)),
     p_MembershipResolved := (db_scope db (p_ID row) = Some True)\<rparr>"

definition ListPools :: "error \<Rightarrow> ipam_db \<Rightarrow> string + pool list" where
  "ListPools fault db = (case fault of Some e \<Rightarrow> Inl e
     | None \<Rightarrow> Inr (map (load_pool db) (sort_key p_Name (db_pools db))))"

section \<open>Node ranges\<close>

text \<open>The trigger condition: another pool's reserved range overlaps the new one.\<close>

definition range_overlaps :: "(string \<times> node_range) list \<Rightarrow> string \<Rightarrow> node_range \<Rightarrow> bool" where
  "range_overlaps rs pid r \<longleftrightarrow>
     list_ex (\<lambda>(q, x). q \<noteq> pid \<and> nr_start x \<le> nr_end r \<and> nr_start r \<le> nr_end x) rs"

definition upsert_range :: "string \<Rightarrow> node_range \<Rightarrow> (string \<times> node_range) list \<Rightarrow> string + (string \<times> node_range) list" where
  "upsert_range pid r rs =
     (if nr_end r < nr_start r then Inl ''CHECK constraint failed''
      else if range_overlaps rs pid r then Inl ''address range overlaps a reserved node range''
      else case map_of rs pid of
        None \<Rightarrow> Inr (AList.update pid r rs)
      | Some old \<Rightarrow>
          let new = \<lparr>nr_start = min (nr_start old) (nr_start r), nr_end = max (nr_end old) (nr_end r), nr_owner = nr_owner r\<rparr>
          in if nr_owner old \<noteq> nr_owner new then Inl ''range ownership cannot be transferred implicitly''
             else if range_overlaps rs pid new then Inl ''address range overlaps a reserved node range''
             else Inr (AList.update pid new rs))"

section \<open>Saving a pool\<close>

definition overlaps_existing :: "pool \<Rightarrow> pool \<Rightarrow> bool" where
  "overlaps_existing pool existing \<longleftrightarrow> p_ID existing \<noteq> p_ID pool \<and>
     (\<not> p_MembershipResolved existing \<or> list_ex (containsNode (p_NodeIDs existing)) (p_NodeIDs pool)) \<and>
     (case (p_StartIP pool, p_EndIP pool, p_StartIP existing, p_EndIP existing) of
        (Some ws, Some we, Some s, Some e) \<Rightarrow> addr_le ws e \<and> addr_le s we
      | (Some ws, Some we, Some s, None) \<Rightarrow> False
      | (Some ws, Some we, None, Some e) \<Rightarrow> addr_le ws e
      | _ \<Rightarrow> False)"

text \<open>The distinct active nodes of the stacks that hold an address of the pool.\<close>

definition active_nodes :: "ipam_db \<Rightarrow> string \<Rightarrow> string list" where
  "active_nodes db pid = remdups (map (\<lambda>(_, r). ru_active_node r)
     (filter (\<lambda>(_, r). ru_network_pool r = Some pid \<and> ru_stack_ip r \<noteq> None \<and> \<not> ru_deleted r) (db_runtime db)))"

definition excluded_allocation :: "pool \<Rightarrow> allocation \<Rightarrow> bool" where
  "excluded_allocation pool al \<longleftrightarrow> al_pool al = p_ID pool \<and>
     (case (al_address al, p_CIDR pool, p_StartIP pool, p_EndIP pool) of
        (Some a, Some wanted, Some start, Some end) \<Rightarrow>
          \<not> Contains wanted a \<or> \<not> addr_le start a \<or> \<not> addr_le a end
      | _ \<Rightarrow> True)"

definition range_of_pool :: "pool \<Rightarrow> string \<Rightarrow> node_range option" where
  "range_of_pool pool node = (case (p_StartIP pool, p_EndIP pool) of
     (Some (V4 s), Some (V4 e)) \<Rightarrow> Some \<lparr>nr_start = s, nr_end = e, nr_owner = node\<rparr> | _ \<Rightarrow> None)"

definition upsert_pool :: "pool \<Rightarrow> pool list \<Rightarrow> string + pool list" where
  "upsert_pool pool rows =
     (if list_ex (\<lambda>r. p_ID r \<noteq> p_ID pool \<and> p_Name r = p_Name pool) rows
      then Inl ''UNIQUE constraint failed: network_pools.name''
      else if list_ex (\<lambda>r. p_ID r = p_ID pool) rows
      then Inr (map (\<lambda>r. if p_ID r = p_ID pool then pool\<lparr>p_CreatedAt := p_CreatedAt r\<rparr> else r) rows)
      else Inr (rows @ [pool]))"

text \<open>The transaction that \<open>savePool\<close> ends with.\<close>

definition write_pool :: "error \<Rightarrow> pool \<Rightarrow> string \<Rightarrow> ipam_db \<Rightarrow> (error \<times> pool) \<times> ipam_db" where
  "write_pool fault pool node db = (case fault of Some e \<Rightarrow> ((Some e, pool), db)
     | None \<Rightarrow>
       (case (if node = [] then Inr (db_ranges db)
              else case range_of_pool pool node of None \<Rightarrow> Inl ''range''
                   | Some r \<Rightarrow> upsert_range (p_ID pool) r (db_ranges db)) of
          Inl e \<Rightarrow> ((Some e, pool), db)
        | Inr ranges \<Rightarrow>
          (case upsert_pool pool (db_pools db) of
             Inl e \<Rightarrow> ((Some e, pool), db)
           | Inr rows \<Rightarrow>
               ((None, pool), db\<lparr>db_ranges := ranges, db_pools := rows,
                 db_scope := (db_scope db)(p_ID pool \<mapsto> True),
                 db_members := filter (\<lambda>pn. fst pn \<noteq> p_ID pool) (db_members db)
                               @ map (\<lambda>n. (p_ID pool, n)) (p_NodeIDs pool)\<rparr>))))"

text \<open>
  One call of \<open>savePool\<close>: \<open>fresh\<close> is the UUID a new pool gets, \<open>now\<close> the clock, \<open>faults\<close> what
  the database answers to the four requests in turn, and \<open>seen\<close> the databases that the three queries read.
\<close>

definition savePool ::
  "(nat \<Rightarrow> error) \<Rightarrow> string \<Rightarrow> int \<Rightarrow> pool \<Rightarrow> string \<Rightarrow> (nat \<Rightarrow> ipam_db) \<Rightarrow> ipam_db \<Rightarrow> (error \<times> pool) \<times> ipam_db" where
  "savePool faults fresh now pool0 node seen db =
     (case ValidateMembers (p_NodeIDs pool0) of Some e \<Rightarrow> ((Some e, pool0), db)
      | None \<Rightarrow>
        let pool = pool0\<lparr>p_MembershipResolved := True, p_Default := False\<rparr> in
        (case ValidatePool pool of Some e \<Rightarrow> ((Some e, pool), db)
         | None \<Rightarrow>
        (case ListPools (faults 0) (seen 0) of Inl e \<Rightarrow> ((Some e, pool), db)
         | Inr pools \<Rightarrow>
           if list_ex (overlaps_existing pool) pools then ((Some ''ipam: pool overlaps'', pool), db)
           else if p_ID pool \<noteq> [] \<and> faults 1 \<noteq> None then ((faults 1, pool), db)
           else if p_ID pool \<noteq> [] \<and> list_ex (\<lambda>n. \<not> containsNode (p_NodeIDs pool) n) (active_nodes (seen 1) (p_ID pool))
           then ((Some ''ipam: pool update would remove active allocation host'', pool), db)
           else if p_ID pool \<noteq> [] \<and> faults 2 \<noteq> None then ((faults 2, pool), db)
           else if p_ID pool \<noteq> [] \<and> list_ex (excluded_allocation pool) (db_allocations (seen 2))
           then ((Some ''ipam: pool update would exclude active allocation'', pool), db)
           else
             write_pool (faults 3) ((if p_ID pool = [] then pool\<lparr>p_ID := fresh, p_CreatedAt := now\<rparr> else pool)\<lparr>p_UpdatedAt := now\<rparr>) node db)))"

definition SavePool where
  "SavePool faults fresh now pool seen db = savePool faults fresh now pool [] seen db"

definition SaveNodePool ::
  "(nat \<Rightarrow> error) \<Rightarrow> string \<Rightarrow> int \<Rightarrow> pool \<Rightarrow> string \<Rightarrow> (nat \<Rightarrow> ipam_db) \<Rightarrow> ipam_db \<Rightarrow> (error \<times> pool) \<times> ipam_db" where
  "SaveNodePool faults fresh now pool node seen db =
     (if node = [] \<or> length (p_NodeIDs pool) \<noteq> 1 \<or> p_NodeIDs pool ! 0 \<noteq> node
      then ((Some ''ipam: node range requires one matching owner'', pool), db)
      else savePool faults fresh now pool node seen db)"

text \<open>
  \<open>DeletePool\<close> checks for allocations first, then deletes in one transaction whose conditions
  check again; \<open>db'\<close> is the database at the time of the transaction.
\<close>

definition DeletePool :: "error \<Rightarrow> error \<Rightarrow> string \<Rightarrow> ipam_db \<Rightarrow> ipam_db \<Rightarrow> error \<times> ipam_db" where
  "DeletePool queryErr execErr pid db db' =
     (case queryErr of Some e \<Rightarrow> (Some e, db')
      | None \<Rightarrow>
        if list_ex (\<lambda>al. al_pool al = pid) (db_allocations db) then (Some ''ipam: network pool has active allocations'', db')
        else case execErr of Some e \<Rightarrow> (Some e, db')
        | None \<Rightarrow>
           let rows = (if list_ex (\<lambda>al. al_pool al = pid) (db_allocations db') then db_pools db'
                       else filter (\<lambda>r. p_ID r \<noteq> pid) (db_pools db'));
               gone = \<not> list_ex (\<lambda>r. p_ID r = pid) rows
           in (None, db'\<lparr>db_pools := rows,
                db_members := (if gone then filter (\<lambda>pn. fst pn \<noteq> pid) (db_members db') else db_members db'),
                db_scope := (if gone then (db_scope db')(pid := None) else db_scope db')\<rparr>))"

section \<open>IPv4 allocation\<close>

text \<open>
  The insert: refused when the database is unreachable for this statement, when the row's id or
  stack is already there, or when the pool's address is.
\<close>

definition insert_allocation :: "allocation \<Rightarrow> ipam_db \<Rightarrow> ipam_db option" where
  "insert_allocation al db =
     (if list_ex (\<lambda>r. al_id r = al_id al \<or> al_stack r = al_stack al \<or>
           al_pool r = al_pool al \<and> al_address r = al_address al) (db_allocations db)
      then None else Some (db\<lparr>db_allocations := db_allocations db @ [al]\<rparr>))"

lemma word_step_down: "a \<noteq> - 1 \<Longrightarrow> unat (- 2 - a) < unat (- 1 - (a::'a::len word))"
proof -
  assume "a \<noteq> - 1"
  then have "unat (- 1 - a - 1) < unat (- 1 - a)" by (intro measure_unat) auto
  moreover have "- 1 - a - 1 = - 2 - a" by (simp add: algebra_simps)
  ultimately show ?thesis by metis
qed

text \<open>
  The loop over the range. Go's \<open>Next\<close> of 255.255.255.255 is the invalid address, which compares
  below every other one; the result \<open>None\<close> stands for a loop that got there, which no validated
  pool allows. \<open>uuids\<close> and \<open>faults\<close> give the row id and the database's answer for the attempt
  at an address.
\<close>

function allocate_loop ::
  "(32 word \<Rightarrow> string) \<Rightarrow> (32 word \<Rightarrow> error) \<Rightarrow> addr list \<Rightarrow> string \<Rightarrow> string \<Rightarrow> 32 word \<Rightarrow> 32 word \<Rightarrow> ipam_db
     \<Rightarrow> ((string + addr) \<times> ipam_db) option" where
  "allocate_loop uuids faults taken pid sid a fin db =
     (if a \<le> fin then
        (if V4 a \<in> set taken \<or> faults a \<noteq> None \<or>
            insert_allocation \<lparr>al_id = uuids a, al_pool = pid, al_stack = sid, al_address = Some (V4 a), al_active = False\<rparr> db = None
         then if a = -1 then None else allocate_loop uuids faults taken pid sid (a + 1) fin db
         else Some (Inr (V4 a),
           the (insert_allocation \<lparr>al_id = uuids a, al_pool = pid, al_stack = sid, al_address = Some (V4 a), al_active = False\<rparr> db)))
      else Some (Inl ''ipam: pool exhausted'', db))"
  by pat_completeness auto

termination
  by (relation "measure (\<lambda>(_, _, _, _, _, a, _). unat (- 1 - a))") (use word_step_down in auto)

declare allocate_loop.simps [simp del]

text \<open>
  \<open>db0\<close> is the database the strong query reads, \<open>db\<close> the one the inserts run on: another control
  process may have written in between.
\<close>

definition pool_addresses :: "string \<Rightarrow> ipam_db \<Rightarrow> addr list" where
  "pool_addresses pid db = List.map_filter al_address (filter (\<lambda>al. al_pool al = pid) (db_allocations db))"

definition AllocateIPv4 ::
  "error \<Rightarrow> (32 word \<Rightarrow> string) \<Rightarrow> (32 word \<Rightarrow> error) \<Rightarrow> pool \<Rightarrow> string \<Rightarrow> ipam_db \<Rightarrow> ipam_db
     \<Rightarrow> ((string + addr) \<times> ipam_db) option" where
  "AllocateIPv4 queryErr uuids faults pool stackID db0 db =
     (if \<not> p_MembershipResolved pool \<or> p_NodeIDs pool = []
      then Some (Inl ''ipam: pool membership requires administrator correction'', db)
      else case ValidatePool pool of Some e \<Rightarrow> Some (Inl e, db)
      | None \<Rightarrow>
        (case queryErr of Some e \<Rightarrow> Some (Inl e, db)
         | None \<Rightarrow>
           (case (p_StartIP pool, p_EndIP pool) of
              (Some (V4 start), Some (V4 fin)) \<Rightarrow>
                allocate_loop uuids faults (pool_addresses (p_ID pool) db0) (p_ID pool) stackID start fin db
            | _ \<Rightarrow> None)))"

definition ActivateIPv4 :: "error \<Rightarrow> string \<Rightarrow> string \<Rightarrow> ipam_db \<Rightarrow> error \<times> ipam_db" where
  "ActivateIPv4 fault uuid stackID db = (case fault of Some e \<Rightarrow> (Some e, db)
     | None \<Rightarrow>
       let held = filter (\<lambda>al. al_stack al = stackID) (db_allocations db) in
       if held \<noteq> [] \<and> uuid \<in> fst ` set (db_dns_outbox db)
       then (Some ''UNIQUE constraint failed: dns_outbox.id'', db)
       else (None, db\<lparr>
         db_allocations := map (\<lambda>al. if al_stack al = stackID then al\<lparr>al_active := True\<rparr> else al) (db_allocations db),
         db_dns_outbox := db_dns_outbox db @ map (\<lambda>al. (uuid, al_stack al, al_address al)) held\<rparr>))"

definition ReleaseIPv4 :: "error \<Rightarrow> string \<Rightarrow> ipam_db \<Rightarrow> error \<times> ipam_db" where
  "ReleaseIPv4 fault stackID db = (case fault of Some e \<Rightarrow> (Some e, db)
     | None \<Rightarrow> (None, db\<lparr>
         db_allocations := filter (\<lambda>al. al_stack al \<noteq> stackID) (db_allocations db),
         db_runtime := map (\<lambda>(sid, r). (sid, if sid = stackID then r\<lparr>ru_stack_ip := None, ru_network_pool := None\<rparr> else r)) (db_runtime db)\<rparr>))"

section \<open>Addresses from a prefix\<close>

text \<open>The walk upward; the invalid address (\<open>None\<close>) is in no prefix.\<close>

fun addr_rank :: "addr option \<Rightarrow> nat" where
  "addr_rank None = 0"
| "addr_rank (Some (V4 a)) = Suc (unat (- 1 - a))"
| "addr_rank (Some (V6 a)) = Suc (unat (- 1 - a))"

lemma addr_rank_Next: "addr_rank (addr_Next a) < addr_rank (Some a)"
  by (cases a) (use word_step_down in auto)

function first_free :: "prefix \<Rightarrow> addr list \<Rightarrow> addr option \<Rightarrow> addr option" where
  "first_free p taken None = None"
| "first_free p taken (Some a) =
     (if \<not> Contains p a then None
      else if a \<notin> set taken then Some a
      else first_free p taken (addr_Next a))"
  by pat_completeness auto
termination
  by (relation "measure (\<lambda>(_, _, a). addr_rank a)") (use addr_rank_Next in auto)

text \<open>
  \<open>text\<close> is the prefix as the caller spells it, \<open>parsed\<close> what \<open>ParsePrefix\<close> makes of it; \<open>seen\<close> is the
  database that the (weak) query reads.
\<close>

definition Allocate ::
  "error \<Rightarrow> error \<Rightarrow> string \<Rightarrow> int \<Rightarrow> string \<Rightarrow> prefix option \<Rightarrow> string \<Rightarrow> string \<Rightarrow> ipam_db \<Rightarrow> ipam_db \<Rightarrow> (string + prefix) \<times> ipam_db" where
  "Allocate queryErr execErr uuid now text parsed stackID service seen db =
     (case parsed of None \<Rightarrow> (Inl ''ipam: parse prefix'', db)
      | Some p \<Rightarrow>
        let prefix = Masked p in
        (case queryErr of Some e \<Rightarrow> (Inl e, db)
         | None \<Rightarrow>
           let taken = map pfx_Addr (List.map_filter rs_Address (filter (\<lambda>r. rs_PrefixPool r = text) (db_reservations seen))) in
           (case first_free prefix taken (addr_Next (pfx_Addr prefix)) of
              None \<Rightarrow> (Inl ''ipam: prefix is exhausted'', db)
            | Some addr \<Rightarrow>
              let cidr = \<lparr>pfx_Addr = addr, pfx_Bits = pfx_Bits prefix\<rparr> in
              if execErr \<noteq> None \<or> list_ex (\<lambda>r. rs_ID r = uuid \<or> rs_Address r = Some cidr) (db_reservations db)
              then (Inl ''ipam: insert reservation'', db)
              else (Inr cidr, db\<lparr>db_reservations := db_reservations db @
                [\<lparr>rs_ID = uuid, rs_StackID = stackID, rs_Service = service, rs_Address = Some cidr,
                  rs_PrefixPool = text, rs_AllocatedAt = now\<rparr>]\<rparr>))))"

definition Release :: "error \<Rightarrow> string \<Rightarrow> string \<Rightarrow> ipam_db \<Rightarrow> error \<times> ipam_db" where
  "Release fault stackID service db = (case fault of Some e \<Rightarrow> (Some e, db)
     | None \<Rightarrow> (None, db\<lparr>db_reservations :=
         filter (\<lambda>r. \<not> (rs_StackID r = stackID \<and> rs_Service r = service)) (db_reservations db)\<rparr>))"

definition ReleaseAll :: "error \<Rightarrow> string \<Rightarrow> ipam_db \<Rightarrow> error \<times> ipam_db" where
  "ReleaseAll fault stackID db = (case fault of Some e \<Rightarrow> (Some e, db)
     | None \<Rightarrow> (None, db\<lparr>db_reservations := filter (\<lambda>r. rs_StackID r \<noteq> stackID) (db_reservations db)\<rparr>))"

definition ListAllocations :: "error \<Rightarrow> string \<Rightarrow> ipam_db \<Rightarrow> string + reservation list" where
  "ListAllocations fault stackID db = (case fault of Some e \<Rightarrow> Inl ''ipam: list allocations''
     | None \<Rightarrow> Inr (sort_key rs_Service (filter (\<lambda>r. rs_StackID r = stackID) (db_reservations db))))"

text \<open>
  The requests of the API on reservations. \<open>lookupErr\<close> stands for the lookups of stack, pool and rows, \<open>prefix\<close> is the
  prefix of the pool, \<open>requested\<close> the address that the body asks for (parsed), \<open>seen\<close> the database that was queried and
  \<open>exists\<close> whether the pool is still there at the insert.
\<close>

definition chosen_address :: "prefix option \<Rightarrow> addr option option \<Rightarrow> addr list \<Rightarrow> string + addr option" where
  "chosen_address prefix requested taken = (case requested of
     Some None \<Rightarrow> Inl ''address must be within pool''
   | Some (Some a) \<Rightarrow>
       (case prefix of None \<Rightarrow> Inl ''address must be within pool''
        | Some p \<Rightarrow> if Contains p a then Inr (if a \<in> set taken then None else Some a) else Inl ''address must be within pool'')
   | None \<Rightarrow> Inr (case prefix of None \<Rightarrow> None | Some p \<Rightarrow> first_free p taken (Some (pfx_Addr (Masked p)))))"

definition handleCreateAllocation ::
  "error \<Rightarrow> error \<Rightarrow> bool \<Rightarrow> string \<Rightarrow> int \<Rightarrow> string \<Rightarrow> string \<Rightarrow> string \<Rightarrow> prefix option \<Rightarrow> addr option option \<Rightarrow> ipam_db \<Rightarrow> ipam_db
     \<Rightarrow> (string + prefix) \<times> ipam_db" where
  "handleCreateAllocation lookupErr execErr exists uuid now stackID service pool prefix requested seen db =
     (if stackID = [] \<or> service = [] \<or> pool = [] then (Inl ''stack_id, service and prefix_pool are required'', db)
      else case lookupErr of Some e \<Rightarrow> (Inl e, db)
      | None \<Rightarrow>
        (case (chosen_address prefix requested (map pfx_Addr (List.map_filter rs_Address (db_reservations seen))), prefix) of
           (Inl e, _) \<Rightarrow> (Inl e, db)
         | (Inr (Some a), Some p) \<Rightarrow>
             let cidr = \<lparr>pfx_Addr = a, pfx_Bits = pfx_Bits p\<rparr> in
             if execErr \<noteq> None \<or> list_ex (\<lambda>r. rs_ID r = uuid \<or> rs_Address r = Some cidr) (db_reservations db) then (Inl ''insert failed'', db)
             else if \<not> exists then (Inl ''prefix pool was removed'', db)
             else (Inr cidr, db\<lparr>db_reservations := db_reservations db @
               [\<lparr>rs_ID = uuid, rs_StackID = stackID, rs_Service = service, rs_Address = Some cidr, rs_PrefixPool = pool, rs_AllocatedAt = now\<rparr>]\<rparr>)
         | _ \<Rightarrow> (Inl ''address reserved or pool exhausted'', db)))"

definition handleDeleteAllocation :: "error \<Rightarrow> string \<Rightarrow> ipam_db \<Rightarrow> error \<times> ipam_db" where
  "handleDeleteAllocation fault i db = (case fault of Some e \<Rightarrow> (Some e, db)
     | None \<Rightarrow> (if list_ex (\<lambda>r. rs_ID r = i) (db_reservations db) then None
                else if list_ex (\<lambda>al. al_id al = i) (db_allocations db)
                then Some ''managed workload addresses must be released through stack deletion'' else Some ''allocation not found'',
                db\<lparr>db_reservations := filter (\<lambda>r. rs_ID r \<noteq> i) (db_reservations db)\<rparr>))"

section \<open>Hosts\<close>

text \<open>What the checks read of \<open>hostnetwork.Status\<close>; a gateway is the parse of its text with /32.\<close>

record host_status =
  hs_Change :: bool
  hs_PrimaryAddresses :: "prefix option list"
  hs_Gateways :: "prefix option list"

record net_service =
  sv_StackID :: string
  sv_PoolID :: string
  sv_Address :: "addr option"
  sv_Bits :: nat

definition Compatible :: "prefix option \<Rightarrow> prefix option list \<Rightarrow> bool" where
  "Compatible cidr addresses = (case cidr of None \<Rightarrow> False
     | Some p \<Rightarrow> list_ex (\<lambda>v. case v of None \<Rightarrow> False
         | Some host \<Rightarrow> Is4 (pfx_Addr host) \<and> Masked host = Masked p) addresses)"

definition outsideRange :: "prefix option list \<Rightarrow> pool \<Rightarrow> bool" where
  "outsideRange addresses pool = (case (p_StartIP pool, p_EndIP pool) of
     (Some start, Some fin) \<Rightarrow> list_all (\<lambda>v. case v of None \<Rightarrow> False
       | Some p \<Rightarrow> \<not> (Is4 (pfx_Addr p) \<and> addr_le start (pfx_Addr p) \<and> addr_le (pfx_Addr p) fin)) addresses
   | _ \<Rightarrow> False)"

definition ValidateHostRange :: "pool \<Rightarrow> prefix option list \<Rightarrow> prefix option list \<Rightarrow> error" where
  "ValidateHostRange pool addresses gateways =
     (if \<not> outsideRange addresses pool then Some ''ipam: pool range includes a host LAN address''
      else if list_ex (\<lambda>g. \<not> outsideRange [g] pool) gateways then Some ''ipam: pool range includes a gateway''
      else None)"

definition Eligible :: "(string \<Rightarrow> string + host_status) \<Rightarrow> pool \<Rightarrow> string \<Rightarrow> error" where
  "Eligible hosts pool node =
     (if \<not> Member pool node then Some ''ipam: node is not an eligible member of pool''
      else case hosts node of Inl e \<Rightarrow> Some e
      | Inr status \<Rightarrow>
        if hs_Change status then Some ''ipam: node has an outstanding network change''
        else if \<not> Compatible (p_CIDR pool) (hs_PrimaryAddresses status)
        then Some ''ipam: pool does not match node LAN subnet''
        else ValidateHostRange pool (hs_PrimaryAddresses status) (hs_Gateways status))"

fun hosts_loop :: "(string \<Rightarrow> error) \<Rightarrow> (string \<Rightarrow> string + host_status) \<Rightarrow> pool \<Rightarrow> string list \<Rightarrow> error" where
  "hosts_loop getNode hosts pool [] = None"
| "hosts_loop getNode hosts pool (node # nodes) =
     (if getNode node \<noteq> None then getNode node
      else if Eligible hosts pool node \<noteq> None then Eligible hosts pool node
      else hosts_loop getNode hosts pool nodes)"

definition ValidateHosts :: "(string \<Rightarrow> error) \<Rightarrow> (string \<Rightarrow> string + host_status) \<Rightarrow> pool \<Rightarrow> error" where
  "ValidateHosts getNode hosts pool = (case ValidateMembers (p_NodeIDs pool) of Some e \<Rightarrow> Some e
     | None \<Rightarrow> hosts_loop getNode hosts (pool\<lparr>p_MembershipResolved := True\<rparr>) (p_NodeIDs pool))"

definition StackService :: "error \<Rightarrow> string \<Rightarrow> ipam_db \<Rightarrow> string + net_service option" where
  "StackService fault stackID db = (case fault of Some e \<Rightarrow> Inl e
     | None \<Rightarrow>
       (case [(al, p). al \<leftarrow> db_allocations db, al_stack al = stackID, p \<leftarrow> db_pools db, p_ID p = al_pool al] of
          [] \<Rightarrow> Inr None
        | (al, p) # _ \<Rightarrow> (case p_CIDR p of None \<Rightarrow> Inl ''netip.ParsePrefix''
            | Some prefix \<Rightarrow> Inr (Some \<lparr>sv_StackID = stackID, sv_PoolID = al_pool al,
                sv_Address = al_address al, sv_Bits = pfx_Bits prefix\<rparr>))))"

definition CheckStackDestination ::
  "error \<Rightarrow> error \<Rightarrow> (string \<Rightarrow> string + host_status) \<Rightarrow> string \<Rightarrow> string \<Rightarrow> ipam_db \<Rightarrow> error" where
  "CheckStackDestination f1 f2 hosts stackID node db = (case StackService f1 stackID db of
     Inl e \<Rightarrow> Some e
   | Inr None \<Rightarrow> None
   | Inr (Some service) \<Rightarrow> (case ListPools f2 db of Inl e \<Rightarrow> Some e
     | Inr pools \<Rightarrow> (case filter (\<lambda>p. p_ID p = sv_PoolID service) pools of
         [] \<Rightarrow> Some ''ipam: allocation pool missing''
       | pool # _ \<Rightarrow> Eligible hosts pool node)))"

text \<open>
  \<open>RestoreNodeServices\<close> sends the host the services the cluster says it owns: the result is the
  error, or the list handed to \<open>net.service.sync\<close>. \<open>faults\<close> gives the database's answers to the
  three queries made for a stack.
\<close>

fun restore_loop ::
  "(string \<Rightarrow> nat \<Rightarrow> error) \<Rightarrow> (string \<Rightarrow> string + host_status) \<Rightarrow> string \<Rightarrow> ipam_db \<Rightarrow> string list \<Rightarrow> string + net_service list" where
  "restore_loop faults hosts node db [] = Inr []"
| "restore_loop faults hosts node db (sid # sids) =
     (case StackService (faults sid 0) sid db of Inl e \<Rightarrow> Inl e
      | Inr None \<Rightarrow> restore_loop faults hosts node db sids
      | Inr (Some service) \<Rightarrow>
        (case CheckStackDestination (faults sid 1) (faults sid 2) hosts sid node db of Some e \<Rightarrow> Inl e
         | None \<Rightarrow> map_sum id (Cons service) (restore_loop faults hosts node db sids)))"

definition owned_stacks :: "string \<Rightarrow> ipam_db \<Rightarrow> string list" where
  "owned_stacks node db = [al_stack al. al \<leftarrow> db_allocations db, (sid, r) \<leftarrow> db_runtime db,
     sid = al_stack al \<and> ru_active_node r = node \<and> \<not> ru_deleted r]"

definition RestoreNodeServices ::
  "error \<Rightarrow> (string \<Rightarrow> nat \<Rightarrow> error) \<Rightarrow> (string \<Rightarrow> string + host_status) \<Rightarrow> string \<Rightarrow> ipam_db \<Rightarrow> string + net_service list" where
  "RestoreNodeServices fault faults hosts node db = (case fault of Some e \<Rightarrow> Inl e
     | None \<Rightarrow> restore_loop faults hosts node db (owned_stacks node db))"

fun SelectPool :: "pool list \<Rightarrow> string \<Rightarrow> string \<Rightarrow> string \<Rightarrow> string + pool" where
  "SelectPool [] name defaultID node = Inl ''ipam: no eligible named or host-default network pool''"
| "SelectPool (pool # pools) name defaultID node =
     (if (name \<noteq> [] \<and> p_Name pool = name) \<or> (name = [] \<and> defaultID \<noteq> [] \<and> p_ID pool = defaultID)
      then if \<not> Member pool node then Inl ''ipam: selected pool is not eligible for node'' else Inr pool
      else SelectPool pools name defaultID node)"

section \<open>Migration of legacy pools\<close>

text \<open>
  \<open>MigratePools\<close> infers the members of a pool whose membership was never declared: every host
  whose LAN is the pool's subnet, and every host that runs one of its stacks. One unreachable
  host, or one active host outside the subnet, leaves the pool unresolved. \<open>setDefault\<close> is the
  host's answer to \<open>net.settings.default.migrate\<close>.
\<close>

fun infer_members ::
  "(string \<Rightarrow> string + host_status) \<Rightarrow> prefix option \<Rightarrow> string list \<Rightarrow> string list \<times> bool \<Rightarrow> string list \<times> bool" where
  "infer_members hosts cidr [] (members, resolved) = (members, resolved)"
| "infer_members hosts cidr (node # nodes) (members, resolved) =
     (case hosts node of Inl _ \<Rightarrow> infer_members hosts cidr nodes (members, False)
      | Inr status \<Rightarrow>
        if hs_Change status then infer_members hosts cidr nodes (members, False)
        else if Compatible cidr (hs_PrimaryAddresses status)
        then infer_members hosts cidr nodes (members @ [node], resolved)
        else infer_members hosts cidr nodes (members, resolved))"

fun add_active :: "string list \<Rightarrow> string list \<times> bool \<Rightarrow> string list \<times> bool" where
  "add_active [] (members, resolved) = (members, resolved)"
| "add_active (node # nodes) (members, resolved) =
     (if containsNode members node then add_active nodes (members, resolved)
      else add_active nodes (members @ [node], False))"

definition migrated_members ::
  "(string \<Rightarrow> string + host_status) \<Rightarrow> string list \<Rightarrow> pool \<Rightarrow> string list \<Rightarrow> string list \<times> bool" where
  "migrated_members hosts nodes pool active =
     (let start = (if p_MembershipResolved pool then (p_NodeIDs pool, True)
                   else infer_members hosts (p_CIDR pool) nodes ([], True));
          (members, resolved) = add_active active start
      in (members, resolved \<and> members \<noteq> []))"

text \<open>The two transactions of the migration of a pool.\<close>

definition set_members :: "string \<Rightarrow> string list \<Rightarrow> bool \<Rightarrow> ipam_db \<Rightarrow> ipam_db" where
  "set_members pid members resolved db =
     db\<lparr>db_members := filter (\<lambda>pn. fst pn \<noteq> pid) (db_members db) @ map (\<lambda>n. (pid, n)) (remdups members),
        db_scope := (db_scope db)(pid \<mapsto> resolved)\<rparr>"

definition clear_default :: "string \<Rightarrow> ipam_db \<Rightarrow> ipam_db" where
  "clear_default pid db = db\<lparr>db_pools := map (\<lambda>r. if p_ID r = pid then r\<lparr>p_Default := False\<rparr> else r) (db_pools db)\<rparr>"

fun first_error :: "('a \<Rightarrow> error) \<Rightarrow> 'a list \<Rightarrow> error" where
  "first_error f [] = None"
| "first_error f (x # xs) = (case f x of Some e \<Rightarrow> Some e | None \<Rightarrow> first_error f xs)"

fun migrate_loop ::
  "(string \<Rightarrow> nat \<Rightarrow> error) \<Rightarrow> (string \<Rightarrow> string + host_status) \<Rightarrow> (string \<Rightarrow> string \<Rightarrow> error) \<Rightarrow> string list
     \<Rightarrow> pool list \<Rightarrow> ipam_db \<Rightarrow> error \<times> ipam_db" where
  "migrate_loop faults hosts setDefault nodes [] db = (None, db)"
| "migrate_loop faults hosts setDefault nodes (pool # pools) db =
     (if p_MembershipResolved pool \<and> \<not> p_Default pool then migrate_loop faults hosts setDefault nodes pools db
      else case faults (p_ID pool) 0 of Some e \<Rightarrow> (Some e, db)
      | None \<Rightarrow>
        let (members, resolved) = migrated_members hosts nodes pool (active_nodes db (p_ID pool)) in
        (case faults (p_ID pool) 1 of Some e \<Rightarrow> (Some e, db)
         | None \<Rightarrow>
           let db1 = set_members (p_ID pool) members resolved db in
           if p_Default pool \<and> resolved
           then case first_error (setDefault (p_ID pool)) members of Some e \<Rightarrow> (Some e, db1)
             | None \<Rightarrow>
               (case faults (p_ID pool) 2 of Some e \<Rightarrow> (Some e, db1)
                | None \<Rightarrow> migrate_loop faults hosts setDefault nodes pools (clear_default (p_ID pool) db1))
           else migrate_loop faults hosts setDefault nodes pools db1))"

definition MigratePools ::
  "error \<Rightarrow> (string \<Rightarrow> nat \<Rightarrow> error) \<Rightarrow> (string \<Rightarrow> string + host_status) \<Rightarrow> (string \<Rightarrow> string \<Rightarrow> error) \<Rightarrow> string + string list
     \<Rightarrow> ipam_db \<Rightarrow> error \<times> ipam_db" where
  "MigratePools listErr faults hosts setDefault listNodes db = (case ListPools listErr db of
     Inl e \<Rightarrow> (Some e, db)
   | Inr pools \<Rightarrow> (case listNodes of Inl e \<Rightarrow> (Some e, db)
     | Inr nodes \<Rightarrow> migrate_loop faults hosts setDefault nodes pools db))"

section \<open>Ranges inside a prefix\<close>

lemma masked_eq_iff: "a AND NOT (mask k) = b AND NOT (mask k) \<longleftrightarrow> unat a div 2 ^ k = unat b div 2 ^ k"
  for a b :: "'a::len word"
proof -
  have d: "drop_bit k (x AND NOT (mask k)) = drop_bit k x" for x :: "'a word"
    by (rule bit_word_eqI) (auto simp: bit_simps dest: bit_imp_le_length)
  have u: "x AND NOT (mask k) = push_bit k (drop_bit k x)" for x :: "'a word"
    by (rule bit_word_eqI) (auto simp: bit_simps)
  have "a AND NOT (mask k) = b AND NOT (mask k) \<longleftrightarrow> drop_bit k a = drop_bit k b"
    using d u by metis
  also have "\<dots> \<longleftrightarrow> unat (drop_bit k a) = unat (drop_bit k b)"
    by (rule word_unat_eq_iff)
  finally show ?thesis unfolding unat_drop_bit_eq by (simp only: drop_bit_eq_div)
qed

lemma masked_convex:
  fixes a c b :: "'a::len word"
  assumes "a AND NOT (mask k) = n" "b AND NOT (mask k) = n" "a \<le> c" "c \<le> b"
  shows "c AND NOT (mask k) = n"
proof -
  have "unat a div 2 ^ k = unat b div 2 ^ k" using assms(1,2) masked_eq_iff by metis
  moreover have "unat a div 2 ^ k \<le> unat c div 2 ^ k" "unat c div 2 ^ k \<le> unat b div 2 ^ k"
    using assms(3,4) by (simp_all add: div_le_mono word_le_nat_alt)
  ultimately have "unat c div 2 ^ k = unat a div 2 ^ k" by simp
  then show ?thesis using assms(1) masked_eq_iff by metis
qed

lemma ones_eq_mask: "2 ^ k - 1 = (mask k :: 'a::len word)"
  by (simp add: mask_eq_exp_minus_1)

lemma masked_le_last:
  fixes a n :: "'a::len word"
  assumes "a AND NOT (mask k) = n AND NOT (mask k)"
  shows "a \<le> n OR mask k"
proof -
  have "(a AND NOT (mask k)) OR mask k = (n AND NOT (mask k)) OR mask k" using assms by simp
  then have "a OR mask k = n OR mask k" by (simp add: bit_eq_iff bit_simps) metis
  then show ?thesis by (metis le_word_or2 word_bw_comms(2))
qed

lemma ValidatePoolE:
  assumes "ValidatePool pool = None"
  obtains n k s e where "p_CIDR pool = Some \<lparr>pfx_Addr = V4 n, pfx_Bits = k\<rparr>"
    "p_StartIP pool = Some (V4 s)" "p_EndIP pool = Some (V4 e)" "s \<le> e"
    "n AND NOT (mask (32 - k)) = n" "s AND NOT (mask (32 - k)) = n" "e AND NOT (mask (32 - k)) = n"
    "s \<noteq> n" "e \<noteq> n OR mask (32 - k)" "p_Name pool \<noteq> []"
proof -
  obtain n0 k where p: "p_CIDR pool = Some \<lparr>pfx_Addr = n0, pfx_Bits = k\<rparr>"
    using assms by (cases "p_CIDR pool"; cases "the (p_CIDR pool)") (auto simp: ValidatePool_def)
  obtain n where n: "n0 = V4 n" using assms p
    by (cases n0) (auto simp: ValidatePool_def split: if_splits)
  obtain s e where se: "p_StartIP pool = Some (V4 s)" "p_EndIP pool = Some (V4 e)"
    using assms p n by (auto simp: ValidatePool_def split: if_splits option.splits elim!: Is4.elims)
  show thesis
    by (rule that [of n k s e])
       (use assms p n se in \<open>auto simp: ValidatePool_def Masked_def Contains_def ones_eq_mask split: if_splits\<close>)
qed

lemma valid_range_inside:
  assumes "ValidatePool pool = None" "p_CIDR pool = Some p" "p_StartIP pool = Some (V4 s)" "p_EndIP pool = Some (V4 e)"
    "s \<le> a" "a \<le> e"
  shows "Contains p (V4 a)" "V4 a \<noteq> pfx_Addr p" "V4 a \<noteq> lastAddress p" "a \<noteq> - 1"
proof -
  obtain n k where p: "p = \<lparr>pfx_Addr = V4 n, pfx_Bits = k\<rparr>"
    and c: "n AND NOT (mask (32 - k)) = n" "s AND NOT (mask (32 - k)) = n" "e AND NOT (mask (32 - k)) = n"
    and ne: "s \<noteq> n" "e \<noteq> n OR mask (32 - k)"
    by (rule ValidatePoolE [OF assms(1)]) (use assms(2-4) in simp)
  have a: "a AND NOT (mask (32 - k)) = n" by (rule masked_convex [OF c(2,3) assms(5,6)])
  then show "Contains p (V4 a)" by (simp add: p Contains_def c)
  have "n \<le> s" using c(2) by (metis word_and_le2)
  then show "V4 a \<noteq> pfx_Addr p" using ne(1) assms(5) by (auto simp: p)
  have "e \<le> n OR mask (32 - k)" using masked_le_last [of e "32 - k" n] c by simp
  then have *: "e < n OR mask (32 - k)" using ne(2) by simp
  then show "V4 a \<noteq> lastAddress p" using assms(6) by (auto simp: p ones_eq_mask)
  show "a \<noteq> - 1"
  proof
    assume "a = - 1"
    with * assms(6) have "- 1 < n OR mask (32 - k)" by (simp only: order.strict_trans1)
    then show False using word_n1_ge [of "n OR mask (32 - k)"] by (simp only: not_less)
  qed
qed
section \<open>Allocation\<close>

abbreviation alloc_row :: "(32 word \<Rightarrow> string) \<Rightarrow> string \<Rightarrow> string \<Rightarrow> 32 word \<Rightarrow> allocation" where
  "alloc_row uuids pid sid a \<equiv>
     \<lparr>al_id = uuids a, al_pool = pid, al_stack = sid, al_address = Some (V4 a), al_active = False\<rparr>"

lemma word_between_step: "a \<noteq> - 1 \<Longrightarrow> a + 1 \<le> (b::'a::len word) \<longleftrightarrow> a < b"
proof -
  assume "a \<noteq> - 1"
  then have "1 + a \<noteq> 0" by (metis add_eq_0_iff)
  then have "unat (a + 1) = Suc (unat a)" using unatSuc [of a] by (simp add: add.commute)
  then show ?thesis by (simp add: word_le_nat_alt word_less_nat_alt Suc_le_eq)
qed

lemma allocate_loop_sound:
  "allocate_loop uuids faults taken pid sid a fin db = Some (r, db') \<Longrightarrow>
     (case r of Inl e \<Rightarrow> e = ''ipam: pool exhausted'' \<and> db' = db
      | Inr x \<Rightarrow> \<exists>b. x = V4 b \<and> a \<le> b \<and> b \<le> fin \<and> V4 b \<notin> set taken \<and> insert_allocation (alloc_row uuids pid sid b) db = Some db')"
proof (induction uuids faults taken pid sid a fin db rule: allocate_loop.induct)
  case (1 uuids faults taken pid sid a fin db)
  show ?case
  proof (cases "a \<le> fin \<and> (V4 a \<in> set taken \<or> faults a \<noteq> None \<or> insert_allocation (alloc_row uuids pid sid a) db = None)")
    case True
    then have ne: "a \<noteq> - 1" and eq: "allocate_loop uuids faults taken pid sid (a + 1) fin db = Some (r, db')"
      using "1.prems" by (auto simp: allocate_loop.simps [of _ _ _ _ _ a] split: if_splits)
    have "a \<le> b" if "a + 1 \<le> b" for b using that word_between_step [OF ne] by simp
    then show ?thesis using "1.IH" [OF _ _ ne eq] True by (auto split: sum.splits)
  next
    case False
    then show ?thesis using "1.prems"
      by (auto simp: allocate_loop.simps [of _ _ _ _ _ a] split: if_splits)
  qed
qed

lemma allocate_loop_returns:
  "fin \<noteq> - 1 \<Longrightarrow> allocate_loop uuids faults taken pid sid a fin db \<noteq> None"
proof (induction uuids faults taken pid sid a fin db rule: allocate_loop.induct)
  case (1 uuids faults taken pid sid a fin db)
  have "a \<noteq> - 1" if "a \<le> fin" using that "1.prems" by (metis word_order.extremum_uniqueI)
  then show ?case using "1.IH" "1.prems" by (auto simp: allocate_loop.simps [of _ _ _ _ _ a])
qed

lemma insert_allocation_None:
  assumes "\<forall>al \<in> set (db_allocations db). al_stack al \<noteq> sid" "\<forall>a. \<forall>al \<in> set (db_allocations db). al_id al \<noteq> uuids a"
  shows "insert_allocation (alloc_row uuids pid sid a) db = None \<longleftrightarrow> V4 a \<in> set (pool_addresses pid db)"
  using assms by (force simp: insert_allocation_def list_ex_iff pool_addresses_def List.map_filter_def)

lemma allocate_loop_first:
  assumes "\<forall>al \<in> set (db_allocations db). al_stack al \<noteq> sid" "\<forall>a. \<forall>al \<in> set (db_allocations db). al_id al \<noteq> uuids a"
  shows "allocate_loop uuids (\<lambda>_. None) (pool_addresses pid db) pid sid a fin db = Some (r, db') \<Longrightarrow>
     (\<forall>b. a \<le> b \<and> b \<le> fin \<and> (\<forall>c. r = Inr (V4 c) \<longrightarrow> b < c) \<longrightarrow> V4 b \<in> set (pool_addresses pid db))"
  using assms
proof (induction uuids "\<lambda>_::32 word. None :: error" "pool_addresses pid db" pid sid a fin db rule: allocate_loop.induct)
  case (1 uuids pid sid a fin db)
  note ins = insert_allocation_None [OF "1.prems"(2,3), where pid = pid and a = a]
  show ?case
  proof (cases "a \<le> fin \<and> V4 a \<in> set (pool_addresses pid db)")
    case True
    then have ne: "a \<noteq> - 1" and eq: "allocate_loop uuids (\<lambda>_. None) (pool_addresses pid db) pid sid (a + 1) fin db = Some (r, db')"
      using "1.prems"(1) by (auto simp: allocate_loop.simps [of _ _ _ _ _ a] split: if_splits)
    have IH: "\<forall>b. a + 1 \<le> b \<and> b \<le> fin \<and> (\<forall>c. r = Inr (V4 c) \<longrightarrow> b < c) \<longrightarrow> V4 b \<in> set (pool_addresses pid db)"
      by (rule "1.hyps") (simp_all add: True ne eq "1.prems"(2,3))
    show ?thesis
    proof (intro allI impI)
      fix b
      assume b: "a \<le> b \<and> b \<le> fin \<and> (\<forall>c. r = Inr (V4 c) \<longrightarrow> b < c)"
      show "V4 b \<in> set (pool_addresses pid db)"
      proof (cases "b = a")
        case False
        then have "a + 1 \<le> b" using b word_between_step [OF ne, of b] by (auto simp: less_le)
        then show ?thesis using IH b by simp
      qed (simp add: True)
    qed
  next
    case False
    then show ?thesis using "1.prems"(1) ins
      by (auto simp: allocate_loop.simps [of _ _ _ _ _ a] split: if_splits)
  qed
qed

lemma AllocateIPv4_run:
  assumes "ValidatePool pool = None" "p_MembershipResolved pool" "p_NodeIDs pool \<noteq> []"
    "p_StartIP pool = Some (V4 s)" "p_EndIP pool = Some (V4 e)"
  shows "AllocateIPv4 None uuids faults pool sid db0 db =
    allocate_loop uuids faults (pool_addresses (p_ID pool) db0) (p_ID pool) sid s e db"
  using assms by (simp add: AllocateIPv4_def)

lemma insert_allocation_rows:
  "insert_allocation al db = Some db' \<Longrightarrow> db' = db\<lparr>db_allocations := db_allocations db @ [al]\<rparr>"
  by (simp add: insert_allocation_def split: if_splits)

text \<open>
  C21. On a valid, resolved pool, for a stack without an address, with a database that answers every
  request, a query that reads the current rows (nobody writes between it and the inserts) and new UUIDs,
  \<open>AllocateIPv4\<close> returns. The stack gets the lowest free address of the range, which lies in the pool's
  subnet and is neither its network nor its broadcast address, and the row is stored; under these
  conditions \<open>pool exhausted\<close> is reported only when every address of the range is allocated.\<close>

theorem allocation_is_first_free:
  assumes "ValidatePool pool = None" "p_MembershipResolved pool" "p_NodeIDs pool \<noteq> []"
    and "p_CIDR pool = Some p" "p_StartIP pool = Some (V4 s)" "p_EndIP pool = Some (V4 e)"
    and "\<forall>al \<in> set (db_allocations db). al_stack al \<noteq> sid"
    and "\<forall>a. \<forall>al \<in> set (db_allocations db). al_id al \<noteq> uuids a"
  shows "\<exists>r db'. AllocateIPv4 None uuids (\<lambda>_. None) pool sid db db = Some (r, db') \<and>
    (case r of
       Inl msg \<Rightarrow> db' = db \<and> (\<forall>a. s \<le> a \<and> a \<le> e \<longrightarrow> V4 a \<in> set (pool_addresses (p_ID pool) db))
     | Inr x \<Rightarrow> \<exists>a. x = V4 a \<and> s \<le> a \<and> a \<le> e \<and> Contains p x \<and> x \<noteq> pfx_Addr p \<and> x \<noteq> lastAddress p \<and>
         x \<notin> set (pool_addresses (p_ID pool) db) \<and>
         (\<forall>b. s \<le> b \<and> b < a \<longrightarrow> V4 b \<in> set (pool_addresses (p_ID pool) db)) \<and>
         db' = db\<lparr>db_allocations := db_allocations db @ [alloc_row uuids (p_ID pool) sid a]\<rparr>)"
proof -
  note inside = valid_range_inside [OF assms(1,4,5,6)]
  have se: "s \<le> e" by (rule ValidatePoolE [OF assms(1)]) (use assms(5,6) in simp)
  obtain r db' where run: "allocate_loop uuids (\<lambda>_. None) (pool_addresses (p_ID pool) db) (p_ID pool) sid s e db = Some (r, db')"
    using allocate_loop_returns [OF inside(4) [OF se order.refl]] by fastforce
  note first = allocate_loop_first [OF assms(7,8) run]
  show ?thesis
  proof (intro exI conjI)
    show "AllocateIPv4 None uuids (\<lambda>_. None) pool sid db db = Some (r, db')"
      using AllocateIPv4_run assms run by simp
    show "case r of
       Inl msg \<Rightarrow> db' = db \<and> (\<forall>a. s \<le> a \<and> a \<le> e \<longrightarrow> V4 a \<in> set (pool_addresses (p_ID pool) db))
     | Inr x \<Rightarrow> \<exists>a. x = V4 a \<and> s \<le> a \<and> a \<le> e \<and> Contains p x \<and> x \<noteq> pfx_Addr p \<and> x \<noteq> lastAddress p \<and>
         x \<notin> set (pool_addresses (p_ID pool) db) \<and>
         (\<forall>b. s \<le> b \<and> b < a \<longrightarrow> V4 b \<in> set (pool_addresses (p_ID pool) db)) \<and>
         db' = db\<lparr>db_allocations := db_allocations db @ [alloc_row uuids (p_ID pool) sid a]\<rparr>"
    proof (cases r)
      case (Inl msg)
      then show ?thesis using allocate_loop_sound [OF run] first by simp
    next
      case (Inr x)
      then obtain a where a: "x = V4 a" "s \<le> a" "a \<le> e" "V4 a \<notin> set (pool_addresses (p_ID pool) db)"
        "insert_allocation (alloc_row uuids (p_ID pool) sid a) db = Some db'"
        using allocate_loop_sound [OF run] by auto
      have "\<forall>b. s \<le> b \<and> b < a \<longrightarrow> V4 b \<in> set (pool_addresses (p_ID pool) db)"
        using first Inr a(1,3) by (metis addr.inject(1) less_le_not_le order.trans sum.inject(2))
      then show ?thesis using Inr a inside [OF a(2,3)] insert_allocation_rows [OF a(5)] by simp
    qed
  qed
qed

text \<open>
  C38. A stack that already holds an address never gets another one: whatever the pool's state and
  the query's answer, \<open>AllocateIPv4\<close> tries every free address, each insert fails on the stack's
  unique key, and the caller is told that the pool is exhausted.\<close>

theorem second_allocation_reports_exhausted:
  assumes "ValidatePool pool = None" "p_MembershipResolved pool" "p_NodeIDs pool \<noteq> []"
    and "al \<in> set (db_allocations db)" "al_stack al = sid"
  shows "AllocateIPv4 None uuids faults pool sid db0 db = Some (Inl ''ipam: pool exhausted'', db)"
proof -
  obtain p s e where p: "p_CIDR pool = Some p" "p_StartIP pool = Some (V4 s)" "p_EndIP pool = Some (V4 e)" and se: "s \<le> e"
    by (rule ValidatePoolE [OF assms(1)])
  obtain r db' where run: "allocate_loop uuids faults (pool_addresses (p_ID pool) db0) (p_ID pool) sid s e db = Some (r, db')"
    using allocate_loop_returns [OF valid_range_inside(4) [OF assms(1) p se order.refl]] by fastforce
  have "insert_allocation (alloc_row uuids (p_ID pool) sid a) db = None" for a
    using assms(4,5) by (auto simp: insert_allocation_def list_ex_iff)
  then have "r = Inl ''ipam: pool exhausted'' \<and> db' = db"
    using allocate_loop_sound [OF run] by (cases r) auto
  then show ?thesis using AllocateIPv4_run [OF assms(1-3) p(2,3)] run by simp
qed
section \<open>The database under every operation\<close>

datatype ipam_op =
    OpSavePool "nat \<Rightarrow> error" string int pool "nat \<Rightarrow> ipam_db"
  | OpSaveNodePool "nat \<Rightarrow> error" string int pool string "nat \<Rightarrow> ipam_db"
  | OpDeletePool error error string ipam_db
  | OpAllocateIPv4 error "32 word \<Rightarrow> string" "32 word \<Rightarrow> error" pool string ipam_db
  | OpActivateIPv4 error string string
  | OpReleaseIPv4 error string
  | OpAllocate error error string int string "prefix option" string string ipam_db
  | OpRelease error string string
  | OpReleaseAll error string
  | OpCreateAllocation error error bool string int string string string "prefix option" "addr option option" ipam_db
  | OpDeleteAllocation error string
  | OpMigrateMembers string "string list" bool
  | OpMigrateDefault string

text \<open>
  One operation of any control process; the databases that the queries of the operation saw are
  part of the operation, so they may be arbitrarily old. The migration writes several times: each of
  its transactions is a step, with whatever members it computed. (The schema migrations at startup are left out.)
\<close>

fun ipam_step :: "ipam_op \<Rightarrow> ipam_db \<Rightarrow> ipam_db" where
  "ipam_step (OpSavePool faults fresh now pool seen) db = snd (SavePool faults fresh now pool seen db)"
| "ipam_step (OpSaveNodePool faults fresh now pool node seen) db = snd (SaveNodePool faults fresh now pool node seen db)"
| "ipam_step (OpDeletePool e1 e2 pid db0) db = snd (DeletePool e1 e2 pid db0 db)"
| "ipam_step (OpAllocateIPv4 e uuids faults pool sid db0) db =
     (case AllocateIPv4 e uuids faults pool sid db0 db of None \<Rightarrow> db | Some (_, db') \<Rightarrow> db')"
| "ipam_step (OpActivateIPv4 e uuid sid) db = snd (ActivateIPv4 e uuid sid db)"
| "ipam_step (OpReleaseIPv4 e sid) db = snd (ReleaseIPv4 e sid db)"
| "ipam_step (OpAllocate e1 e2 uuid now text parsed sid service seen) db = snd (Allocate e1 e2 uuid now text parsed sid service seen db)"
| "ipam_step (OpRelease e sid service) db = snd (Release e sid service db)"
| "ipam_step (OpReleaseAll e sid) db = snd (ReleaseAll e sid db)"
| "ipam_step (OpCreateAllocation e1 e2 exists uuid now sid service pool prefix requested seen) db =
     snd (handleCreateAllocation e1 e2 exists uuid now sid service pool prefix requested seen db)"
| "ipam_step (OpDeleteAllocation e i) db = snd (handleDeleteAllocation e i db)"
| "ipam_step (OpMigrateMembers pid members resolved) db = set_members pid members resolved db"
| "ipam_step (OpMigrateDefault pid) db = clear_default pid db"

text \<open>A migration is a sequence of its transactions.\<close>

lemma migrate_loop_steps: "\<exists>ops. snd (migrate_loop faults hosts setDefault nodes pools db) = runs ipam_step ops db"
proof (induction pools arbitrary: db)
  case Nil
  show ?case by (intro exI [of _ "[]"]) simp
next
  case (Cons pool pools)
  let ?loop = "\<lambda>db. snd (migrate_loop faults hosts setDefault nodes pools db)"
  obtain members resolved where m: "migrated_members hosts nodes pool (active_nodes db (p_ID pool)) = (members, resolved)" by fastforce
  let ?db1 = "set_members (p_ID pool) members resolved db" and ?set = "OpMigrateMembers (p_ID pool) members resolved"
  have one: "\<exists>ops. ?db1 = runs ipam_step ops db" by (intro exI [of _ "[?set]"]) simp
  have two: "\<exists>ops. ?loop ?db1 = runs ipam_step ops db"
  proof -
    obtain ops where "?loop ?db1 = runs ipam_step ops ?db1" using Cons.IH by blast
    then show ?thesis by (intro exI [of _ "?set # ops"]) simp
  qed
  have three: "\<exists>ops. ?loop (clear_default (p_ID pool) ?db1) = runs ipam_step ops db"
  proof -
    obtain ops where "?loop (clear_default (p_ID pool) ?db1) = runs ipam_step ops (clear_default (p_ID pool) ?db1)" using Cons.IH by blast
    then show ?thesis by (intro exI [of _ "?set # OpMigrateDefault (p_ID pool) # ops"]) simp
  qed
  have none: "\<exists>ops. db = runs ipam_step ops db" by (intro exI [of _ "[]"]) simp
  show ?case using Cons.IH [of db] none one two three by (cases resolved) (simp_all add: m Let_def split: option.split)
qed

lemma migration_is_its_transactions: "\<exists>ops. snd (MigratePools e faults hosts setDefault listNodes db) = runs ipam_step ops db"
proof -
  have none: "\<exists>ops. db = runs ipam_step ops db" by (intro exI [of _ "[]"]) simp
  show ?thesis using none migrate_loop_steps by (auto simp: MigratePools_def split: sum.split)
qed

definition unique_addresses :: "ipam_db \<Rightarrow> bool" where
  "unique_addresses db \<longleftrightarrow> distinct (map al_id (db_allocations db)) \<and> distinct (map al_stack (db_allocations db)) \<and>
     distinct (map (\<lambda>al. (al_pool al, al_address al)) (db_allocations db)) \<and>
     distinct (map rs_Address (db_reservations db))"

definition disjoint_ranges :: "(string \<times> node_range) list \<Rightarrow> bool" where
  "disjoint_ranges rs \<longleftrightarrow> distinct (map fst rs) \<and> (\<forall>(q, r) \<in> set rs. nr_start r \<le> nr_end r) \<and>
     (\<forall>(q, r) \<in> set rs. \<forall>(q', r') \<in> set rs. q \<noteq> q' \<longrightarrow> nr_end r < nr_start r' \<or> nr_end r' < nr_start r)"

definition ipam_inv :: "ipam_db \<Rightarrow> bool" where
  "ipam_inv db \<longleftrightarrow> unique_addresses db \<and> disjoint_ranges (db_ranges db)"

text \<open>What each operation does to the tables the invariant reads.\<close>

lemma savePool_cases:
  obtains (refused) e p where "savePool faults fresh now pool node seen db = ((Some e, p), db)"
  | (written) p where "savePool faults fresh now pool node seen db = write_pool (faults 3) p node db"
proof -
  have "(\<exists>e p. savePool faults fresh now pool node seen db = ((Some e, p), db)) \<or>
      (\<exists>p. savePool faults fresh now pool node seen db = write_pool (faults 3) p node db)"
    by (simp add: savePool_def split: option.split sum.split) (auto simp: Let_def split: option.split sum.split)
  then show ?thesis using that by blast
qed

lemma write_pool_tables:
  "db_allocations (snd (write_pool fault pool node db)) = db_allocations db \<and> db_reservations (snd (write_pool fault pool node db)) = db_reservations db \<and>
   (db_ranges (snd (write_pool fault pool node db)) = db_ranges db \<or>
    (\<exists>pid r. upsert_range pid r (db_ranges db) = Inr (db_ranges (snd (write_pool fault pool node db)))))"
  by (auto simp: write_pool_def split: option.splits sum.splits if_splits)

lemma savePool_tables:
  "db_allocations (snd (savePool faults fresh now pool node seen db)) = db_allocations db"
  "db_reservations (snd (savePool faults fresh now pool node seen db)) = db_reservations db"
  by (rule savePool_cases [of faults fresh now pool node seen db]; simp add: write_pool_tables)+

lemma savePool_ranges:
  "db_ranges (snd (savePool faults fresh now pool node seen db)) = db_ranges db \<or>
   (\<exists>pid r. upsert_range pid r (db_ranges db) = Inr (db_ranges (snd (savePool faults fresh now pool node seen db))))"
  by (rule savePool_cases [of faults fresh now pool node seen db]) (use write_pool_tables [of "faults 3" _ node db] in auto)

lemma other_tables [simp]:
  "db_allocations (snd (DeletePool e1 e2 pid db0 db)) = db_allocations db"
  "db_reservations (snd (DeletePool e1 e2 pid db0 db)) = db_reservations db"
  "db_ranges (snd (DeletePool e1 e2 pid db0 db)) = db_ranges db"
  "db_reservations (snd (ActivateIPv4 e uuid sid db)) = db_reservations db"
  "db_ranges (snd (ActivateIPv4 e uuid sid db)) = db_ranges db"
  "db_reservations (snd (ReleaseIPv4 e sid db)) = db_reservations db"
  "db_ranges (snd (ReleaseIPv4 e sid db)) = db_ranges db"
  "db_allocations (snd (Allocate e1 e2 uuid t text parsed sid service seen db)) = db_allocations db"
  "db_ranges (snd (Allocate e1 e2 uuid t text parsed sid service seen db)) = db_ranges db"
  "db_allocations (snd (Release e sid service db)) = db_allocations db"
  "db_ranges (snd (Release e sid service db)) = db_ranges db"
  "db_allocations (snd (ReleaseAll e sid db)) = db_allocations db"
  "db_ranges (snd (ReleaseAll e sid db)) = db_ranges db"
  "db_allocations (snd (handleDeleteAllocation e i db)) = db_allocations db"
  "db_ranges (snd (handleDeleteAllocation e i db)) = db_ranges db"
  by (auto simp: DeletePool_def ActivateIPv4_def ReleaseIPv4_def Allocate_def Release_def ReleaseAll_def handleDeleteAllocation_def Let_def
      split: option.splits)

text \<open>An API request stores at most one reservation, under a prefix that no row holds.\<close>

lemma create_cases:
  "snd (handleCreateAllocation e1 e2 exists uuid t sid service pool prefix requested seen db) \<in> {db} \<union>
     {db\<lparr>db_reservations := db_reservations db @ [row]\<rparr> | row. rs_Address row \<notin> rs_Address ` set (db_reservations db)}"
proof -
  let ?rows = "{db\<lparr>db_reservations := db_reservations db @ [row]\<rparr> | row. rs_Address row \<notin> rs_Address ` set (db_reservations db)}"
  let ?choice = "chosen_address prefix requested (map pfx_Addr (List.map_filter rs_Address (db_reservations seen)))"
  have new: "db\<lparr>db_reservations := db_reservations db @ [row]\<rparr> \<in> {db} \<union> ?rows"
    if "\<not> list_ex (\<lambda>r. rs_ID r = uuid \<or> rs_Address r = rs_Address row) (db_reservations db)" for row
    using that by (intro UnI2 CollectI exI conjI [OF refl]) (auto simp: list_ex_iff)
  have old: "db \<in> {db} \<union> ?rows" by simp
  show ?thesis unfolding handleCreateAllocation_def Let_def
    by (cases ?choice; cases prefix; cases e1) (simp_all only: option.case sum.case prod.case snd_conv if_distrib [of snd] old simp_thms split: if_split option.split,
      intro allI impI, rule new, simp)
qed

lemma AllocateIPv4_effect:
  assumes "AllocateIPv4 e uuids faults pool sid db0 db = Some (r, db')"
  shows "db' = db \<or> (\<exists>al. insert_allocation al db = Some db')"
proof (cases "db' = db")
  case False
  then obtain s fin where "allocate_loop uuids faults (pool_addresses (p_ID pool) db0) (p_ID pool) sid s fin db = Some (r, db')"
    using assms by (auto simp: AllocateIPv4_def split: if_splits option.splits addr.splits)
  from allocate_loop_sound [OF this] show ?thesis by (auto split: sum.splits)
qed simp

lemma insert_allocation_unique:
  "insert_allocation al db = Some db' \<Longrightarrow> unique_addresses db \<Longrightarrow> unique_addresses db' \<and> db_ranges db' = db_ranges db"
  by (fastforce simp: insert_allocation_def unique_addresses_def list_ex_iff split: if_splits)

lemma unique_sublist:
  "unique_addresses db \<Longrightarrow> db_allocations db' = filter P (db_allocations db) \<Longrightarrow>
     db_reservations db' = filter Q (db_reservations db) \<Longrightarrow> unique_addresses db'"
  by (simp add: unique_addresses_def distinct_map_filter)

lemma Allocate_unique: "unique_addresses db \<Longrightarrow> unique_addresses (snd (Allocate e1 e2 uuid t text parsed sid service seen db))"
  by (auto simp: Allocate_def unique_addresses_def Let_def list_ex_iff split: option.splits)

lemma Activate_unique: "unique_addresses db \<Longrightarrow> unique_addresses (snd (ActivateIPv4 e uuid sid db))"
  by (auto simp: ActivateIPv4_def unique_addresses_def Let_def comp_def if_distrib cong: if_cong split: option.splits)

lemma step_unique: "unique_addresses db \<Longrightarrow> unique_addresses (ipam_step i db)"
proof (induction i db rule: ipam_step.induct)
  case (4 e uuids faults pool sid db0 db)
  then show ?case
    by (auto split: option.splits dest!: AllocateIPv4_effect insert_allocation_unique)
next
  case (6 e sid db)
  then show ?case
    by (auto simp: ReleaseIPv4_def split: option.splits intro: unique_sublist [where Q = "\<lambda>_. True"])
next
  case (8 e sid service db)
  then show ?case
    by (auto simp: Release_def split: option.splits intro: unique_sublist [where P = "\<lambda>_. True"])
next
  case (9 e sid db)
  then show ?case
    by (auto simp: ReleaseAll_def split: option.splits intro: unique_sublist [where P = "\<lambda>_. True"])
next
  case (10 e1 e2 exists uuid now sid service pool prefix requested seen db)
  then show ?case
    using create_cases [of e1 e2 exists uuid now sid service pool prefix requested seen db] by (auto simp: unique_addresses_def)
next
  case (11 e i db)
  then show ?case
    by (auto simp: handleDeleteAllocation_def split: option.splits intro: unique_sublist [where P = "\<lambda>_. True"])
next
  case 5
  then show ?case by (simp add: Activate_unique)
next
  case 7
  then show ?case by (simp add: Allocate_unique)
qed (auto simp: SavePool_def SaveNodePool_def set_members_def clear_default_def unique_addresses_def savePool_tables)

lemma upsert_range_result:
  assumes "upsert_range pid r rs = Inr rs'" "disjoint_ranges rs"
  obtains new where "rs' = AList.update pid new rs" "nr_start new \<le> nr_end new" "\<not> range_overlaps rs pid new" "nr_owner new = nr_owner r"
    "\<And>old. map_of rs pid = Some old \<Longrightarrow> nr_owner new = nr_owner old \<and> nr_start new \<le> nr_start old \<and> nr_end old \<le> nr_end new"
proof (cases "map_of rs pid")
  case None
  show ?thesis by (rule that [of r]) (use assms None in \<open>auto simp: upsert_range_def split: if_splits\<close>)
next
  case (Some old)
  have "nr_start old \<le> nr_end old" using assms(2) map_of_SomeD [OF Some] by (auto simp: disjoint_ranges_def)
  then show ?thesis
    by (intro that [of "\<lparr>nr_start = min (nr_start old) (nr_start r), nr_end = max (nr_end old) (nr_end r), nr_owner = nr_owner r\<rparr>"])
       (use assms Some in \<open>auto simp: upsert_range_def Let_def min_le_iff_disj le_max_iff_disj split: if_splits\<close>)
qed

lemma upsert_range_disjoint:
  assumes "upsert_range pid r rs = Inr rs'" "disjoint_ranges rs"
  shows "disjoint_ranges rs'"
proof -
  obtain new where new: "rs' = AList.update pid new rs" "nr_start new \<le> nr_end new" "\<not> range_overlaps rs pid new"
    by (rule upsert_range_result [OF assms]) blast
  have d: "distinct (map fst rs)" using assms(2) by (simp add: disjoint_ranges_def)
  have mem: "(q, x) \<in> set rs' \<longleftrightarrow> (if q = pid then x = new else (q, x) \<in> set rs)" for q x
  proof -
    have "(q, x) \<in> set rs' \<longleftrightarrow> map_of rs' q = Some x"
      using distinct_update [OF d, of pid new] by (simp add: new(1) map_of_eq_Some_iff del: map_of_update)
    also have "\<dots> \<longleftrightarrow> (if q = pid then x = new else map_of rs q = Some x)" by (auto simp: new(1))
    finally show ?thesis using d by (simp add: map_of_eq_Some_iff)
  qed
  have apart: "nr_end x < nr_start new \<or> nr_end new < nr_start x" if "(q, x) \<in> set rs" "q \<noteq> pid" for q x
    using new(3) that by (auto simp: range_overlaps_def list_ex_iff not_le)
  show ?thesis unfolding disjoint_ranges_def
    using assms(2) mem apart new(2) distinct_update [OF d, of pid new]
    by (auto simp: disjoint_ranges_def new(1) [symmetric] split: if_splits) blast+
qed

lemma step_ranges_cases:
  obtains "db_ranges (ipam_step i db) = db_ranges db"
  | pid r where "upsert_range pid r (db_ranges db) = Inr (db_ranges (ipam_step i db))"
proof (cases "db_ranges (ipam_step i db) = db_ranges db")
  case False
  have "\<exists>pid r. upsert_range pid r (db_ranges db) = Inr (db_ranges (ipam_step i db))"
    using False
  proof (induction i db rule: ipam_step.induct)
    case (4 e uuids faults pool sid db0 db)
    then show ?case
      by (auto split: option.splits dest!: AllocateIPv4_effect insert_allocation_rows)
  next
    case (1 faults fresh now pool seen db)
    then show ?case using savePool_ranges [of faults fresh now pool "[]" seen db] by (auto simp: SavePool_def)
  next
    case (2 faults fresh now pool node seen db)
    then show ?case using savePool_ranges [of faults fresh now pool node seen db] by (auto simp: SaveNodePool_def split: if_splits)
  next
    case (10 e1 e2 exists uuid now sid service pool prefix requested seen db)
    then show ?case
      using create_cases [of e1 e2 exists uuid now sid service pool prefix requested seen db] by auto
  qed (auto simp: set_members_def clear_default_def split: if_splits)
  then show ?thesis using that by blast
qed (rule that)

lemma step_ranges: "disjoint_ranges (db_ranges db) \<Longrightarrow> disjoint_ranges (db_ranges (ipam_step i db))"
  by (rule step_ranges_cases [of i db]) (auto intro: upsert_range_disjoint)

interpretation ipam: machine ipam_step ipam_inv
  by unfold_locales (simp add: ipam_inv_def step_unique step_ranges)

text \<open>
  C12. Whatever operations of the package and allocation requests of the API control processes run, in any order and even when their queries read old
  states of the database, two rows of \<open>network_allocations\<close> never share a stack or an address
  of a pool, and no two reservations hold the same prefix (an address with its length).\<close>

theorem addresses_stay_unique:
  assumes "ipam_inv db"
  shows "(\<forall>al \<in> set (db_allocations (runs ipam_step ops db)). \<forall>al' \<in> set (db_allocations (runs ipam_step ops db)).
      al_stack al = al_stack al' \<or> al_pool al = al_pool al' \<and> al_address al = al_address al' \<longrightarrow> al = al') \<and>
    distinct (map rs_Address (db_reservations (runs ipam_step ops db)))"
proof -
  have "unique_addresses (runs ipam_step ops db)" using ipam.runs_inv [OF assms] by (simp add: ipam_inv_def)
  then show ?thesis
    by (auto simp: unique_addresses_def distinct_map inj_on_def)
qed

lemma step_range_grows:
  assumes "disjoint_ranges (db_ranges db)" "map_of (db_ranges db) pid = Some old"
  shows "\<exists>new. map_of (db_ranges (ipam_step i db)) pid = Some new \<and> nr_owner new = nr_owner old \<and>
    nr_start new \<le> nr_start old \<and> nr_end old \<le> nr_end new"
proof (rule step_ranges_cases [of i db])
  fix q r
  assume up: "upsert_range q r (db_ranges db) = Inr (db_ranges (ipam_step i db))"
  show ?thesis by (rule upsert_range_result [OF up assms(1)]) (use assms(2) in auto)
qed (use assms in auto)

lemma runs_range_grows:
  assumes "ipam_inv db" "map_of (db_ranges db) pid = Some old"
  shows "\<exists>new. map_of (db_ranges (runs ipam_step ops db)) pid = Some new \<and> nr_owner new = nr_owner old \<and>
    nr_start new \<le> nr_start old \<and> nr_end old \<le> nr_end new"
  using assms
proof (induction ops arbitrary: db old)
  case (Cons i ops)
  obtain mid where mid: "map_of (db_ranges (ipam_step i db)) pid = Some mid" "nr_owner mid = nr_owner old"
    "nr_start mid \<le> nr_start old" "nr_end old \<le> nr_end mid"
    using step_range_grows [of db pid old i] Cons.prems by (auto simp: ipam_inv_def)
  from Cons.IH [OF ipam.step_inv [OF Cons.prems(1)] mid(1)] mid(2-4) show ?case
    by (auto intro: order.trans)
qed auto

text \<open>
  C28. A range reserved for a node stays reserved: over any sequence of operations it keeps its
  owner and never shrinks (not even when its pool is redefined or deleted), and the ranges of
  different pools never overlap.\<close>

theorem node_ranges_stay_reserved:
  assumes "ipam_inv db" "map_of (db_ranges db) pid = Some old"
  shows "(\<exists>new. map_of (db_ranges (runs ipam_step ops db)) pid = Some new \<and> nr_owner new = nr_owner old \<and>
      nr_start new \<le> nr_start old \<and> nr_end old \<le> nr_end new) \<and>
    (\<forall>(q, r) \<in> set (db_ranges (runs ipam_step ops db)). \<forall>(q', r') \<in> set (db_ranges (runs ipam_step ops db)).
      q \<noteq> q' \<longrightarrow> nr_end r < nr_start r' \<or> nr_end r' < nr_start r)"
  using runs_range_grows [OF assms] ipam.runs_inv [OF assms(1)] by (simp add: ipam_inv_def disjoint_ranges_def)
section \<open>Saving and deleting pools\<close>

lemma upsert_pool_stores:
  assumes "upsert_pool pool rows = Inr rows'"
  shows "\<exists>row \<in> set rows'. row = pool\<lparr>p_CreatedAt := p_CreatedAt row\<rparr>"
proof (cases "list_ex (\<lambda>r. p_ID r = p_ID pool) rows")
  case True
  then obtain r where "r \<in> set rows" "p_ID r = p_ID pool" by (auto simp: list_ex_iff)
  then show ?thesis using assms True
    by (intro bexI [of _ "pool\<lparr>p_CreatedAt := p_CreatedAt r\<rparr>"]) (auto simp: upsert_pool_def split: if_splits)
next
  case False
  then show ?thesis using assms by (intro bexI [of _ pool]) (auto simp: upsert_pool_def split: if_splits)
qed

text \<open>What a successful \<open>savePool\<close> has checked and written.\<close>

lemma savePool_raw:
  fixes pool now fresh
  defines "P \<equiv> pool\<lparr>p_MembershipResolved := True, p_Default := False\<rparr>"
  defines "P' \<equiv> (if p_ID P = [] then P\<lparr>p_ID := fresh, p_CreatedAt := now\<rparr> else P)\<lparr>p_UpdatedAt := now\<rparr>"
  assumes "savePool faults fresh now pool node (\<lambda>_. db) db = ((None, pool'), db')"
  shows "ValidatePool P = None \<and> pool' = P' \<and>
    (p_ID P \<noteq> [] \<longrightarrow> \<not> list_ex (\<lambda>n. \<not> containsNode (p_NodeIDs P) n) (active_nodes db (p_ID P)) \<and>
       \<not> list_ex (excluded_allocation P) (db_allocations db)) \<and>
    (\<exists>ranges rows. upsert_pool P' (db_pools db) = Inr rows \<and>
       db' = db\<lparr>db_ranges := ranges, db_pools := rows, db_scope := (db_scope db)(p_ID P' \<mapsto> True),
         db_members := filter (\<lambda>pn. fst pn \<noteq> p_ID P') (db_members db) @ map (\<lambda>n. (p_ID P', n)) (p_NodeIDs P')\<rparr>)"
proof -
  have "ValidatePool P = None \<and> write_pool (faults 3) P' node db = ((None, pool'), db') \<and>
    (p_ID P \<noteq> [] \<longrightarrow> \<not> list_ex (\<lambda>n. \<not> containsNode (p_NodeIDs P) n) (active_nodes db (p_ID P)) \<and> \<not> list_ex (excluded_allocation P) (db_allocations db))"
    using assms(3) unfolding savePool_def Let_def P_def [symmetric] P'_def [symmetric]
    by (cases "p_ID P = []") (auto split: option.split_asm sum.split_asm if_split_asm)
  then show ?thesis by (auto simp: write_pool_def split: option.split_asm sum.split_asm if_split_asm)
qed

lemma savePool_success:
  assumes "savePool faults fresh now pool node (\<lambda>_. db) db = ((None, pool'), db')"
  shows "ValidatePool pool' = None" "p_NodeIDs pool' = p_NodeIDs pool" "p_MembershipResolved pool'"
    "p_ID pool' = (if p_ID pool = [] then fresh else p_ID pool)"
    "\<exists>rows. upsert_pool pool' (db_pools db) = Inr rows \<and> db_pools db' = rows"
    "db_scope db' = (db_scope db)(p_ID pool' \<mapsto> True)"
    "db_members db' = filter (\<lambda>pn. fst pn \<noteq> p_ID pool') (db_members db) @ map (\<lambda>n. (p_ID pool', n)) (p_NodeIDs pool')"
    "db_runtime db' = db_runtime db"
    "p_ID pool \<noteq> [] \<Longrightarrow> \<not> list_ex (excluded_allocation pool') (db_allocations db)"
    "p_ID pool \<noteq> [] \<Longrightarrow> \<not> list_ex (\<lambda>n. \<not> containsNode (p_NodeIDs pool) n) (active_nodes db (p_ID pool))"
proof -
  note raw = savePool_raw [OF assms]
  have v: "ValidatePool (pool\<lparr>p_MembershipResolved := b, p_Default := d, p_UpdatedAt := t\<rparr>) = ValidatePool pool"
    "ValidatePool (pool\<lparr>p_MembershipResolved := b, p_Default := d, p_ID := x, p_CreatedAt := c, p_UpdatedAt := t\<rparr>) = ValidatePool pool"
    "ValidatePool (pool\<lparr>p_MembershipResolved := b, p_Default := d\<rparr>) = ValidatePool pool" for b d t x c
    by (auto simp: ValidatePool_def split: option.splits)
  have x: "excluded_allocation (pool\<lparr>p_MembershipResolved := b, p_Default := d, p_UpdatedAt := t\<rparr>) = excluded_allocation pool"
    "excluded_allocation (pool\<lparr>p_MembershipResolved := b, p_Default := d\<rparr>) = excluded_allocation pool" for b d t
    by (auto simp: excluded_allocation_def)
  show "ValidatePool pool' = None" using raw by (auto simp: v)
  show "p_NodeIDs pool' = p_NodeIDs pool" "p_MembershipResolved pool'"
    "p_ID pool' = (if p_ID pool = [] then fresh else p_ID pool)" using raw by simp_all
  show "\<exists>rows. upsert_pool pool' (db_pools db) = Inr rows \<and> db_pools db' = rows"
    "db_scope db' = (db_scope db)(p_ID pool' \<mapsto> True)"
    "db_members db' = filter (\<lambda>pn. fst pn \<noteq> p_ID pool') (db_members db) @ map (\<lambda>n. (p_ID pool', n)) (p_NodeIDs pool')"
    "db_runtime db' = db_runtime db" using raw by auto
  show "p_ID pool \<noteq> [] \<Longrightarrow> \<not> list_ex (excluded_allocation pool') (db_allocations db)"
    "p_ID pool \<noteq> [] \<Longrightarrow> \<not> list_ex (\<lambda>n. \<not> containsNode (p_NodeIDs pool) n) (active_nodes db (p_ID pool))"
    using raw by (simp_all add: x)
qed

lemma excluded_allocation_covers:
  assumes "ValidatePool pool = None" "\<not> list_ex (excluded_allocation pool) als" "al \<in> set als" "al_pool al = p_ID pool"
    "p_CIDR pool = Some p" "p_StartIP pool = Some (V4 s)" "p_EndIP pool = Some (V4 e)"
  shows "\<exists>a. al_address al = Some (V4 a) \<and> Contains p (V4 a) \<and> s \<le> a \<and> a \<le> e"
proof -
  obtain x where x: "al_address al = Some x" "Contains p x" "addr_le (V4 s) x" "addr_le x (V4 e)"
    using assms(2-7) by (auto simp: list_ex_iff excluded_allocation_def split: option.splits)
  then show ?thesis by (cases x) auto
qed

text \<open>
  C26. A pool that \<open>savePool\<close> accepted covers what is already in use, provided that its three queries
  read the database its transaction runs on (nobody writes between them), and that the UUID of a new pool is
  new: every address allocated from it lies in its subnet and range, every host that runs one of its stacks
  is a member, and \<open>ListPools\<close> reads the saved definition back with its members.\<close>

theorem saved_pool_covers_its_stacks:
  assumes "savePool faults fresh now pool node (\<lambda>_. db) db = ((None, pool'), db')"
    and "p_ID pool = [] \<longrightarrow> (\<forall>al \<in> set (db_allocations db). al_pool al \<noteq> fresh) \<and>
      (\<forall>(sid, r) \<in> set (db_runtime db). ru_network_pool r \<noteq> Some fresh)"
  shows "(\<exists>p s e. p_CIDR pool' = Some p \<and> p_StartIP pool' = Some (V4 s) \<and> p_EndIP pool' = Some (V4 e) \<and>
      (\<forall>al \<in> set (db_allocations db'). al_pool al = p_ID pool' \<longrightarrow>
         (\<exists>a. al_address al = Some (V4 a) \<and> Contains p (V4 a) \<and> s \<le> a \<and> a \<le> e))) \<and>
    (\<forall>n \<in> set (active_nodes db' (p_ID pool')). Member pool' n) \<and>
    (\<exists>pools. ListPools None db' = Inr pools \<and> (\<exists>row \<in> set pools. row = pool'\<lparr>p_CreatedAt := p_CreatedAt row\<rparr>))"
proof (intro conjI)
  note ok = savePool_success [OF assms(1)]
  have al: "db_allocations db' = db_allocations db" using savePool_tables(1) [of faults fresh now pool node "\<lambda>_. db" db] assms(1) by simp
  obtain p s e where p: "p_CIDR pool' = Some p" "p_StartIP pool' = Some (V4 s)" "p_EndIP pool' = Some (V4 e)"
    by (rule ValidatePoolE [OF ok(1)])
  have "\<exists>a. al_address x = Some (V4 a) \<and> Contains p (V4 a) \<and> s \<le> a \<and> a \<le> e"
    if "x \<in> set (db_allocations db)" "al_pool x = p_ID pool'" for x
    using excluded_allocation_covers [OF ok(1) ok(9) that p] that assms(2) ok(4) by (cases "p_ID pool = []") auto
  then show "\<exists>p s e. p_CIDR pool' = Some p \<and> p_StartIP pool' = Some (V4 s) \<and> p_EndIP pool' = Some (V4 e) \<and>
      (\<forall>al \<in> set (db_allocations db'). al_pool al = p_ID pool' \<longrightarrow>
         (\<exists>a. al_address al = Some (V4 a) \<and> Contains p (V4 a) \<and> s \<le> a \<and> a \<le> e))"
    using p by (simp add: al)
  show "\<forall>n \<in> set (active_nodes db' (p_ID pool')). Member pool' n"
  proof (cases "p_ID pool = []")
    case True
    then show ?thesis using assms(2) ok(4,8) by (fastforce simp: active_nodes_def)
  next
    case False
    then show ?thesis using ok(2,3,4,8,10) by (fastforce simp: active_nodes_def Member_def list_ex_iff)
  qed
  obtain row where row: "row \<in> set (db_pools db')" "row = pool'\<lparr>p_CreatedAt := p_CreatedAt row\<rparr>"
    using ok(5) upsert_pool_stores by blast
  have "map snd (filter (\<lambda>pn. fst pn = p_ID pool') (db_members db')) = p_NodeIDs pool'"
    by (simp add: ok(7) filter_map comp_def)
  then have "load_pool db' row = row" using row(2) ok(3,6)
    by (cases row; cases pool') (simp add: load_pool_def)
  then show "\<exists>pools. ListPools None db' = Inr pools \<and> (\<exists>row \<in> set pools. row = pool'\<lparr>p_CreatedAt := p_CreatedAt row\<rparr>)"
    using row by (auto simp: ListPools_def image_iff) metis
qed

text \<open>
  \<open>DeletePool\<close> never takes a pool from under a stack: if an address of the pool is allocated
  when the transaction runs, nothing is deleted, however old the state its first check read.\<close>

theorem pool_in_use_survives_delete:
  assumes "al \<in> set (db_allocations db)" "al_pool al = pid" "p \<in> set (db_pools db)" "p_ID p = pid"
  shows "snd (DeletePool queryErr execErr pid db0 db) = db"
proof -
  have "list_ex (\<lambda>al. al_pool al = pid) (db_allocations db)" "list_ex (\<lambda>r. p_ID r = pid) (db_pools db)"
    using assms by (auto simp: list_ex_iff)
  then show ?thesis by (simp add: DeletePool_def Let_def split: option.splits)
qed

section \<open>Restoring a host's services\<close>

lemma StackService_sound:
  assumes "StackService fault sid db = Inr (Some sv)"
  shows "sv_StackID sv = sid" "StackService None sid db = Inr (Some sv)"
    "\<exists>al \<in> set (db_allocations db). al_stack al = sid \<and> al_pool al = sv_PoolID sv \<and> al_address al = sv_Address sv"
proof -
  obtain al p rest where row: "[(al, p). al \<leftarrow> db_allocations db, al_stack al = sid, p \<leftarrow> db_pools db, p_ID p = al_pool al] = (al, p) # rest"
    and sv: "sv_StackID sv = sid" "sv_PoolID sv = al_pool al" "sv_Address sv = al_address al"
    using assms by (auto simp: StackService_def split: option.splits list.splits prod.splits)
  then have "(al, p) \<in> set [(al, p). al \<leftarrow> db_allocations db, al_stack al = sid, p \<leftarrow> db_pools db, p_ID p = al_pool al]" by simp
  then show "\<exists>al \<in> set (db_allocations db). al_stack al = sid \<and> al_pool al = sv_PoolID sv \<and> al_address al = sv_Address sv"
    using sv by (auto split: if_splits)
  show "sv_StackID sv = sid" by (rule sv)
  show "StackService None sid db = Inr (Some sv)" using assms by (simp add: StackService_def split: option.splits)
qed

lemma CheckStackDestination_sound:
  assumes "CheckStackDestination f1 f2 hosts sid node db = None" "StackService None sid db = Inr (Some sv)"
  shows "\<exists>pool \<in> set (map (load_pool db) (db_pools db)). p_ID pool = sv_PoolID sv \<and> Eligible hosts pool node = None"
proof -
  have f1: "f1 = None" using assms(1) by (auto simp: CheckStackDestination_def StackService_def split: option.splits)
  have "ListPools f2 db = Inr (map (load_pool db) (sort_key p_Name (db_pools db)))"
    using assms by (auto simp: CheckStackDestination_def f1 ListPools_def split: option.splits)
  then obtain pool rest where f: "filter (\<lambda>p. p_ID p = sv_PoolID sv) (map (load_pool db) (sort_key p_Name (db_pools db))) = pool # rest"
    and el: "Eligible hosts pool node = None"
    using assms by (auto simp: CheckStackDestination_def f1 split: list.splits)
  have "pool \<in> set (filter (\<lambda>p. p_ID p = sv_PoolID sv) (map (load_pool db) (sort_key p_Name (db_pools db))))"
    unfolding f by simp
  with el show ?thesis by auto
qed

lemma restore_loop_sound:
  "restore_loop faults hosts node db sids = Inr services \<Longrightarrow>
     map sv_StackID services = filter (\<lambda>sid. StackService None sid db \<noteq> Inr None) sids \<and>
     (\<forall>sv \<in> set services. StackService None (sv_StackID sv) db = Inr (Some sv) \<and>
        (\<exists>pool \<in> set (map (load_pool db) (db_pools db)). p_ID pool = sv_PoolID sv \<and> Eligible hosts pool node = None))"
proof (induction sids arbitrary: services)
  case (Cons sid sids)
  show ?case
  proof (cases "StackService (faults sid 0) sid db")
    case (Inr o1)
    show ?thesis
    proof (cases o1)
      case None
      then have "StackService None sid db = Inr None" using Inr by (simp add: StackService_def split: option.splits)
      then show ?thesis using Cons Inr None by auto
    next
      case (Some sv)
      note ss = StackService_sound [OF Inr [unfolded Some]]
      obtain rest where r: "services = sv # rest" "restore_loop faults hosts node db sids = Inr rest"
        and c: "CheckStackDestination (faults sid 1) (faults sid 2) hosts sid node db = None"
        using Cons.prems Inr Some
        by (cases "restore_loop faults hosts node db sids") (auto split: option.splits)
      show ?thesis using Cons.IH [OF r(2)] CheckStackDestination_sound [OF c ss(2)] ss(1,2) by (simp add: r(1))
    qed
  qed (use Cons.prems in auto)
qed auto

text \<open>
  C27. After a reboot a host is given exactly the service addresses the cluster says it owns:
  those of the allocated stacks whose active node it is, each with the address that is allocated
  and only on a host eligible for the pool. It never replays an address another node took over.\<close>

theorem restored_services_are_owned:
  assumes "RestoreNodeServices fault faults hosts node db = Inr services"
  shows "map sv_StackID services = filter (\<lambda>sid. StackService None sid db \<noteq> Inr None) (owned_stacks node db) \<and>
    (\<forall>sv \<in> set services. \<exists>al \<in> set (db_allocations db). \<exists>r.
      al_stack al = sv_StackID sv \<and> al_pool al = sv_PoolID sv \<and> al_address al = sv_Address sv \<and>
      (sv_StackID sv, r) \<in> set (db_runtime db) \<and> ru_active_node r = node \<and> \<not> ru_deleted r \<and>
      (\<exists>pool \<in> set (map (load_pool db) (db_pools db)). p_ID pool = al_pool al \<and> Eligible hosts pool node = None))"
proof (intro conjI)
  have run: "restore_loop faults hosts node db (owned_stacks node db) = Inr services"
    using assms by (simp add: RestoreNodeServices_def split: option.splits)
  note sound = restore_loop_sound [OF run]
  then show "map sv_StackID services = filter (\<lambda>sid. StackService None sid db \<noteq> Inr None) (owned_stacks node db)" by simp
  show "\<forall>sv \<in> set services. \<exists>al \<in> set (db_allocations db). \<exists>r.
      al_stack al = sv_StackID sv \<and> al_pool al = sv_PoolID sv \<and> al_address al = sv_Address sv \<and>
      (sv_StackID sv, r) \<in> set (db_runtime db) \<and> ru_active_node r = node \<and> \<not> ru_deleted r \<and>
      (\<exists>pool \<in> set (map (load_pool db) (db_pools db)). p_ID pool = al_pool al \<and> Eligible hosts pool node = None)"
  proof
    fix sv
    assume sv: "sv \<in> set services"
    then have ss: "StackService None (sv_StackID sv) db = Inr (Some sv)" using sound by blast
    have "sv_StackID sv \<in> set (owned_stacks node db)" using sound sv
      by (metis (no_types, lifting) filter_is_subset image_eqI list.set_map subsetD)
    then obtain r where "(sv_StackID sv, r) \<in> set (db_runtime db)" "ru_active_node r = node" "\<not> ru_deleted r"
      by (auto simp: owned_stacks_def split: if_splits)
    then show "\<exists>al \<in> set (db_allocations db). \<exists>r.
      al_stack al = sv_StackID sv \<and> al_pool al = sv_PoolID sv \<and> al_address al = sv_Address sv \<and>
      (sv_StackID sv, r) \<in> set (db_runtime db) \<and> ru_active_node r = node \<and> \<not> ru_deleted r \<and>
      (\<exists>pool \<in> set (map (load_pool db) (db_pools db)). p_ID pool = al_pool al \<and> Eligible hosts pool node = None)"
      using StackService_sound(3) [OF ss] sound sv by metis
  qed
qed
section \<open>Witnesses\<close>

definition demo_cidr :: prefix where
  "demo_cidr = \<lparr>pfx_Addr = V4 0x0A000000, pfx_Bits = 24\<rparr>"

definition demo_pool :: pool where
  "demo_pool = \<lparr>p_ID = ''p'', p_Name = ''lan'', p_CIDR = Some demo_cidr, p_StartIP = Some (V4 0x0A00000A),
     p_EndIP = Some (V4 0x0A00000C), p_Default = False, p_NodeIDs = [''n1''], p_MembershipResolved = True,
     p_CreatedAt = 0, p_UpdatedAt = 0\<rparr>"

definition demo_alloc :: allocation where
  "demo_alloc = \<lparr>al_id = ''a1'', al_pool = ''p'', al_stack = ''s1'', al_address = Some (V4 0x0A00000A), al_active = True\<rparr>"

definition demo_runtime :: runtime where
  "demo_runtime = \<lparr>ru_stack_ip = Some (V4 0x0A00000A), ru_network_pool = Some ''p'', ru_active_node = ''n1'', ru_deleted = False\<rparr>"

definition demo_range :: node_range where
  "demo_range = \<lparr>nr_start = 0x0A00000A, nr_end = 0x0A00000C, nr_owner = ''n1''\<rparr>"

definition demo_db :: ipam_db where
  "demo_db = \<lparr>db_pools = [demo_pool], db_scope = [''p'' \<mapsto> True], db_members = [(''p'', ''n1'')],
     db_ranges = [(''p'', demo_range)],
     db_allocations = [demo_alloc], db_runtime = [(''s1'', demo_runtime)], db_dns_outbox = [], db_reservations = []\<rparr>"

lemma demo_mask: "mask 8 = (255 :: 32 word)"
  by (simp add: mask_eq_exp_minus_1)

lemmas demo_defs = demo_mask demo_cidr_def demo_pool_def demo_alloc_def demo_runtime_def demo_range_def demo_db_def

lemma demo_valid: "ValidatePool demo_pool = None"
  by (simp add: demo_defs ValidatePool_def Masked_def Contains_def)

lemma demo_inv: "ipam_inv demo_db"
  by (simp add: demo_defs ipam_inv_def unique_addresses_def disjoint_ranges_def)

theorem allocation_is_first_free_witness:
  "\<exists>a db'. AllocateIPv4 None (\<lambda>_. ''a2'') (\<lambda>_. None) demo_pool ''s2'' demo_db demo_db = Some (Inr (V4 a), db') \<and>
      Contains demo_cidr (V4 a) \<and> V4 a \<notin> set (pool_addresses ''p'' demo_db)"
proof -
  have h: "\<forall>al \<in> set (db_allocations demo_db). al_stack al \<noteq> ''s2''" "\<forall>a::32 word. \<forall>al \<in> set (db_allocations demo_db). al_id al \<noteq> ''a2''"
    "p_MembershipResolved demo_pool" "p_NodeIDs demo_pool \<noteq> []" "p_CIDR demo_pool = Some demo_cidr" "p_ID demo_pool = ''p''"
    "p_StartIP demo_pool = Some (V4 0x0A00000A)" "p_EndIP demo_pool = Some (V4 0x0A00000C)"
    and free: "V4 0x0A00000B \<notin> set (pool_addresses ''p'' demo_db)"
    by (simp_all add: demo_defs pool_addresses_def List.map_filter_def)
  obtain r db' where r: "AllocateIPv4 None (\<lambda>_. ''a2'') (\<lambda>_. None) demo_pool ''s2'' demo_db demo_db = Some (r, db')"
    and c: "case r of
       Inl msg \<Rightarrow> db' = demo_db \<and> (\<forall>a. 0x0A00000A \<le> a \<and> a \<le> 0x0A00000C \<longrightarrow> V4 a \<in> set (pool_addresses (p_ID demo_pool) demo_db))
     | Inr x \<Rightarrow> \<exists>a. x = V4 a \<and> 0x0A00000A \<le> a \<and> a \<le> 0x0A00000C \<and> Contains demo_cidr x \<and> x \<noteq> pfx_Addr demo_cidr \<and> x \<noteq> lastAddress demo_cidr \<and>
         x \<notin> set (pool_addresses (p_ID demo_pool) demo_db) \<and>
         (\<forall>b. 0x0A00000A \<le> b \<and> b < a \<longrightarrow> V4 b \<in> set (pool_addresses (p_ID demo_pool) demo_db)) \<and>
         db' = demo_db\<lparr>db_allocations := db_allocations demo_db @ [alloc_row (\<lambda>_. ''a2'') (p_ID demo_pool) ''s2'' a]\<rparr>"
    using allocation_is_first_free [OF demo_valid h(3,4,5,7,8,1,2)] by blast
  show ?thesis
  proof (cases r)
    case (Inl msg)
    then have "V4 0x0A00000B \<in> set (pool_addresses ''p'' demo_db)" using c by (simp add: h(6))
    then show ?thesis using free by blast
  qed (use r c h(6) in auto)
qed

theorem second_allocation_reports_exhausted_witness:
  "AllocateIPv4 None (\<lambda>_. ''a2'') (\<lambda>_. None) demo_pool ''s1'' demo_db demo_db = Some (Inl ''ipam: pool exhausted'', demo_db)"
  by (rule second_allocation_reports_exhausted [OF demo_valid, of demo_alloc]) (simp_all add: demo_defs)

theorem addresses_stay_unique_witness:
  "distinct (map rs_Address (db_reservations (runs ipam_step [OpReleaseIPv4 None ''s1''] demo_db)))"
  using addresses_stay_unique [OF demo_inv] by blast

theorem node_ranges_stay_reserved_witness:
  "\<exists>new. map_of (db_ranges (runs ipam_step [OpReleaseIPv4 None ''s1'', OpDeletePool None None ''p'' demo_db] demo_db)) ''p'' = Some new \<and>
     nr_owner new = ''n1''"
  using node_ranges_stay_reserved [OF demo_inv, of "''p''" demo_range "[OpReleaseIPv4 None ''s1'', OpDeletePool None None ''p'' demo_db]"]
  by (auto simp: demo_defs)

lemma demo_save: "\<exists>pool' db'. savePool (\<lambda>_. None) ''f'' 5 demo_pool ''n1'' (\<lambda>_. demo_db) demo_db = ((None, pool'), db') \<and> p_ID pool' = ''p''"
  by (simp add: demo_defs savePool_def write_pool_def ValidateMembers_def ValidatePool_def Masked_def Contains_def ListPools_def load_pool_def
      overlaps_existing_def active_nodes_def containsNode_def excluded_allocation_def range_of_pool_def upsert_range_def
      range_overlaps_def upsert_pool_def Let_def)

theorem saved_pool_covers_its_stacks_witness:
  "\<exists>pool' db' pools row. savePool (\<lambda>_. None) ''f'' 5 demo_pool ''n1'' (\<lambda>_. demo_db) demo_db = ((None, pool'), db') \<and>
     ListPools None db' = Inr pools \<and> row \<in> set pools \<and> row = pool'\<lparr>p_CreatedAt := p_CreatedAt row\<rparr>"
proof -
  obtain pool' db' where s: "savePool (\<lambda>_. None) ''f'' 5 demo_pool ''n1'' (\<lambda>_. demo_db) demo_db = ((None, pool'), db')"
    using demo_save by blast
  have "p_ID demo_pool \<noteq> []" by (simp add: demo_defs)
  then show ?thesis using saved_pool_covers_its_stacks [OF s] s by blast
qed

text \<open>
  Without that, an allocation that commits between the queries of \<open>savePool\<close> and its transaction can end up
  outside the saved range: here \<open>s2\<close> is given the second address of a pool that is being narrowed to its first.
\<close>

definition demo_narrowed :: pool where
  "demo_narrowed = demo_pool\<lparr>p_EndIP := p_StartIP demo_pool\<rparr>"

definition demo_late :: ipam_db where
  "demo_late = ipam_step (OpAllocateIPv4 None (\<lambda>_. ''a2'') (\<lambda>_. None) demo_pool ''s2'' demo_db) demo_db"

lemma demo_late_rows: "demo_late = demo_db\<lparr>db_allocations := [demo_alloc, alloc_row (\<lambda>_. ''a2'') ''p'' ''s2'' 0x0A00000B]\<rparr>"
  by (simp add: demo_late_def AllocateIPv4_def demo_valid)
    (simp add: demo_defs pool_addresses_def List.map_filter_def allocate_loop.simps insert_allocation_def)

theorem late_allocation_escapes_the_saved_range:
  "\<exists>pool' db'. savePool (\<lambda>_. None) ''f'' 5 demo_narrowed [] (\<lambda>_. demo_db) demo_late = ((None, pool'), db') \<and>
     list_ex (excluded_allocation pool') (db_allocations db')"
  by (simp add: demo_late_rows demo_narrowed_def demo_defs savePool_def write_pool_def ValidateMembers_def ValidatePool_def Masked_def Contains_def ListPools_def load_pool_def
      overlaps_existing_def active_nodes_def containsNode_def excluded_allocation_def upsert_pool_def Let_def)

theorem pool_in_use_survives_delete_witness:
  "snd (DeletePool None None ''p'' (demo_db\<lparr>db_allocations := []\<rparr>) demo_db) = demo_db"
  by (rule pool_in_use_survives_delete [of demo_alloc _ _ demo_pool]) (simp_all add: demo_defs)

definition demo_hosts :: "string \<Rightarrow> string + host_status" where
  "demo_hosts node = Inr \<lparr>hs_Change = False, hs_PrimaryAddresses = [Some \<lparr>pfx_Addr = V4 0x0A000002, pfx_Bits = 24\<rparr>],
     hs_Gateways = [Some \<lparr>pfx_Addr = V4 0x0A000001, pfx_Bits = 32\<rparr>]\<rparr>"

lemma demo_restore: "RestoreNodeServices None (\<lambda>_ _. None) demo_hosts ''n1'' demo_db =
    Inr [\<lparr>sv_StackID = ''s1'', sv_PoolID = ''p'', sv_Address = Some (V4 0x0A00000A), sv_Bits = 24\<rparr>]"
  by (simp add: demo_defs demo_hosts_def RestoreNodeServices_def owned_stacks_def StackService_def CheckStackDestination_def
      ListPools_def load_pool_def Eligible_def Member_def containsNode_def Compatible_def Masked_def ValidateHostRange_def outsideRange_def)

theorem restored_services_are_owned_witness:
  "RestoreNodeServices None (\<lambda>_ _. None) demo_hosts ''n1'' demo_db =
     Inr [\<lparr>sv_StackID = ''s1'', sv_PoolID = ''p'', sv_Address = Some (V4 0x0A00000A), sv_Bits = 24\<rparr>] \<and>
   filter (\<lambda>sid. StackService None sid demo_db \<noteq> Inr None) (owned_stacks ''n1'' demo_db) = [''s1'']"
  using restored_services_are_owned [OF demo_restore] demo_restore by simp
end
