(* ===== verification/Update_World.thy ===== *)
theory Update_World
  imports Prelude
begin

text \<open>
  What the two updaters of a host share: the disk primitives of \<open>internal/update\<close>, the journals
  under \<open>/floatlab/system/updates\<close> and the calls to the system.

  A world holds the journals as they are on disk, the state of the system behind the updaters'
  \<open>Backend\<close> interfaces, and the power the machine still has: every write and every backend call
  spends one unit, and a program that needs one when none is left stops there (power loss). A
  journal write is atomic (\<open>WriteFile\<close> renames a synced replacement), so a power loss leaves the
  old or the new content. \<open>disk\<close> says how each write ends and \<open>wall_clock\<close> what time it is, both
  by the power left, so that no two moments of a run are confused. The trace records every
  backend call with the journals that were on disk when it was made; it is not part of the
  program and exists to state what is durable before what is done.
\<close>

section \<open>Requests and journals\<close>

record request =
  rq_Upstream :: string
  rq_SkipDryRun :: bool
  rq_OperationID :: string
  rq_Release :: string
  rq_Actor :: string
  rq_IdempotencyKey :: string

record payload =
  pl_Version :: string
  pl_ISOVersion :: string
  pl_ManageVersion :: string
  pl_Init :: string
  pl_RootBytes :: int
  pl_Files :: "(string \<times> string) list"
  pl_Bytes :: int

record engine =
  en_Docker :: string
  en_Containerd :: string
  en_Driver :: string
  en_DataRoot :: string

record manifest = payload +
  mf_Architecture :: string
  mf_RecoveryProtocol :: int
  mf_Bootloader :: string
  mf_PoolCompatibility :: string
  mf_Engine :: engine
  mf_QualifiedSources :: "string list"
  mf_InstalledHostID :: string

record host_status =
  h_Upstream :: string
  h_SkipDryRun :: bool
  h_OperationID :: string
  h_Actor :: string
  h_State :: string
  h_Phase :: string
  h_SourceRelease :: string
  h_TargetRelease :: string
  h_Error :: string
  h_RollbackError :: string
  h_StartedAt :: int
  h_UpdatedAt :: int
  h_Manifest :: manifest
  h_Source :: manifest
  h_BootID :: string
  h_Watchdog :: bool
  h_CommitFinalized :: bool

record mgmt_manifest =
  mm_Version :: string
  mm_Architecture :: string
  mm_RequiredHost :: "string \<times> string"
  mm_Images :: "(string \<times> string) list"
  mm_RQLiteSources :: "string list"
  mm_RQLiteVersion :: string

record dataset =
  ds_Name :: string
  ds_GUID :: string

record mgmt_status =
  s_Upstream :: string
  s_SkipDryRun :: bool
  s_OperationID :: string
  s_Actor :: string
  s_Phase :: string
  s_State :: string
  s_SourceRelease :: string
  s_TargetRelease :: string
  s_Error :: string
  s_RollbackError :: string
  s_StartedAt :: int
  s_UpdatedAt :: int
  s_Manifest :: mgmt_manifest
  s_PreviousCompose :: string
  s_CandidateCompose :: string
  s_Datasets :: "dataset list"
  s_Policies :: "(string \<times> string) list"
  s_Snapshot :: string
  s_Authorized :: bool
  s_ActionKeys :: "(string \<times> string) list"
  s_ProductionChanged :: bool
  s_CleanupState :: string

text \<open>The zero values of the Go structs.\<close>

definition zero_manifest :: manifest where
  "zero_manifest = \<lparr>pl_Version = [], pl_ISOVersion = [], pl_ManageVersion = [], pl_Init = [], pl_RootBytes = 0, pl_Files = [],
     pl_Bytes = 0, mf_Architecture = [], mf_RecoveryProtocol = 0, mf_Bootloader = [], mf_PoolCompatibility = [],
     mf_Engine = \<lparr>en_Docker = [], en_Containerd = [], en_Driver = [], en_DataRoot = []\<rparr>,
     mf_QualifiedSources = [], mf_InstalledHostID = []\<rparr>"

definition zero_host :: host_status where
  "zero_host = \<lparr>h_Upstream = [], h_SkipDryRun = False, h_OperationID = [], h_Actor = [], h_State = [], h_Phase = [],
     h_SourceRelease = [], h_TargetRelease = [], h_Error = [], h_RollbackError = [], h_StartedAt = 0, h_UpdatedAt = 0,
     h_Manifest = zero_manifest, h_Source = zero_manifest, h_BootID = [], h_Watchdog = False, h_CommitFinalized = False\<rparr>"

definition zero_mgmt :: mgmt_status where
  "zero_mgmt = \<lparr>s_Upstream = [], s_SkipDryRun = False, s_OperationID = [], s_Actor = [], s_Phase = [], s_State = [],
     s_SourceRelease = [], s_TargetRelease = [], s_Error = [], s_RollbackError = [], s_StartedAt = 0, s_UpdatedAt = 0,
     s_Manifest = \<lparr>mm_Version = [], mm_Architecture = [], mm_RequiredHost = ([], []), mm_Images = [], mm_RQLiteSources = [], mm_RQLiteVersion = []\<rparr>,
     s_PreviousCompose = [], s_CandidateCompose = [], s_Datasets = [], s_Policies = [], s_Snapshot = [],
     s_Authorized = False, s_ActionKeys = [], s_ProductionChanged = False, s_CleanupState = []\<rparr>"

text \<open>\<open>^[A-Za-z0-9][A-Za-z0-9_-]{0,63}$\<close>\<close>

definition alnum :: "char \<Rightarrow> bool" where
  "alnum c \<longleftrightarrow> (CHR ''A'' \<le> c \<and> c \<le> CHR ''Z'') \<or> (CHR ''a'' \<le> c \<and> c \<le> CHR ''z'') \<or> (CHR ''0'' \<le> c \<and> c \<le> CHR ''9'')"

fun operationID :: "string \<Rightarrow> bool" where
  "operationID [] = False"
| "operationID (c # cs) \<longleftrightarrow> alnum c \<and> length cs \<le> 63 \<and> list_all (\<lambda>d. alnum d \<or> d = CHR ''_'' \<or> d = CHR ''-'') cs"

text \<open>\<open>^[A-Za-z0-9][A-Za-z0-9-]{0,38}/[A-Za-z0-9_][A-Za-z0-9_.-]{0,99}$\<close>\<close>

definition owner_name :: "string \<Rightarrow> bool" where
  "owner_name s \<longleftrightarrow> (case s of [] \<Rightarrow> False
     | c # cs \<Rightarrow> alnum c \<and> length cs \<le> 38 \<and> list_all (\<lambda>d. alnum d \<or> d = CHR ''-'') cs)"

definition repo_name :: "string \<Rightarrow> bool" where
  "repo_name s \<longleftrightarrow> (case s of [] \<Rightarrow> False
     | c # cs \<Rightarrow> (alnum c \<or> c = CHR ''_'') \<and> length cs \<le> 99 \<and>
         list_all (\<lambda>d. alnum d \<or> d = CHR ''_'' \<or> d = CHR ''.'' \<or> d = CHR ''-'') cs)"

definition repository :: "string \<Rightarrow> bool" where
  "repository s \<longleftrightarrow> (case dropWhile (\<lambda>c. c \<noteq> CHR ''/'') s of
     [] \<Rightarrow> False | _ # repo \<Rightarrow> owner_name (takeWhile (\<lambda>c. c \<noteq> CHR ''/'') s) \<and> repo_name repo)"

definition ValidateUpstream :: "string \<Rightarrow> error" where
  "ValidateUpstream upstream =
     (if upstream \<noteq> [] \<and> \<not> repository upstream then Some ''upstream must be a GitHub owner/repo'' else None)"

definition Repository :: "string \<Rightarrow> string" where
  "Repository upstream = (if upstream = [] then ''floatlab-hq/floatlab-core'' else upstream)"

section \<open>The world\<close>

datatype 'a doc = Missing | Corrupt | Present 'a

text \<open>
  How a \<open>WriteFile\<close> ends: done, failed with the old content, or failed after the rename, when only the directory was not synced. In
  the last case the new content is taken to stay; that a later loss of power brings the old file back is not modelled.
\<close>

datatype outcome = Written | Lost string | Unsynced string

record event =
  ev_Call :: string
  ev_Op :: string
  ev_OK :: bool
  ev_Host :: "host_status doc"
  ev_Mgmt :: "mgmt_status doc"
  ev_Checkpoint :: "mgmt_status doc"

record 'b world =
  host_json :: "host_status doc"
  host_history :: "(string \<times> host_status) list"
  host_actions :: "(string \<times> (request \<times> string)) list"
  host_downloads :: "(string \<times> string) list"
  guard_json :: "string \<Rightarrow> (string \<times> string \<times> int) doc"
  mgmt_json :: "mgmt_status doc"
  mgmt_history :: "(string \<times> mgmt_status doc) list"
  mgmt_os :: "string \<Rightarrow> mgmt_status doc"
  locked :: bool
  running :: bool
  system :: 'b
  power :: nat
  disk :: "nat \<Rightarrow> outcome"
  wall_clock :: "nat \<Rightarrow> int"
  trace :: "event list"

text \<open>\<open>update.Acquire\<close>: the lock is free unless another process holds it.\<close>

definition Acquire :: "('b world, error) prog" where
  "Acquire = get (\<lambda>w. if locked w then Some ''another update transaction is active'' else None)"

definition Now :: "('b world, int) prog" where
  "Now = get (\<lambda>w. wall_clock w (power w))"

text \<open>\<open>update.WriteJSON\<close> of a journal, \<open>upd\<close> being the effect of the rename.\<close>

definition WriteFile :: "('b world \<Rightarrow> 'b world) \<Rightarrow> ('b world, error) prog" where
  "WriteFile upd = (\<lambda>w. case power w of 0 \<Rightarrow> (None, w)
     | Suc n \<Rightarrow> (case disk w (Suc n) of
         Written \<Rightarrow> (Some None, upd (w\<lparr>power := n\<rparr>))
       | Lost e \<Rightarrow> (Some (Some e), w\<lparr>power := n\<rparr>)
       | Unsynced e \<Rightarrow> (Some (Some e), upd (w\<lparr>power := n\<rparr>))))"

text \<open>A call to the system: \<open>f\<close> is the call, \<open>errOf\<close> reads its error.\<close>

definition syscall :: "string \<Rightarrow> string \<Rightarrow> ('r \<Rightarrow> error) \<Rightarrow> ('b \<Rightarrow> 'r \<times> 'b) \<Rightarrow> ('b world, 'r) prog" where
  "syscall name op errOf f = (\<lambda>w. case power w of 0 \<Rightarrow> (None, w)
     | Suc n \<Rightarrow> (case f (system w) of (r, b) \<Rightarrow>
         (Some r, w\<lparr>power := n, system := b,
            trace := \<lparr>ev_Call = name, ev_Op = op, ev_OK = (errOf r = None), ev_Host = host_json w, ev_Mgmt = mgmt_json w,
                      ev_Checkpoint = mgmt_os w op\<rparr> # trace w\<rparr>)))"

section \<open>Symbolic execution of the primitives\<close>

lemma wp_Acquire [wp_simps]:
  "wp Acquire Q w \<longleftrightarrow> Q (Some (if locked w then Some ''another update transaction is active'' else None)) w"
  by (simp add: Acquire_def wp_get)

lemma wp_Now [wp_simps]: "wp Now Q w \<longleftrightarrow> Q (Some (wall_clock w (power w))) w"
  by (simp add: Now_def wp_get)

lemma wp_WriteFile:
  "wp (WriteFile upd) Q w \<longleftrightarrow> (case power w of 0 \<Rightarrow> Q None w
     | Suc n \<Rightarrow> (case disk w (Suc n) of
         Written \<Rightarrow> Q (Some None) (upd (w\<lparr>power := n\<rparr>))
       | Lost e \<Rightarrow> Q (Some (Some e)) (w\<lparr>power := n\<rparr>)
       | Unsynced e \<Rightarrow> Q (Some (Some e)) (upd (w\<lparr>power := n\<rparr>))))"
  by (simp add: wp_def WriteFile_def split: nat.splits outcome.splits)

lemma wp_WriteFileI:
  assumes "Q None w"
    and "\<And>n. Q (Some None) (upd (w\<lparr>power := n\<rparr>))"
    and "\<And>n e. Q (Some (Some e)) (w\<lparr>power := n\<rparr>)"
    and "\<And>n e. Q (Some (Some e)) (upd (w\<lparr>power := n\<rparr>))"
  shows "wp (WriteFile upd) Q w"
  using assms by (simp add: wp_WriteFile split: nat.splits outcome.splits)

lemma wp_syscallI:
  assumes "Q None w"
    and "\<And>n r b. f (system w) = (r, b) \<Longrightarrow> Q (Some r) (w\<lparr>power := n, system := b,
            trace := \<lparr>ev_Call = name, ev_Op = op, ev_OK = (errOf r = None), ev_Host = host_json w, ev_Mgmt = mgmt_json w,
                      ev_Checkpoint = mgmt_os w op\<rparr> # trace w\<rparr>)"
  shows "wp (syscall name op errOf f) Q w"
  using assms by (auto simp: wp_def syscall_def split: nat.splits prod.splits)

text \<open>With power and a working disk.\<close>

definition disk_works :: "'b world \<Rightarrow> bool" where
  "disk_works w \<longleftrightarrow> (\<forall>n. disk w n = Written)"

lemma wp_WriteFile_works:
  "power w = Suc n \<Longrightarrow> disk w (Suc n) = Written \<Longrightarrow> wp (WriteFile upd) Q w \<longleftrightarrow> Q (Some None) (upd (w\<lparr>power := n\<rparr>))"
  by (simp add: wp_WriteFile)

end
