(* ===== verification/Management_Update.thy ===== *)
theory Management_Update
  imports Update_World
begin

text \<open>
  The management updater (\<open>internal/managementupdate/manager.go\<close>): an offline transaction that
  fences the management stack, snapshots its datasets, installs a release and either authorizes it
  or restores the snapshot, with a journal that recovery replays after a power loss; and the
  checkpoints the host updater takes of the management stack around an OS trial.

  The \<open>Backend\<close> interface is a record of functions on the system's state. Go passes \<open>*Status\<close>, so
  a call returns the status it leaves behind. A \<open>go func\<close> that holds the update lock runs after
  the call that started it has returned its copy, and before any other locked operation: here it
  is the tail of the same program.
\<close>

section \<open>The backend\<close>

record 'b mgmt_backend =
  mb_Prepare :: "mgmt_status \<Rightarrow> 'b \<Rightarrow> (error \<times> mgmt_status) \<times> 'b"
  mb_Preflight :: "mgmt_status \<Rightarrow> 'b \<Rightarrow> (error \<times> mgmt_status) \<times> 'b"
  mb_Fence :: "mgmt_status \<Rightarrow> 'b \<Rightarrow> (error \<times> mgmt_status) \<times> 'b"
  mb_Snapshot :: "mgmt_status \<Rightarrow> 'b \<Rightarrow> (error \<times> mgmt_status) \<times> 'b"
  mb_Install :: "mgmt_status \<Rightarrow> 'b \<Rightarrow> (error \<times> mgmt_status) \<times> 'b"
  mb_Healthy :: "mgmt_status \<Rightarrow> 'b \<Rightarrow> (error \<times> mgmt_status) \<times> 'b"
  mb_Restore :: "mgmt_status \<Rightarrow> 'b \<Rightarrow> (error \<times> mgmt_status) \<times> 'b"
  mb_Authorize :: "mgmt_status \<Rightarrow> 'b \<Rightarrow> (error \<times> mgmt_status) \<times> 'b"
  mb_Cleanup :: "mgmt_status \<Rightarrow> 'b \<Rightarrow> (error \<times> mgmt_status) \<times> 'b"
  mb_capture :: "mgmt_status \<Rightarrow> 'b \<Rightarrow> (error \<times> mgmt_status) \<times> 'b"
  mb_releaseImages :: "mgmt_status \<Rightarrow> 'b \<Rightarrow> error \<times> 'b"
  mb_WriteBlocked :: "string \<Rightarrow> 'b \<Rightarrow> error \<times> 'b"
  mb_RemoveBlocked :: "'b \<Rightarrow> error \<times> 'b"
  mb_verifyMountedDatasets :: "dataset list \<Rightarrow> 'b \<Rightarrow> error \<times> 'b"
  mb_noRestart :: "string \<Rightarrow> string + string"
  mb_WriteCompose :: "string \<Rightarrow> 'b \<Rightarrow> error \<times> 'b"
  mb_composeUp :: "'b \<Rightarrow> error \<times> 'b"
  mb_composeImages :: "string \<Rightarrow> string + (string \<times> string) list"
  mb_requiredHostContains :: "string \<Rightarrow> 'b \<Rightarrow> (string + bool) \<times> 'b"

definition bcall ::
  "string \<Rightarrow> (mgmt_status \<Rightarrow> 'b \<Rightarrow> (error \<times> mgmt_status) \<times> 'b) \<Rightarrow> mgmt_status \<Rightarrow> ('b world, error \<times> mgmt_status) prog" where
  "bcall name f s = syscall name (s_OperationID s) fst (f s)"

definition ecall :: "string \<Rightarrow> string \<Rightarrow> ('b \<Rightarrow> error \<times> 'b) \<Rightarrow> ('b world, error) prog" where
  "ecall name op f = syscall name op id f"

section \<open>The journal\<close>

definition save :: "mgmt_status \<Rightarrow> ('b world, error \<times> mgmt_status) prog" where
  "save s = seq Now (\<lambda>now.
     let s' = s\<lparr>s_UpdatedAt := now\<rparr> in
     seq (WriteFile (\<lambda>w. w\<lparr>mgmt_json := Present s'\<rparr>)) (\<lambda>e. ret (e, s')))"

definition idle_status :: mgmt_status where
  "idle_status = zero_mgmt\<lparr>s_State := ''idle'', s_Phase := ''idle''\<rparr>"

definition ErrNotFound :: string where "ErrNotFound = ''operation not found''"

definition read :: "string \<Rightarrow> ('b world, string + mgmt_status) prog" where
  "read opid = get (\<lambda>w. case mgmt_json w of
     Missing \<Rightarrow> if opid \<noteq> [] then Inl ErrNotFound else Inr idle_status
   | Corrupt \<Rightarrow> Inl ''json: cannot unmarshal''
   | Present s \<Rightarrow> if opid \<noteq> [] \<and> s_OperationID s \<noteq> opid then Inl ErrNotFound else Inr s)"

definition Status :: "string \<Rightarrow> ('b world, string + mgmt_status) prog" where
  "Status opid = read opid"

definition terminal :: "mgmt_status \<Rightarrow> bool" where
  "terminal s \<longleftrightarrow> s_State s = ''idle'' \<or> s_State s = ''succeeded'' \<or> s_State s = ''failed'' \<or> s_State s = ''rolled_back''"

definition hostAvailable :: "('b world, error) prog" where
  "hostAvailable = get (\<lambda>w. case host_json w of
     Missing \<Rightarrow> None
   | Corrupt \<Rightarrow> Some ''json: cannot unmarshal''
   | Present s \<Rightarrow> if h_State s \<in> {[], ''committed'', ''recovered'', ''failed''} then None
       else Some ''host update blocks management updates'')"

section \<open>The transaction\<close>

definition step ::
  "mgmt_status \<Rightarrow> string \<Rightarrow> string \<Rightarrow> (mgmt_status \<Rightarrow> 'b \<Rightarrow> (error \<times> mgmt_status) \<times> 'b) \<Rightarrow> ('b world, error \<times> mgmt_status) prog" where
  "step s phase name fn = seq (save (s\<lparr>s_Phase := phase\<rparr>)) (\<lambda>(err, s1).
     case err of Some e \<Rightarrow> ret (Some e, s1)
     | None \<Rightarrow> seq (bcall name fn s1) (\<lambda>(err, s2).
         seq (save s2) (\<lambda>(saveErr, s3). ret (if err = None then saveErr else err, s3))))"

definition recovery_failed :: "string \<Rightarrow> mgmt_status \<Rightarrow> ('b world, error \<times> mgmt_status) prog" where
  "recovery_failed e s = seq (save (s\<lparr>s_State := ''recovery_failed'', s_RollbackError := e\<rparr>)) (\<lambda>(_, s'). ret (Some e, s'))"

definition rollback :: "'b mgmt_backend \<Rightarrow> mgmt_status \<Rightarrow> ('b world, error \<times> mgmt_status) prog" where
  "rollback B s =
     seq (step (s\<lparr>s_State := ''recovering'', s_Authorized := False\<rparr>) ''restoring'' ''Restore'' (mb_Restore B)) (\<lambda>(err, s1).
     case err of Some e \<Rightarrow> recovery_failed e s1
     | None \<Rightarrow> seq (step s1 ''verifying_previous'' ''Healthy'' (mb_Healthy B)) (\<lambda>(err, s2).
     case err of Some e \<Rightarrow> recovery_failed e s2
     | None \<Rightarrow> seq (step (s2\<lparr>s_Authorized := True\<rparr>) ''authorizing_previous'' ''Authorize'' (mb_Authorize B)) (\<lambda>(err, s3).
     case err of Some e \<Rightarrow> ret (Some e, s3)
     | None \<Rightarrow> save (s3\<lparr>s_State := ''rolled_back'', s_Phase := ''rolled_back'', s_RollbackError := []\<rparr>))))"

definition snapshot_name :: "string \<Rightarrow> string" where
  "snapshot_name opid = ''floatlab-update-'' @ opid"

definition exec_failed :: "'b mgmt_backend \<Rightarrow> string \<Rightarrow> mgmt_status \<Rightarrow> ('b world, mgmt_status option) prog" where
  "exec_failed B e s = (let s1 = s\<lparr>s_Error := e\<rparr> in
     if s_Phase s1 = ''prepare'' \<or> s_Phase s1 = ''preflight''
     then seq (bcall ''Cleanup'' (mb_Cleanup B) (s1\<lparr>s_State := ''failed''\<rparr>)) (\<lambda>(_, s2). seq (save s2) (\<lambda>_. ret None))
     else seq (rollback B s1) (\<lambda>_. ret None))"

text \<open>
  The loop over the steps; the result is \<open>None\<close> when \<open>execute\<close> returned from inside it. A step is
  its phase, the name of the backend call and the call.
\<close>

primrec exec_steps ::
  "'b mgmt_backend \<Rightarrow> (string \<times> string \<times> (mgmt_status \<Rightarrow> 'b \<Rightarrow> (error \<times> mgmt_status) \<times> 'b)) list \<Rightarrow> mgmt_status
     \<Rightarrow> ('b world, mgmt_status option) prog" where
  "exec_steps B [] s = ret (Some s)"
| "exec_steps B (st # rest) s =
     (if fst st = ''preflight'' \<and> s_SkipDryRun s then exec_steps B rest s
      else
        let s0 = (if fst st = ''snapshot'' then s\<lparr>s_Snapshot := snapshot_name (s_OperationID s)\<rparr> else s);
            s1 = (if fst st = ''installing'' then s0\<lparr>s_ProductionChanged := True\<rparr> else s0)
        in seq (step s1 (fst st) (fst (snd st)) (snd (snd st))) (\<lambda>(err, s2).
          case err of
            Some e \<Rightarrow> exec_failed B e s2
          | None \<Rightarrow>
              if fst st = ''preflight''
              then seq (bcall ''Cleanup'' (mb_Cleanup B) s2) (\<lambda>(err, s3).
                case err of
                  Some e \<Rightarrow> seq (save (s3\<lparr>s_Error := ''preflight resource cleanup: '' @ e, s_State := ''failed''\<rparr>)) (\<lambda>_. ret None)
                | None \<Rightarrow> exec_steps B rest s3)
              else exec_steps B rest s2))"

definition update_steps :: "'b mgmt_backend \<Rightarrow> (string \<times> string \<times> (mgmt_status \<Rightarrow> 'b \<Rightarrow> (error \<times> mgmt_status) \<times> 'b)) list" where
  "update_steps B = [(''prepare'', ''Prepare'', mb_Prepare B), (''preflight'', ''Preflight'', mb_Preflight B),
     (''fencing'', ''Fence'', mb_Fence B), (''snapshot'', ''Snapshot'', mb_Snapshot B),
     (''installing'', ''Install'', mb_Install B), (''checking'', ''Healthy'', mb_Healthy B)]"

text \<open>\<open>PruneHistory\<close> over the entries of \<open>management-history\<close>, in the order of \<open>os.ReadDir\<close>: by the names of the files.\<close>

primrec prune_entries :: "'b mgmt_backend \<Rightarrow> string list \<Rightarrow> ('b world, error) prog" where
  "prune_entries B [] = ret None"
| "prune_entries B (name # names) = seq (get (\<lambda>w. map_of (mgmt_history w) name)) (\<lambda>d. case d of
       Some (Present s) \<Rightarrow>
         if \<not> operationID (s_OperationID s) \<or> name \<noteq> s_OperationID s then ret (Some ''invalid historical operation identity'')
         else seq (bcall ''Cleanup'' (mb_Cleanup B) s) (\<lambda>(err, s1). case err of Some e \<Rightarrow> ret (Some e)
           | None \<Rightarrow> guarded (ecall ''releaseImages'' (s_OperationID s1) (mb_releaseImages B s1)) (\<lambda>e. ret (Some e))
             (let s2 = s1\<lparr>s_Snapshot := [], s_PreviousCompose := [], s_CandidateCompose := [],
                          s_Manifest := (s_Manifest s1)\<lparr>mm_Images := []\<rparr>\<rparr>
              in guarded (WriteFile (\<lambda>w. w\<lparr>mgmt_history := AList.update name (Present s2) (mgmt_history w)\<rparr>)) (\<lambda>e. ret (Some e))
                   (prune_entries B names)))
     | _ \<Rightarrow> ret (Some ''cannot read history entry''))"

definition PruneHistory :: "'b mgmt_backend \<Rightarrow> ('b world, error) prog" where
  "PruneHistory B = fetch (Status []) (\<lambda>e. ret (Some e)) (\<lambda>current.
     if s_State current \<noteq> ''succeeded'' \<or> s_Snapshot current = [] then ret None
     else seq (get (\<lambda>w. sort_key (\<lambda>name. name @ ''.json'') (map fst (mgmt_history w)))) (prune_entries B))"

definition execute :: "'b mgmt_backend \<Rightarrow> mgmt_status \<Rightarrow> ('b world, unit) prog" where
  "execute B s = seq (exec_steps B (update_steps B) s) (\<lambda>r. case r of None \<Rightarrow> ret ()
     | Some s1 \<Rightarrow> seq (step (s1\<lparr>s_Authorized := True\<rparr>) ''authorizing'' ''Authorize'' (mb_Authorize B)) (\<lambda>(err, s2).
       case err of
         Some e \<Rightarrow> seq (rollback B (s2\<lparr>s_Error := e\<rparr>)) (\<lambda>_. ret ())
       | None \<Rightarrow> seq (save (s2\<lparr>s_State := ''succeeded'', s_Phase := ''committed''\<rparr>)) (\<lambda>(_, s3).
           seq (PruneHistory B) (\<lambda>err. case err of None \<Rightarrow> ret ()
             | Some e \<Rightarrow> seq (save (s3\<lparr>s_Error := ''committed; previous resource cleanup pending: '' @ e\<rparr>)) (\<lambda>_. ret ())))))"

section \<open>Entry points\<close>

text \<open>\<open>validRelease\<close> is the check of the release tag by \<open>release.Parse\<close> (hashicorp/go-version).\<close>

definition invalid_start :: "(string \<Rightarrow> bool) \<Rightarrow> request \<Rightarrow> error" where
  "invalid_start validRelease r =
     (if \<not> operationID (rq_OperationID r) \<or> rq_Actor r = [] \<or> 256 < length (rq_Actor r) \<or> \<not> validRelease (rq_Release r)
      then Some ''invalid update request: valid operation_id, actor and official manage-v release required''
      else map_option (\<lambda>e. ''invalid update request: '' @ e) (ValidateUpstream (rq_Upstream r)))"

definition same_request :: "mgmt_status \<Rightarrow> request \<Rightarrow> bool" where
  "same_request s r \<longleftrightarrow> s_TargetRelease s = rq_Release r \<and> Repository (s_Upstream s) = Repository (rq_Upstream r) \<and>
     s_SkipDryRun s = rq_SkipDryRun r"

definition reuse :: "mgmt_status \<Rightarrow> request \<Rightarrow> string + mgmt_status" where
  "reuse s r = (if same_request s r then Inr s
     else Inl ''operation ID already used for another release or update options'')"

definition background :: "('b world, 'a) prog \<Rightarrow> ('b world, unit) prog" where
  "background m = seq (modify (\<lambda>w. w\<lparr>running := True\<rparr>)) (\<lambda>_. seq m (\<lambda>_. modify (\<lambda>w. w\<lparr>running := False\<rparr>)))"

definition Start :: "'b mgmt_backend \<Rightarrow> (string \<Rightarrow> bool) \<Rightarrow> request \<Rightarrow> ('b world, string + mgmt_status) prog" where
  "Start B validRelease r = (case invalid_start validRelease r of Some e \<Rightarrow> ret (Inl e)
     | None \<Rightarrow> fetch (read []) (\<lambda>e. ret (Inl e)) (\<lambda>old.
       if s_OperationID old = rq_OperationID r then ret (reuse old r)
       else seq (get (\<lambda>w. map_of (mgmt_history w) (rq_OperationID r))) (\<lambda>previous. case previous of
           Some (Present p) \<Rightarrow> ret (reuse p r)
         | Some _ \<Rightarrow> ret (Inl ''json: cannot unmarshal'')
         | None \<Rightarrow> seq (get running) (\<lambda>busy.
             if busy \<or> \<not> terminal old then ret (Inl ''management recovery is pending'')
             else guarded Acquire (\<lambda>e. ret (Inl e))
               (guarded hostAvailable (\<lambda>e. ret (Inl e))
               (guarded (if s_OperationID old \<noteq> []
                         then WriteFile (\<lambda>w. w\<lparr>mgmt_history := AList.update (s_OperationID old) (Present old) (mgmt_history w)\<rparr>)
                         else ret None) (\<lambda>e. ret (Inl e))
               (seq Now (\<lambda>now.
                let s = zero_mgmt\<lparr>s_OperationID := rq_OperationID r, s_Actor := rq_Actor r, s_TargetRelease := rq_Release r,
                      s_Upstream := rq_Upstream r, s_SkipDryRun := rq_SkipDryRun r, s_State := ''running'',
                      s_Phase := ''prepare'', s_StartedAt := now\<rparr>
                in seq (save s) (\<lambda>(err, s'). case err of Some e \<Rightarrow> ret (Inl e)
                     | None \<Rightarrow> seq (background (execute B s')) (\<lambda>_. ret (Inr s')))))))))))"

definition recover_cleaning :: "'b mgmt_backend \<Rightarrow> mgmt_status \<Rightarrow> ('b world, error) prog" where
  "recover_cleaning B s = seq (bcall ''Cleanup'' (mb_Cleanup B) (s\<lparr>s_Snapshot := []\<rparr>)) (\<lambda>(err, _).
     case err of Some e \<Rightarrow> ret (Some e)
     | None \<Rightarrow> seq (save (s\<lparr>s_State := (if s_CleanupState s = [] then ''succeeded'' else s_CleanupState s), s_Phase := ''cleaned''\<rparr>))
         (\<lambda>(e, _). ret e))"

definition recover_authorized :: "'b mgmt_backend \<Rightarrow> mgmt_status \<Rightarrow> ('b world, error) prog" where
  "recover_authorized B s = seq (bcall ''Authorize'' (mb_Authorize B) s) (\<lambda>(err, s1).
     case err of Some e \<Rightarrow> ret (Some e)
     | None \<Rightarrow> seq (save (if s_State s1 = ''recovering''
           then s1\<lparr>s_State := ''rolled_back'', s_Phase := ''rolled_back'', s_RollbackError := []\<rparr>
           else s1\<lparr>s_State := ''succeeded'', s_Phase := ''committed''\<rparr>)) (\<lambda>(e, _). ret e))"

definition Recover :: "'b mgmt_backend \<Rightarrow> ('b world, error) prog" where
  "Recover B = guarded Acquire (\<lambda>e. ret (Some e)) (fetch (Status []) (\<lambda>e. ret (Some e)) (\<lambda>s.
     if terminal s then ret None
     else if s_Phase s = ''cleaning'' then recover_cleaning B s
     else if s_Authorized s then recover_authorized B s
     else if s_Phase s = ''prepare'' \<or> s_Phase s = ''preflight''
     then seq (bcall ''Cleanup'' (mb_Cleanup B) (s\<lparr>s_State := ''failed'', s_Error := ''interrupted before production changes''\<rparr>))
            (\<lambda>(err, s1). case err of Some e \<Rightarrow> ret (Some e) | None \<Rightarrow> seq (save s1) (\<lambda>(e, _). ret e))
     else seq (rollback B s) (\<lambda>(e, _). ret e)))"

definition Rollback :: "'b mgmt_backend \<Rightarrow> string \<Rightarrow> ('b world, error \<times> mgmt_status option) prog" where
  "Rollback B opid = seq (get running) (\<lambda>busy.
     if busy then ret (Some ''transaction active'', None)
     else guarded Acquire (\<lambda>e. ret (Some e, None)) (fetch (Status opid) (\<lambda>e. ret (Some e, None)) (\<lambda>s.
       if s_Snapshot s = [] then ret (Some ''no retained rollback checkpoint'', None)
       else seq (rollback B s) (\<lambda>(e, s'). ret (e, Some s')))))"

definition Cleanup :: "'b mgmt_backend \<Rightarrow> string \<Rightarrow> ('b world, error \<times> mgmt_status option) prog" where
  "Cleanup B opid = guarded Acquire (\<lambda>e. ret (Some e, None)) (fetch (Status opid) (\<lambda>e. ret (Some e, None)) (\<lambda>s.
     if \<not> terminal s then ret (Some ''cannot clean up a pending transaction'', None)
     else seq (bcall ''Cleanup'' (mb_Cleanup B) (s\<lparr>s_Snapshot := []\<rparr>)) (\<lambda>(err, _). case err of Some e \<Rightarrow> ret (Some e, None)
       | None \<Rightarrow> guarded (PruneHistory B) (\<lambda>e. ret (Some e, None)) (seq (save s) (\<lambda>(e, s'). ret (e, Some s'))))))"

definition cleanup_job :: "'b mgmt_backend \<Rightarrow> mgmt_status \<Rightarrow> ('b world, unit) prog" where
  "cleanup_job B s = seq (bcall ''Cleanup'' (mb_Cleanup B) (s\<lparr>s_Snapshot := []\<rparr>)) (\<lambda>(err, _).
     let s1 = (case err of Some e \<Rightarrow> s\<lparr>s_Error := e, s_State := ''failed''\<rparr>
               | None \<Rightarrow> s\<lparr>s_State := (if s_CleanupState s = [] then ''succeeded'' else s_CleanupState s), s_Phase := ''cleaned''\<rparr>)
     in seq (save s1) (\<lambda>_. if s_State s1 = ''succeeded'' then seq (PruneHistory B) (\<lambda>_. ret ()) else ret ()))"

definition requestAction :: "'b mgmt_backend \<Rightarrow> request \<Rightarrow> string \<Rightarrow> ('b world, string + mgmt_status) prog" where
  "requestAction B r action =
     (if \<not> operationID (rq_OperationID r) \<or> rq_IdempotencyKey r = [] \<or> 255 < length (rq_IdempotencyKey r) \<or> rq_Actor r = []
      then ret (Inl ''valid operation_id, idempotency_key and actor required'')
      else fetch (read (rq_OperationID r)) (\<lambda>e. ret (Inl e)) (\<lambda>s.
        if map_of (s_ActionKeys s) action = Some (rq_IdempotencyKey r) then ret (Inr s)
        else seq (get running) (\<lambda>busy.
          if busy \<or> \<not> terminal s then ret (Inl ''transaction active or recovery pending'')
          else guarded hostAvailable (\<lambda>e. ret (Inl e)) (guarded Acquire (\<lambda>e. ret (Inl e))
            (if action = ''rollback'' \<and> s_Snapshot s = [] then ret (Inl ''no retained rollback checkpoint'')
             else
               let s1 = s\<lparr>s_ActionKeys := AList.update action (rq_IdempotencyKey r) (s_ActionKeys s),
                          s_CleanupState := (if action = ''cleanup'' then s_State s else s_CleanupState s),
                          s_State := ''running'',
                          s_Phase := (if action = ''cleanup'' then ''cleaning'' else ''restoring''),
                          s_Authorized := (if action = ''rollback'' then False else s_Authorized s)\<rparr>
               in seq (save s1) (\<lambda>(err, s2). case err of Some e \<Rightarrow> ret (Inl e)
                    | None \<Rightarrow> seq (background (if action = ''rollback'' then seq (rollback B s2) (\<lambda>_. ret ()) else cleanup_job B s2))
                        (\<lambda>_. ret (Inr s2))))))))"

definition RequestRollback where "RequestRollback B r = requestAction B r ''rollback''"

definition RequestCleanup where "RequestCleanup B r = requestAction B r ''cleanup''"

section \<open>Checkpoints for the host updater\<close>

text \<open>In the trace the backend calls made for a checkpoint carry the prefix \<open>os.\<close>.\<close>

definition write_os :: "string \<Rightarrow> mgmt_status \<Rightarrow> ('b world, error) prog" where
  "write_os opid s = WriteFile (\<lambda>w. w\<lparr>mgmt_os := (mgmt_os w)(opid := Present s)\<rparr>)"

definition Checkpoint :: "'b mgmt_backend \<Rightarrow> string \<Rightarrow> ('b world, error) prog" where
  "Checkpoint B opid = (if \<not> operationID opid then ret (Some ''invalid operation ID'')
     else seq (bcall ''os.capture'' (mb_capture B) (zero_mgmt\<lparr>s_OperationID := opid, s_State := ''os_checkpoint'', s_Phase := ''fencing''\<rparr>))
       (\<lambda>(err, s1). case err of Some e \<Rightarrow> ret (Some e)
       | None \<Rightarrow> guarded (write_os opid s1) (\<lambda>e. ret (Some e))
         (seq (bcall ''os.Fence'' (mb_Fence B) s1) (\<lambda>(err, s2). case err of Some e \<Rightarrow> ret (Some e)
         | None \<Rightarrow> let s3 = s2\<lparr>s_Snapshot := snapshot_name opid\<rparr> in
           guarded (write_os opid s3) (\<lambda>e. ret (Some e))
           (seq (bcall ''os.Snapshot'' (mb_Snapshot B) s3) (\<lambda>(err, s4). case err of Some e \<Rightarrow> ret (Some e)
           | None \<Rightarrow> write_os opid (s4\<lparr>s_ProductionChanged := True, s_Phase := ''checkpoint_ready''\<rparr>)))))))"

definition checkpoint :: "string \<Rightarrow> ('b world, string + mgmt_status) prog" where
  "checkpoint opid = (if \<not> operationID opid then ret (Inl ''invalid operation ID'')
     else get (\<lambda>w. case mgmt_os w opid of Missing \<Rightarrow> Inl ''no such file or directory''
       | Corrupt \<Rightarrow> Inl ''json: cannot unmarshal'' | Present s \<Rightarrow> Inr s))"

definition RestoreCheckpoint :: "'b mgmt_backend \<Rightarrow> string \<Rightarrow> ('b world, error) prog" where
  "RestoreCheckpoint B opid = fetch (checkpoint opid) (\<lambda>e. ret (Some e)) (\<lambda>s.
     seq (bcall ''os.Restore'' (mb_Restore B) s) (\<lambda>(err, s1). case err of Some e \<Rightarrow> ret (Some e)
     | None \<Rightarrow> seq (bcall ''os.Healthy'' (mb_Healthy B) s1) (\<lambda>(err, s2). case err of Some e \<Rightarrow> ret (Some e)
     | None \<Rightarrow> let s3 = s2\<lparr>s_Authorized := True\<rparr> in
       guarded (write_os opid s3) (\<lambda>e. ret (Some e))
         (seq (bcall ''os.Authorize'' (mb_Authorize B) s3) (\<lambda>(e, _). ret e)))))"

definition ReleaseCheckpoint :: "'b mgmt_backend \<Rightarrow> string \<Rightarrow> ('b world, error) prog" where
  "ReleaseCheckpoint B opid = fetch (checkpoint opid) (\<lambda>e. ret (Some e)) (\<lambda>s.
     let s1 = s\<lparr>s_Authorized := True\<rparr> in
     guarded (write_os opid s1) (\<lambda>e. ret (Some e))
       (seq (bcall ''os.Authorize'' (mb_Authorize B) s1) (\<lambda>(e, _). ret e)))"

definition StartCheckpointTrial :: "'b mgmt_backend \<Rightarrow> string \<Rightarrow> ('b world, error) prog" where
  "StartCheckpointTrial B opid = fetch (checkpoint opid) (\<lambda>e. ret (Some e)) (\<lambda>s.
     guarded (ecall ''WriteBlocked'' opid (mb_WriteBlocked B opid)) (\<lambda>e. ret (Some e))
     (guarded (ecall ''verifyMountedDatasets'' opid (mb_verifyMountedDatasets B (s_Datasets s))) (\<lambda>e. ret (Some e))
     (case mb_noRestart B (s_PreviousCompose s) of Inl e \<Rightarrow> ret (Some e)
      | Inr b \<Rightarrow> guarded (ecall ''WriteCompose'' opid (mb_WriteCompose B b)) (\<lambda>e. ret (Some e))
          (ecall ''composeUp'' opid (mb_composeUp B)))))"

definition CheckpointHealthy :: "'b mgmt_backend \<Rightarrow> string \<Rightarrow> ('b world, error) prog" where
  "CheckpointHealthy B opid = fetch (checkpoint opid) (\<lambda>e. ret (Some e))
     (\<lambda>s. seq (bcall ''os.Healthy'' (mb_Healthy B) s) (\<lambda>(e, _). ret e))"

definition ActivateCheckpointControllers :: "'b mgmt_backend \<Rightarrow> string \<Rightarrow> ('b world, error) prog" where
  "ActivateCheckpointControllers B opid = fetch (checkpoint opid) (\<lambda>e. ret (Some e))
     (\<lambda>_. ecall ''RemoveBlocked'' opid (mb_RemoveBlocked B))"

definition StopCheckpoint :: "'b mgmt_backend \<Rightarrow> string \<Rightarrow> ('b world, error) prog" where
  "StopCheckpoint B opid = fetch (checkpoint opid) (\<lambda>e. ret (Some e))
     (\<lambda>s. seq (bcall ''os.Fence'' (mb_Fence B) s) (\<lambda>(e, _). ret e))"

definition CleanupCheckpoint :: "'b mgmt_backend \<Rightarrow> string \<Rightarrow> ('b world, error) prog" where
  "CleanupCheckpoint B opid = seq (get (\<lambda>w. mgmt_os w opid)) (\<lambda>d.
     if operationID opid \<and> d = Missing then ret None
     else fetch (checkpoint opid) (\<lambda>e. ret (Some e)) (\<lambda>s.
       seq (bcall ''os.Cleanup'' (mb_Cleanup B) s) (\<lambda>(err, _). case err of Some e \<Rightarrow> ret (Some e)
       | None \<Rightarrow> WriteFile (\<lambda>w. w\<lparr>mgmt_os := (mgmt_os w)(opid := Missing)\<rparr>))))"

definition ValidateCheckpointHost :: "'b mgmt_backend \<Rightarrow> string \<Rightarrow> ('b world, error) prog" where
  "ValidateCheckpointHost B version =
     seq (syscall ''requiredHost'' version (\<lambda>r. case r of Inl e \<Rightarrow> Some e | Inr _ \<Rightarrow> None) (mb_requiredHostContains B version))
       (\<lambda>r. case r of Inl e \<Rightarrow> ret (Some e)
        | Inr ok \<Rightarrow> ret (if ok then None else Some ''installed management is incompatible with target host''))"

definition join_errors :: "error \<Rightarrow> error \<Rightarrow> error" where
  "join_errors a b = (case (a, b) of (None, y) \<Rightarrow> y | (Some x, None) \<Rightarrow> Some x | (Some x, Some y) \<Rightarrow> Some (x @ [CHR 0x0A] @ y))"

definition PreflightCheckpoint :: "'b mgmt_backend \<Rightarrow> string \<Rightarrow> ('b world, error) prog" where
  "PreflightCheckpoint B opid = (if \<not> operationID opid then ret (Some ''invalid operation ID'')
     else seq (bcall ''os.capture'' (mb_capture B) (zero_mgmt\<lparr>s_OperationID := opid\<rparr>)) (\<lambda>(err, s). case err of Some e \<Rightarrow> ret (Some e)
     | None \<Rightarrow> (case mb_composeImages B (s_PreviousCompose s) of Inl e \<Rightarrow> ret (Some e)
       | Inr images \<Rightarrow>
         seq (bcall ''os.Preflight'' (mb_Preflight B) (s\<lparr>s_Manifest := (s_Manifest s)\<lparr>mm_Images := images\<rparr>\<rparr>)) (\<lambda>(e, s1).
         seq (bcall ''os.Cleanup'' (mb_Cleanup B) s1) (\<lambda>(cleanupErr, _). ret (join_errors e cleanupErr))))))"

section \<open>Rules for the updater's steps\<close>

text \<open>
  The fields of a status that decide what the updater does next. The backend fills in the others
  (releases, definitions, datasets): \<open>keeps_control\<close> is what the manager relies on. (\<open>Snapshot\<close> of the repository's backend writes
  the name of the snapshot again, which the manager has set before it calls it.)
\<close>

definition control :: "mgmt_status \<Rightarrow> string \<times> string \<times> string \<times> string \<times> bool \<times> bool \<times> bool \<times> string" where
  "control s = (s_OperationID s, s_State s, s_Phase s, s_Snapshot s, s_Authorized s, s_ProductionChanged s,
     s_SkipDryRun s, s_CleanupState s)"

definition keeps_control :: "(mgmt_status \<Rightarrow> 'b \<Rightarrow> (error \<times> mgmt_status) \<times> 'b) \<Rightarrow> bool" where
  "keeps_control f \<longleftrightarrow> (\<forall>s b. control (snd (fst (f s b))) = control s)"

definition backend_frame :: "'b mgmt_backend \<Rightarrow> bool" where
  "backend_frame B \<longleftrightarrow> keeps_control (mb_Prepare B) \<and> keeps_control (mb_Preflight B) \<and> keeps_control (mb_Fence B) \<and>
     keeps_control (mb_Snapshot B) \<and> keeps_control (mb_Install B) \<and> keeps_control (mb_Healthy B) \<and>
     keeps_control (mb_Restore B) \<and> keeps_control (mb_Authorize B) \<and> keeps_control (mb_Cleanup B) \<and> keeps_control (mb_capture B)"

lemma control_UpdatedAt [simp]: "control (s\<lparr>s_UpdatedAt := t\<rparr>) = control s"
  by (simp add: control_def)

lemma backend_frameD:
  assumes "backend_frame B"
  shows "keeps_control (mb_Prepare B)" "keeps_control (mb_Preflight B)" "keeps_control (mb_Fence B)"
    "keeps_control (mb_Snapshot B)" "keeps_control (mb_Install B)" "keeps_control (mb_Healthy B)"
    "keeps_control (mb_Restore B)" "keeps_control (mb_Authorize B)" "keeps_control (mb_Cleanup B)" "keeps_control (mb_capture B)"
  using assms by (simp_all add: backend_frame_def)

text \<open>A property of worlds that power, the running flag and the clock do not touch.\<close>

definition spared :: "('b world \<Rightarrow> bool) \<Rightarrow> bool" where
  "spared I \<longleftrightarrow> (\<forall>w n. I w \<longrightarrow> I (w\<lparr>power := n\<rparr>))"

text \<open>Writing any status that agrees with \<open>s\<close> on the control fields keeps \<open>I\<close>.\<close>

definition writable :: "('b world \<Rightarrow> bool) \<Rightarrow> mgmt_status \<Rightarrow> bool" where
  "writable I s \<longleftrightarrow> (\<forall>w s'. I w \<longrightarrow> control s' = control s \<longrightarrow> I (w\<lparr>mgmt_json := Present s'\<rparr>))"

text \<open>Calling \<open>name\<close> for operation \<open>op\<close> keeps \<open>I\<close>, whatever the system answers.\<close>

definition callable :: "('b world \<Rightarrow> bool) \<Rightarrow> ('b world \<Rightarrow> bool) \<Rightarrow> string \<Rightarrow> string \<Rightarrow> bool" where
  "callable I P name opid \<longleftrightarrow> (\<forall>w b ok. I w \<longrightarrow> P w \<longrightarrow>
     I (w\<lparr>system := b, trace := \<lparr>ev_Call = name, ev_Op = opid, ev_OK = ok, ev_Host = host_json w, ev_Mgmt = mgmt_json w,
        ev_Checkpoint = mgmt_os w opid\<rparr> # trace w\<rparr>))"

definition has_ok :: "string \<Rightarrow> string \<Rightarrow> event list \<Rightarrow> bool" where
  "has_ok name opid tr \<longleftrightarrow> list_ex (\<lambda>e. ev_Call e = name \<and> ev_Op e = opid \<and> ev_OK e) tr"

lemma triple_WriteFile:
  assumes "spared I" "\<And>w. I w \<Longrightarrow> Q (upd w)" "\<And>w. I w \<Longrightarrow> I (upd w)" "\<And>w n. upd (w\<lparr>power := n\<rparr>) = (upd w)\<lparr>power := n\<rparr>" "spared Q"
  shows "triple I I (WriteFile upd) (\<lambda>e w. I w \<and> (e = None \<longrightarrow> Q w))"
  unfolding triple_def
  by (intro allI impI, rule wp_WriteFileI) (use assms in \<open>auto simp: spared_def\<close>)

lemma triple_save:
  assumes "spared I" "writable I s"
  shows "triple I I (save s) (\<lambda>(e, s') w. I w \<and> control s' = control s \<and> (e = None \<longrightarrow> mgmt_json w = Present s'))"
  unfolding triple_def save_def Let_def wp_seq wp_Now option.case
  by (intro allI impI, rule wp_WriteFileI) (use assms in \<open>auto simp: wp_ret spared_def writable_def\<close>)

lemma triple_save_keep:
  assumes "spared I" "writable I s" "\<And>w s'. I w \<Longrightarrow> I (w\<lparr>mgmt_json := Present s'\<rparr>) \<Longrightarrow> trace (w\<lparr>mgmt_json := Present s'\<rparr>) = trace w"
  shows "triple I (\<lambda>w. I w \<and> R (trace w)) (save s) (\<lambda>(e, s') w. I w \<and> R (trace w) \<and> control s' = control s)"
  unfolding triple_def save_def Let_def wp_seq wp_Now option.case
  by (intro allI impI, rule wp_WriteFileI) (use assms in \<open>auto simp: wp_ret spared_def writable_def\<close>)

lemma triple_syscall:
  assumes "spared I" "callable I P name opid" "\<And>b. R (fst (f b))"
  shows "triple I (\<lambda>w. I w \<and> P w) (syscall name opid errOf f)
     (\<lambda>r w. I w \<and> R r \<and> (errOf r = None \<longrightarrow> has_ok name opid (trace w)))"
  unfolding triple_def
proof (intro allI impI, rule wp_syscallI)
  fix w :: "'a world" and n r b
  assume w: "I w \<and> P w" and f: "f (system w) = (r, b)"
  let ?ev = "\<lparr>ev_Call = name, ev_Op = opid, ev_OK = (errOf r = None), ev_Host = host_json w, ev_Mgmt = mgmt_json w,
        ev_Checkpoint = mgmt_os w opid\<rparr>"
  have "I (w\<lparr>system := b, trace := ?ev # trace w\<rparr>)" using assms(2) w by (simp add: callable_def)
  then have "I (w\<lparr>system := b, trace := ?ev # trace w, power := n\<rparr>)" using assms(1) by (simp add: spared_def)
  moreover have "w\<lparr>system := b, trace := ?ev # trace w, power := n\<rparr> = w\<lparr>power := n, system := b, trace := ?ev # trace w\<rparr>"
    by simp
  ultimately have "I (w\<lparr>power := n, system := b, trace := ?ev # trace w\<rparr>)" by simp
  then show "case Some r of None \<Rightarrow> I (w\<lparr>power := n, system := b, trace := ?ev # trace w\<rparr>)
    | Some r \<Rightarrow> I (w\<lparr>power := n, system := b, trace := ?ev # trace w\<rparr>) \<and> R r \<and>
        (errOf r = None \<longrightarrow> has_ok name opid (trace (w\<lparr>power := n, system := b, trace := ?ev # trace w\<rparr>)))"
    using assms(3) [of "system w"] f by (simp add: has_ok_def)
qed simp

lemma triple_bcall:
  assumes "spared I" "callable I P name (s_OperationID s)" "keeps_control f"
  shows "triple I (\<lambda>w. I w \<and> P w) (bcall name f s)
     (\<lambda>(e, s') w. I w \<and> control s' = control s \<and> (e = None \<longrightarrow> has_ok name (s_OperationID s) (trace w)))"
  unfolding bcall_def
  by (rule triple_weaken [OF triple_syscall [OF assms(1,2), where R = "\<lambda>(e, s'). control s' = control s"]])
     (use assms(3) in \<open>auto simp: keeps_control_def split_def\<close>)

lemma writable_cong: "control s = control s' \<Longrightarrow> writable I s = writable I s'"
  by (simp add: writable_def)

lemma triple_step:
  assumes "spared I" "writable I (s\<lparr>s_Phase := phase\<rparr>)" "keeps_control fn"
    and "callable I (\<lambda>w. \<exists>s'. mgmt_json w = Present s' \<and> control s' = control (s\<lparr>s_Phase := phase\<rparr>)) name (s_OperationID s)"
  shows "triple I I (step s phase name fn)
     (\<lambda>(e, s') w. I w \<and> control s' = control (s\<lparr>s_Phase := phase\<rparr>) \<and> (e = None \<longrightarrow> has_ok name (s_OperationID s) (trace w)))"
proof -
  let ?P = "\<lambda>w. \<exists>s'. mgmt_json w = Present s' \<and> control s' = control (s\<lparr>s_Phase := phase\<rparr>)"
  have inner: "triple I (\<lambda>w. I w \<and> control s1 = control (s\<lparr>s_Phase := phase\<rparr>) \<and> mgmt_json w = Present s1)
      (seq (bcall name fn s1) (\<lambda>(err, s2). seq (save s2) (\<lambda>(saveErr, s3). ret (if err = None then saveErr else err, s3))))
      (\<lambda>(e, s') w. I w \<and> control s' = control (s\<lparr>s_Phase := phase\<rparr>) \<and> (e = None \<longrightarrow> has_ok name (s_OperationID s) (trace w)))" for s1
  proof (rule triple_pre [where b = "control s1 = control (s\<lparr>s_Phase := phase\<rparr>)"])
    assume c: "control s1 = control (s\<lparr>s_Phase := phase\<rparr>)"
    then have op: "s_OperationID s1 = s_OperationID s" by (simp add: control_def)
    have call: "triple I (\<lambda>w. I w \<and> control s1 = control (s\<lparr>s_Phase := phase\<rparr>) \<and> mgmt_json w = Present s1) (bcall name fn s1)
       (\<lambda>(e, s') w. I w \<and> control s' = control s1 \<and> (e = None \<longrightarrow> has_ok name (s_OperationID s) (trace w)))"
      by (rule triple_weaken [OF triple_bcall [OF assms(1) assms(4) [folded op] assms(3)]]) (auto simp: op)
    show "triple I (\<lambda>w. I w \<and> control s1 = control (s\<lparr>s_Phase := phase\<rparr>) \<and> mgmt_json w = Present s1)
      (seq (bcall name fn s1) (\<lambda>(err, s2). seq (save s2) (\<lambda>(saveErr, s3). ret (if err = None then saveErr else err, s3))))
      (\<lambda>(e, s') w. I w \<and> control s' = control (s\<lparr>s_Phase := phase\<rparr>) \<and> (e = None \<longrightarrow> has_ok name (s_OperationID s) (trace w)))"
    proof (rule triple_seq [OF call], clarsimp)
      fix err s2
      show "triple I (\<lambda>w. I w \<and> control s2 = control s1 \<and> (err = None \<longrightarrow> has_ok name (s_OperationID s) (trace w)))
        (seq (save s2) (\<lambda>(saveErr, s3). ret (if err = None then saveErr else err, s3)))
        (\<lambda>(e, s') w. I w \<and> control s' = control (s\<lparr>s_Phase := phase\<rparr>) \<and> (e = None \<longrightarrow> has_ok name (s_OperationID s) (trace w)))"
      proof (rule triple_pre [where b = "control s2 = control s1"])
        assume c2: "control s2 = control s1"
        have "writable I s2" using assms(2) c c2 writable_cong by metis
        from triple_save_keep [OF assms(1) this, where R = "\<lambda>tr. err = None \<longrightarrow> has_ok name (s_OperationID s) tr"]
        have sv: "triple I (\<lambda>w. I w \<and> control s2 = control s1 \<and> (err = None \<longrightarrow> has_ok name (s_OperationID s) (trace w))) (save s2)
           (\<lambda>(e, s') w. I w \<and> (err = None \<longrightarrow> has_ok name (s_OperationID s) (trace w)) \<and> control s' = control s2)"
          by (rule triple_weaken) auto
        show ?thesis
          by (rule triple_seq [OF sv]) (use c c2 in auto)
      qed auto
    qed
  qed auto
  show ?thesis unfolding step_def
  proof (rule triple_seq [OF triple_save [OF assms(1,2)]], clarsimp)
    fix err s1
    show "triple I (\<lambda>w. I w \<and> control s1 = control (s\<lparr>s_Phase := phase\<rparr>) \<and> (err = None \<longrightarrow> mgmt_json w = Present s1))
      (case err of Some e \<Rightarrow> ret (Some e, s1)
       | None \<Rightarrow> seq (bcall name fn s1) (\<lambda>(err, s2).
         seq (save s2) (\<lambda>(saveErr, s3). ret (if err = None then saveErr else err, s3))))
      (\<lambda>(e, s') w. I w \<and> control s' = control (s\<lparr>s_Phase := phase\<rparr>) \<and> (e = None \<longrightarrow> has_ok name (s_OperationID s) (trace w)))"
      using inner [of s1] by (cases err) auto
  qed
qed

section \<open>Invariants of the transaction\<close>

definition journal :: "(mgmt_status \<Rightarrow> bool) \<Rightarrow> 'b world \<Rightarrow> bool" where
  "journal P w \<longleftrightarrow> (\<exists>s. mgmt_json w = Present s \<and> P s)"

definition restoring :: "string \<Rightarrow> mgmt_status \<Rightarrow> bool" where
  "restoring opid s \<longleftrightarrow> s_OperationID s = opid \<and> s_State s = ''recovering'' \<and> s_Phase s = ''restoring'' \<and> \<not> s_Authorized s"

definition authorized :: "string \<Rightarrow> mgmt_status \<Rightarrow> bool" where
  "authorized opid s \<longleftrightarrow> s_OperationID s = opid \<and> s_Authorized s"

definition installing :: "string \<Rightarrow> mgmt_status \<Rightarrow> bool" where
  "installing opid s \<longleftrightarrow> s_OperationID s = opid \<and> s_Phase s = ''installing'' \<and> s_ProductionChanged s \<and> s_Snapshot s = snapshot_name opid"

text \<open>Under the invariant, a backend call keeps the control fields.\<close>

definition kept_by :: "('b world \<Rightarrow> bool) \<Rightarrow> (mgmt_status \<Rightarrow> 'b \<Rightarrow> (error \<times> mgmt_status) \<times> 'b) \<Rightarrow> bool" where
  "kept_by I f \<longleftrightarrow> (\<forall>w. I w \<longrightarrow> keeps_control f)"

text \<open>The final state that a journal has already decided.\<close>

definition decided :: "mgmt_status \<Rightarrow> string" where
  "decided s = (if terminal s then s_State s
     else if s_Phase s = ''cleaning'' then (if s_CleanupState s = [] then ''succeeded'' else s_CleanupState s)
     else if s_Authorized s then (if s_State s = ''recovering'' then ''rolled_back'' else ''succeeded'')
     else if s_Phase s = ''prepare'' \<or> s_Phase s = ''preflight'' then ''failed''
     else ''rolled_back'')"

lemma decided_control: "control s = control s' \<Longrightarrow> decided s = decided s'"
  by (simp add: control_def decided_def terminal_def)

text \<open>
  What an invariant of the transaction owes: it survives the passing of power, the writes allowed
  by \<open>W\<close> and each backend call made under the journal that the code writes before it. In return
  every program of the updater keeps it on all paths, failures and power losses included.
\<close>

locale transaction_invariant =
  fixes I :: "'b world \<Rightarrow> bool" and W :: "mgmt_status \<Rightarrow> bool" and B :: "'b mgmt_backend"
  assumes frame: "I w \<Longrightarrow> backend_frame B"
    and power_passes: "spared I"
    and write_allowed: "W s \<Longrightarrow> writable I s"
    and restore_call: "callable I (journal (restoring opid)) ''Restore'' opid"
    and authorize_call: "callable I (journal (authorized opid)) ''Authorize'' opid"
    and install_call: "callable I (\<lambda>w. journal (installing opid) w \<and> has_ok ''Snapshot'' opid (trace w)) ''Install'' opid"
    and other_call: "name \<notin> {''Restore'', ''Authorize'', ''Install''} \<Longrightarrow> callable I (\<lambda>_. True) name opid"
begin

lemma frames:
  "kept_by I (mb_Prepare B)" "kept_by I (mb_Preflight B)" "kept_by I (mb_Fence B)" "kept_by I (mb_Snapshot B)"
  "kept_by I (mb_Install B)" "kept_by I (mb_Healthy B)" "kept_by I (mb_Restore B)" "kept_by I (mb_Authorize B)"
  "kept_by I (mb_Cleanup B)" "kept_by I (mb_capture B)"
  using frame by (auto simp: kept_by_def backend_frame_def)

lemma callable_strengthen: "callable I P name opid \<Longrightarrow> (\<And>w. P' w \<Longrightarrow> P w) \<Longrightarrow> callable I P' name opid"
  by (auto simp: callable_def)

lemma save_keeps: "W s \<Longrightarrow> ensures I (save s) (\<lambda>(e, s'). control s' = control s)"
  unfolding ensures_def by (rule triple_weaken [OF triple_save [OF power_passes write_allowed]]) auto

lemma step_calls:
  assumes "W (s\<lparr>s_Phase := phase\<rparr>)" "kept_by I fn" "callable I P name (s_OperationID s)"
    "\<And>w s'. I w \<Longrightarrow> mgmt_json w = Present s' \<Longrightarrow> control s' = control (s\<lparr>s_Phase := phase\<rparr>) \<Longrightarrow> P w"
  shows "ensures I (step s phase name fn) (\<lambda>(e, s'). control s' = control (s\<lparr>s_Phase := phase\<rparr>))"
proof (rule ensures_pre, erule exE)
  fix w
  assume "I w"
  then show ?thesis unfolding ensures_def
    by (intro triple_weaken [OF triple_step [OF power_passes write_allowed [OF assms(1)]]])
       (use assms(2,3,4) in \<open>auto simp: callable_def kept_by_def\<close>)
qed

lemma step_keeps:
  assumes "W (s\<lparr>s_Phase := phase\<rparr>)" "kept_by I fn" "name \<notin> {''Restore'', ''Authorize'', ''Install''}"
  shows "ensures I (step s phase name fn) (\<lambda>(e, s'). control s' = control (s\<lparr>s_Phase := phase\<rparr>))"
  by (rule step_calls [OF assms(1,2) other_call [OF assms(3)]]) simp

lemma step_restore_keeps:
  assumes "W (s\<lparr>s_Phase := ''restoring''\<rparr>)" "s_State s = ''recovering''" "\<not> s_Authorized s"
  shows "ensures I (step s ''restoring'' ''Restore'' (mb_Restore B)) (\<lambda>(e, s'). control s' = control (s\<lparr>s_Phase := ''restoring''\<rparr>))"
  by (rule step_calls [OF assms(1) frames(7) restore_call])
     (use assms(2,3) in \<open>auto simp: journal_def restoring_def control_def\<close>)

lemma step_authorize_keeps:
  assumes "W (s\<lparr>s_Phase := phase\<rparr>)" "s_Authorized s"
  shows "ensures I (step s phase ''Authorize'' (mb_Authorize B)) (\<lambda>(e, s'). control s' = control (s\<lparr>s_Phase := phase\<rparr>))"
  by (rule step_calls [OF assms(1) frames(8) authorize_call])
     (use assms(2) in \<open>auto simp: journal_def authorized_def control_def\<close>)

lemma bcall_keeps:
  assumes "kept_by I f" "name \<notin> {''Restore'', ''Authorize'', ''Install''}"
  shows "ensures I (bcall name f s) (\<lambda>(e, s'). control s' = control s)"
proof (rule ensures_pre, erule exE)
  fix w
  assume "I w"
  then show ?thesis unfolding ensures_def
    by (intro triple_weaken [OF triple_bcall [OF power_passes other_call [OF assms(2)]]]) (use assms(1) in \<open>auto simp: kept_by_def\<close>)
qed

lemma recovery_failed_keeps:
  assumes "\<And>s'. decided s' = ''rolled_back'' \<Longrightarrow> s_CleanupState s' = s_CleanupState s \<Longrightarrow> W s'" "\<not> s_Authorized s" "s_Phase s \<in> {''restoring'', ''verifying_previous''}"
  shows "ensures I (recovery_failed e s) (\<lambda>(e, s'). decided s' = ''rolled_back'')"
proof -
  have d: "decided (s\<lparr>s_State := ''recovery_failed'', s_RollbackError := e\<rparr>) = ''rolled_back''"
    using assms(2,3) by (auto simp: decided_def terminal_def)
  show ?thesis unfolding recovery_failed_def
    by (rule ensures_pair [OF save_keeps [OF assms(1) [OF d]]]) (use d in \<open>auto intro!: ensures_ret dest: decided_control\<close>)
qed

lemma rollback_tail_keeps:
  assumes "\<And>s'. decided s' = ''rolled_back'' \<Longrightarrow> s_CleanupState s' = s_CleanupState s \<Longrightarrow> W s'" "s_State s = ''recovering''"
  shows "ensures I (seq (step (s\<lparr>s_Authorized := True\<rparr>) ''authorizing_previous'' ''Authorize'' (mb_Authorize B)) (\<lambda>(err, s3).
       case err of Some e \<Rightarrow> ret (Some e, s3)
       | None \<Rightarrow> save (s3\<lparr>s_State := ''rolled_back'', s_Phase := ''rolled_back'', s_RollbackError := []\<rparr>)))
     (\<lambda>(e, s'). decided s' = ''rolled_back'')"
proof (rule ensures_pair [OF step_authorize_keeps])
  fix err s3
  assume "control s3 = control (s\<lparr>s_Authorized := True, s_Phase := ''authorizing_previous''\<rparr>)"
  then have c: "decided s3 = ''rolled_back''" "s_CleanupState s3 = s_CleanupState s"
    using assms(2) by (auto simp: control_def decided_def terminal_def)
  moreover have "ensures I (save (s3\<lparr>s_State := ''rolled_back'', s_Phase := ''rolled_back'', s_RollbackError := []\<rparr>))
     (\<lambda>(e, s'). decided s' = ''rolled_back'')"
    by (rule ensures_weaken [OF save_keeps [OF assms(1)]]) (use c in \<open>auto simp: decided_def terminal_def control_def\<close>)
  ultimately show "ensures I (case err of Some e \<Rightarrow> ret (Some e, s3)
       | None \<Rightarrow> save (s3\<lparr>s_State := ''rolled_back'', s_Phase := ''rolled_back'', s_RollbackError := []\<rparr>))
     (\<lambda>(e, s'). decided s' = ''rolled_back'')"
    by (auto intro: ensures_option ensures_ret)
qed (use assms in \<open>auto simp: decided_def terminal_def\<close>)

lemma rollback_keeps:
  assumes "\<And>s'. decided s' = ''rolled_back'' \<Longrightarrow> s_CleanupState s' = s_CleanupState s \<Longrightarrow> W s'"
  shows "ensures I (rollback B s) (\<lambda>(e, s'). decided s' = ''rolled_back'')"
  unfolding rollback_def
proof (rule ensures_pair [OF step_restore_keeps], goal_cases)
  case (4 err s1)
  then have s1: "s_State s1 = ''recovering''" "\<not> s_Authorized s1" "s_Phase s1 = ''restoring''"
    and c1: "s_CleanupState s1 = s_CleanupState s" by (auto simp: control_def)
  have "ensures I (seq (step s1 ''verifying_previous'' ''Healthy'' (mb_Healthy B)) (\<lambda>(err, s2).
     case err of Some e \<Rightarrow> recovery_failed e s2
     | None \<Rightarrow> seq (step (s2\<lparr>s_Authorized := True\<rparr>) ''authorizing_previous'' ''Authorize'' (mb_Authorize B)) (\<lambda>(err, s3).
       case err of Some e \<Rightarrow> ret (Some e, s3)
       | None \<Rightarrow> save (s3\<lparr>s_State := ''rolled_back'', s_Phase := ''rolled_back'', s_RollbackError := []\<rparr>))))
     (\<lambda>(e, s'). decided s' = ''rolled_back'')"
  proof (rule ensures_pair [OF step_keeps [OF _ frames(6)]], goal_cases)
    case (3 err s2)
    then have "s_State s2 = ''recovering''" "\<not> s_Authorized s2" "s_Phase s2 = ''verifying_previous''"
      "s_CleanupState s2 = s_CleanupState s"
      using s1 c1 by (auto simp: control_def)
    then show ?case
      by (intro ensures_option rollback_tail_keeps recovery_failed_keeps assms) auto
  qed (use s1 c1 assms in \<open>auto simp: decided_def terminal_def\<close>)
  then show ?case using s1 c1 by (intro ensures_option recovery_failed_keeps assms) auto
qed (use assms in \<open>auto simp: decided_def terminal_def\<close>)

lemma authorize_call_keeps:
  assumes "s_Authorized s"
  shows "triple I (\<lambda>w. I w \<and> mgmt_json w = Present s) (bcall ''Authorize'' (mb_Authorize B) s) (\<lambda>(e, s') w. I w \<and> control s' = control s)"
  by (rule triple_pre [where b = "keeps_control (mb_Authorize B)"], use frames(8) in \<open>simp add: kept_by_def, blast\<close>,
      rule triple_weaken [OF triple_bcall [OF power_passes authorize_call]])
     (use assms in \<open>auto simp: journal_def authorized_def\<close>)

lemma save_result: "W s \<Longrightarrow> ensures I (seq (save s) (\<lambda>(e, s'). ret e)) (\<lambda>_. True)"
  by (rule ensures_pair [OF save_keeps]) (auto intro: ensures_ret)

lemma recover_authorized_keeps:
  assumes "s_Authorized s" "\<not> terminal s" "s_Phase s \<noteq> ''cleaning''"
    "\<And>s'. decided s' = decided s \<Longrightarrow> s_CleanupState s' = s_CleanupState s \<Longrightarrow> W s'"
  shows "triple I (\<lambda>w. I w \<and> mgmt_json w = Present s) (recover_authorized B s) (\<lambda>_. I)"
  unfolding recover_authorized_def
proof (rule triple_seq [OF authorize_call_keeps [OF assms(1)]], clarify)
  fix err s1
  have "ensures I (case err of Some e \<Rightarrow> ret (Some e)
     | None \<Rightarrow> seq (save (if s_State s1 = ''recovering''
           then s1\<lparr>s_State := ''rolled_back'', s_Phase := ''rolled_back'', s_RollbackError := []\<rparr>
           else s1\<lparr>s_State := ''succeeded'', s_Phase := ''committed''\<rparr>)) (\<lambda>(e, _). ret e)) (\<lambda>_. True)"
    if c: "control s1 = control s"
    by (intro ensures_option ensures_ret save_result assms(4))
       (use c assms(1-3) in \<open>auto simp: control_def decided_def terminal_def\<close>)
  then show "triple I (\<lambda>w. I w \<and> control s1 = control s) (case err of Some e \<Rightarrow> ret (Some e)
     | None \<Rightarrow> seq (save (if s_State s1 = ''recovering''
           then s1\<lparr>s_State := ''rolled_back'', s_Phase := ''rolled_back'', s_RollbackError := []\<rparr>
           else s1\<lparr>s_State := ''succeeded'', s_Phase := ''committed''\<rparr>)) (\<lambda>(e, _). ret e)) (\<lambda>_. I)"
    by (rule triple_ensures)
qed

lemma recover_cleaning_keeps:
  assumes "W (s\<lparr>s_State := (if s_CleanupState s = [] then ''succeeded'' else s_CleanupState s), s_Phase := ''cleaned''\<rparr>)"
  shows "ensures I (recover_cleaning B s) (\<lambda>_. True)"
  unfolding recover_cleaning_def
  by (rule ensures_pair [OF bcall_keeps [OF frames(9)]], simp, intro ensures_option ensures_ret save_result assms) auto

lemma recover_abort_keeps:
  assumes "s_Phase s = ''prepare'' \<or> s_Phase s = ''preflight''" "\<not> terminal s" "\<not> s_Authorized s"
    "\<And>s'. decided s' = decided s \<Longrightarrow> s_CleanupState s' = s_CleanupState s \<Longrightarrow> W s'"
  shows "ensures I (seq (bcall ''Cleanup'' (mb_Cleanup B) (s\<lparr>s_State := ''failed'', s_Error := ''interrupted before production changes''\<rparr>))
            (\<lambda>(err, s1). case err of Some e \<Rightarrow> ret (Some e) | None \<Rightarrow> seq (save s1) (\<lambda>(e, _). ret e))) (\<lambda>_. True)"
  by (rule ensures_pair [OF bcall_keeps [OF frames(9)]], simp, intro ensures_option ensures_ret save_result assms(4))
     (use assms(1-3) in \<open>auto simp: decided_def terminal_def control_def\<close>)

lemma Recover_keeps:
  assumes "\<And>w s. I w \<Longrightarrow> mgmt_json w = Present s \<Longrightarrow>
      W (s\<lparr>s_State := (if s_CleanupState s = [] then ''succeeded'' else s_CleanupState s), s_Phase := ''cleaned''\<rparr>) \<or> s_Phase s \<noteq> ''cleaning'' \<or> terminal s"
    "\<And>w s. I w \<Longrightarrow> mgmt_json w = Present s \<Longrightarrow>
      (\<forall>s'. decided s' = decided s \<and> s_CleanupState s' = s_CleanupState s \<longrightarrow> W s')"
  shows "triple I I (Recover B) (\<lambda>_. I)"
  unfolding Recover_def
proof (rule triple_guarded)
  show "triple I I Acquire (\<lambda>_. I)" by (auto simp: Acquire_def)
  show "triple I I (fetch (Status []) (\<lambda>e. ret (Some e)) (\<lambda>s.
     if terminal s then ret None
     else if s_Phase s = ''cleaning'' then recover_cleaning B s
     else if s_Authorized s then recover_authorized B s
     else if s_Phase s = ''prepare'' \<or> s_Phase s = ''preflight''
     then seq (bcall ''Cleanup'' (mb_Cleanup B) (s\<lparr>s_State := ''failed'', s_Error := ''interrupted before production changes''\<rparr>))
            (\<lambda>(err, s1). case err of Some e \<Rightarrow> ret (Some e) | None \<Rightarrow> seq (save s1) (\<lambda>(e, _). ret e))
     else seq (rollback B s) (\<lambda>(e, _). ret e))) (\<lambda>_. I)"
    unfolding fetch_def Status_def read_def
  proof (rule triple_seq [OF triple_get [where Q = "\<lambda>r w. I w \<and> (\<forall>s. r = Inr s \<longrightarrow> mgmt_json w = Present s \<or> terminal s)"]])
    fix r
    let ?body = "\<lambda>s. if terminal s then ret None
       else if s_Phase s = ''cleaning'' then recover_cleaning B s
       else if s_Authorized s then recover_authorized B s
       else if s_Phase s = ''prepare'' \<or> s_Phase s = ''preflight''
       then seq (bcall ''Cleanup'' (mb_Cleanup B) (s\<lparr>s_State := ''failed'', s_Error := ''interrupted before production changes''\<rparr>))
              (\<lambda>(err, s1). case err of Some e \<Rightarrow> ret (Some e) | None \<Rightarrow> seq (save s1) (\<lambda>(e, _). ret e))
       else seq (rollback B s) (\<lambda>(e, _). ret e)"
    have body: "triple I (\<lambda>w. I w \<and> mgmt_json w = Present s) (?body s) (\<lambda>_. I)" if "\<not> terminal s" for s
    proof (rule triple_pre [where b = "\<exists>w. I w \<and> mgmt_json w = Present s"])
      assume "\<exists>w. I w \<and> mgmt_json w = Present s"
      then have cs: "s_Phase s = ''cleaning'' \<Longrightarrow> W (s\<lparr>s_State := (if s_CleanupState s = [] then ''succeeded'' else s_CleanupState s), s_Phase := ''cleaned''\<rparr>)"
        and w: "\<And>s'. decided s' = decided s \<Longrightarrow> s_CleanupState s' = s_CleanupState s \<Longrightarrow> W s'"
        using assms that by blast+
      have roll: "ensures I (seq (rollback B s) (\<lambda>(e, _). ret e)) (\<lambda>_. True)"
        if "\<not> s_Authorized s" "s_Phase s \<noteq> ''cleaning''" "\<not> (s_Phase s = ''prepare'' \<or> s_Phase s = ''preflight'')"
        by (rule ensures_pair [OF rollback_keeps]) (use w that \<open>\<not> terminal s\<close> in \<open>auto intro: ensures_ret simp: decided_def\<close>)
      show ?thesis
        using recover_cleaning_keeps [OF cs] recover_authorized_keeps [OF _ that _ w]
          recover_abort_keeps [OF _ that _ w] roll that
        by (auto simp: ensures_def elim!: triple_weaken)
    qed auto
    show "triple I (\<lambda>w. I w \<and> (\<forall>s. r = Inr s \<longrightarrow> mgmt_json w = Present s \<or> terminal s))
       (case r of Inl e \<Rightarrow> ret (Some e) | Inr s \<Rightarrow> ?body s) (\<lambda>_. I)"
    proof (cases r)
      case (Inr s)
      then show ?thesis using body [of s]
        by (cases "terminal s") (auto elim!: triple_weaken)
    qed auto
  qed (auto simp: idle_status_def terminal_def split: doc.splits)
qed auto

end

text \<open>An invariant that does not read the management journal's content nor the history.\<close>

locale journalled_invariant = transaction_invariant +
  assumes any_write: "W s"
    and history_write: "I w \<Longrightarrow> I (w\<lparr>mgmt_history := h\<rparr>)"
    and flag_write: "I w \<Longrightarrow> I (w\<lparr>running := b\<rparr>)"
begin

lemma any_save: "ensures I (save s) (\<lambda>(e, s'). control s' = control s)"
  by (rule save_keeps [OF any_write])

lemma any_rollback: "ensures I (rollback B s) (\<lambda>_. True)"
  by (rule ensures_weaken [OF rollback_keeps]) (auto intro: any_write)

lemma cleanup_call: "ensures I (bcall ''Cleanup'' (mb_Cleanup B) s) (\<lambda>(e, s'). control s' = control s)"
  by (rule bcall_keeps [OF frames(9)]) simp

lemma exec_failed_keeps: "ensures I (exec_failed B e s) (\<lambda>_. True)"
  unfolding exec_failed_def Let_def
  by (intro ensures_if ensures_pair [OF cleanup_call] ensures_seq [OF any_save] ensures_seq [OF any_rollback] ensures_ret) auto

lemma exec_steps_plain:
  assumes "phase \<noteq> ''preflight''"
  shows "exec_steps B ((phase, name, fn) # rest) s =
    (let s0 = (if phase = ''snapshot'' then s\<lparr>s_Snapshot := snapshot_name (s_OperationID s)\<rparr> else s);
         s1 = (if phase = ''installing'' then s0\<lparr>s_ProductionChanged := True\<rparr> else s0)
     in seq (step s1 phase name fn) (\<lambda>(err, s2). case err of None \<Rightarrow> exec_steps B rest s2 | Some e \<Rightarrow> exec_failed B e s2))"
proof -
  have f: "(phase = ''preflight'') = False" using assms by simp
  show ?thesis unfolding exec_steps.simps(2) fst_conv snd_conv f if_False simp_thms by (rule TrueI)
qed

text \<open>One step of the loop, given what holds of the rest.\<close>

lemma exec_cons_keeps:
  assumes "name \<notin> {''Restore'', ''Authorize'', ''Install''}" "kept_by I fn" "phase \<noteq> ''installing''"
    and "\<And>s'. s_OperationID s' = s_OperationID s \<Longrightarrow> ensures I (exec_steps B rest s') (\<lambda>_. True)"
  shows "ensures I (exec_steps B ((phase, name, fn) # rest) s) (\<lambda>_. True)"
proof -
  define K where "K err s2 = (case err of Some e \<Rightarrow> exec_failed B e s2
      | None \<Rightarrow> if phase = ''preflight''
          then seq (bcall ''Cleanup'' (mb_Cleanup B) s2) (\<lambda>(err, s3).
            case err of
              Some e \<Rightarrow> seq (save (s3\<lparr>s_Error := ''preflight resource cleanup: '' @ e, s_State := ''failed''\<rparr>)) (\<lambda>_. ret None)
            | None \<Rightarrow> exec_steps B rest s3)
          else exec_steps B rest s2)" for err s2
  define s1 where "s1 = (if phase = ''snapshot'' then s\<lparr>s_Snapshot := snapshot_name (s_OperationID s)\<rparr> else s)"
  have eq: "exec_steps B ((phase, name, fn) # rest) s =
     (if phase = ''preflight'' \<and> s_SkipDryRun s then exec_steps B rest s else seq (step s1 phase name fn) (\<lambda>(err, s2). K err s2))"
    unfolding exec_steps.simps fst_conv snd_conv Let_def K_def [abs_def] s1_def using assms(3) by simp
  have tail: "ensures I (K err s2) (\<lambda>_. True)" if "s_OperationID s2 = s_OperationID s" for err s2
    unfolding K_def
    by (intro ensures_option ensures_if exec_failed_keeps ensures_pair [OF cleanup_call] ensures_seq [OF any_save] ensures_ret assms(4))
       (use that in \<open>auto simp: control_def\<close>)
  show ?thesis unfolding eq
  proof (rule ensures_if)
    show "ensures I (seq (step s1 phase name fn) (\<lambda>(err, s2). K err s2)) (\<lambda>_. True)"
      by (rule ensures_pair [OF step_keeps [OF any_write assms(2,1)]], rule tail) (simp add: control_def s1_def split: if_splits)
  qed (rule assms(4), simp)
qed

lemma ok_spared: "spared (\<lambda>w. I w \<and> has_ok name opid (trace w))"
  using power_passes by (simp add: spared_def)

lemma ok_callable: "callable I P name opid \<Longrightarrow> callable (\<lambda>w. I w \<and> has_ok n i (trace w)) P name opid"
  by (auto simp: callable_def has_ok_def)

lemma ok_writable: "writable (\<lambda>w. I w \<and> has_ok name opid (trace w)) s"
  using write_allowed [OF any_write] by (simp add: writable_def)

lemma install_keeps:
  assumes "s_Snapshot s = snapshot_name (s_OperationID s)"
    and rest: "\<And>s. ensures I (exec_steps B rest s) (\<lambda>_. True)"
  shows "triple I (\<lambda>w. I w \<and> has_ok ''Snapshot'' (s_OperationID s) (trace w))
    (exec_steps B ((''installing'', ''Install'', mb_Install B) # rest) s) (\<lambda>_. I)"
proof -
  let ?I = "\<lambda>w. I w \<and> has_ok ''Snapshot'' (s_OperationID s) (trace w)"
  let ?s = "s\<lparr>s_ProductionChanged := True\<rparr>"
  have "callable ?I (\<lambda>w. journal (installing (s_OperationID s)) w \<and> has_ok ''Snapshot'' (s_OperationID s) (trace w)) ''Install'' (s_OperationID s)"
    by (rule ok_callable [OF install_call])
  then have call: "callable ?I (\<lambda>w. \<exists>s'. mgmt_json w = Present s' \<and> control s' = control (?s\<lparr>s_Phase := ''installing''\<rparr>)) ''Install'' (s_OperationID ?s)"
    using assms(1) by (auto simp: callable_def journal_def installing_def control_def)
  have st: "triple ?I ?I (step ?s ''installing'' ''Install'' (mb_Install B)) (\<lambda>_. ?I)"
    by (rule triple_pre [where b = "keeps_control (mb_Install B)"], use frames(5) in \<open>simp add: kept_by_def, blast\<close>,
        rule triple_weaken [OF triple_step [OF ok_spared ok_writable _ call]]) auto
  have st': "triple I ?I (step ?s ''installing'' ''Install'' (mb_Install B)) (\<lambda>_. I)"
    by (rule triple_weaken [OF st]) auto
  have tail: "triple I I (case err of None \<Rightarrow> exec_steps B rest s2 | Some e \<Rightarrow> exec_failed B e s2) (\<lambda>_. I)" for err s2
    using ensures_option [of err I "exec_steps B rest s2" "\<lambda>_. True" "\<lambda>e. exec_failed B e s2"] rest exec_failed_keeps
    by (simp add: ensures_def)
  have eq: "exec_steps B ((''installing'', ''Install'', mb_Install B) # rest) s =
     seq (step ?s ''installing'' ''Install'' (mb_Install B)) (\<lambda>(err, s2). case err of None \<Rightarrow> exec_steps B rest s2 | Some e \<Rightarrow> exec_failed B e s2)"
    by (subst exec_steps_plain) (simp_all add: Let_def del: exec_steps.simps)
  show ?thesis unfolding eq by (rule triple_seq [OF st']) (use tail in auto)
qed

lemma snapshot_keeps:
  assumes "\<And>s. ensures I (exec_steps B rest s) (\<lambda>_. True)"
  shows "ensures I (exec_steps B ((''snapshot'', ''Snapshot'', mb_Snapshot B) # (''installing'', ''Install'', mb_Install B) # rest) s) (\<lambda>_. True)"
proof -
  let ?op = "s_OperationID s"
  let ?s = "s\<lparr>s_Snapshot := snapshot_name ?op\<rparr>"
  let ?next = "exec_steps B ((''installing'', ''Install'', mb_Install B) # rest)"
  have eq: "exec_steps B ((''snapshot'', ''Snapshot'', mb_Snapshot B) # (''installing'', ''Install'', mb_Install B) # rest) s =
     seq (step ?s ''snapshot'' ''Snapshot'' (mb_Snapshot B)) (\<lambda>(err, s2). case err of None \<Rightarrow> ?next s2 | Some e \<Rightarrow> exec_failed B e s2)"
    by (subst exec_steps_plain) (simp_all add: Let_def del: exec_steps.simps)
  have call: "callable I (\<lambda>w. \<exists>s'. mgmt_json w = Present s' \<and> control s' = control (?s\<lparr>s_Phase := ''snapshot''\<rparr>)) ''Snapshot'' (s_OperationID ?s)"
    by (rule callable_strengthen [OF other_call]) auto
  have st: "triple I I (step ?s ''snapshot'' ''Snapshot'' (mb_Snapshot B))
     (\<lambda>(e, s') w. I w \<and> control s' = control (?s\<lparr>s_Phase := ''snapshot''\<rparr>) \<and> (e = None \<longrightarrow> has_ok ''Snapshot'' ?op (trace w)))"
    by (rule triple_pre [where b = "keeps_control (mb_Snapshot B)"], use frames(4) in \<open>simp add: kept_by_def, blast\<close>,
        rule triple_weaken [OF triple_step [OF power_passes write_allowed [OF any_write] _ call]]) auto
  show ?thesis unfolding eq ensures_def
  proof (rule triple_seq [OF st], clarify)
    fix err s2
    show "triple I (\<lambda>w. I w \<and> control s2 = control (?s\<lparr>s_Phase := ''snapshot''\<rparr>) \<and> (err = None \<longrightarrow> has_ok ''Snapshot'' ?op (trace w)))
      (case err of None \<Rightarrow> ?next s2 | Some e \<Rightarrow> exec_failed B e s2) (\<lambda>x w. I w \<and> True)"
    proof (rule triple_pre [where b = "control s2 = control (?s\<lparr>s_Phase := ''snapshot''\<rparr>)"])
      assume c: "control s2 = control (?s\<lparr>s_Phase := ''snapshot''\<rparr>)"
      then have s2: "s_Snapshot s2 = snapshot_name (s_OperationID s2)" "s_OperationID s2 = ?op" by (simp_all add: control_def)
      show ?thesis
      proof (cases err)
        case None
        then show ?thesis using install_keeps [OF s2(1) assms] by (auto simp: s2(2) elim!: triple_weaken)
      next
        case (Some e)
        then show ?thesis using exec_failed_keeps [of e s2] by (auto simp: ensures_def elim!: triple_weaken)
      qed
    qed auto
  qed
qed

lemma exec_steps_keeps: "ensures I (exec_steps B (update_steps B) s) (\<lambda>_. True)"
  unfolding update_steps_def
  by (intro exec_cons_keeps snapshot_keeps frames) (auto intro: ensures_ret)

lemma read_keeps: "ensures I (read opid) (\<lambda>_. True)" "ensures I (Status opid) (\<lambda>_. True)"
  by (auto simp: read_def Status_def intro: ensures_get)

lemma world_reads: "ensures I (get f) (\<lambda>_. True)" "ensures I Acquire (\<lambda>_. True)" "ensures I Now (\<lambda>_. True)" "ensures I hostAvailable (\<lambda>_. True)"
  by (auto simp: Acquire_def Now_def hostAvailable_def intro: ensures_get)

lemma history_keeps: "ensures I (WriteFile (\<lambda>w. w\<lparr>mgmt_history := f (mgmt_history w)\<rparr>)) (\<lambda>_. True)"
  unfolding ensures_def
  by (rule triple_weaken [OF triple_WriteFile [OF power_passes, where Q = "\<lambda>_. True"]])
     (auto intro: history_write simp: spared_def)

lemma releaseImages_keeps: "ensures I (ecall ''releaseImages'' opid f) (\<lambda>_. True)"
  unfolding ensures_def ecall_def
  by (rule triple_weaken [OF triple_syscall [OF power_passes other_call, where R = "\<lambda>_. True"]]) auto

lemma prune_entries_keeps: "ensures I (prune_entries B names) (\<lambda>_. True)"
proof (induction names)
  case (Cons name names)
  have "ensures I (case d of Some (Present s) \<Rightarrow>
         if \<not> operationID (s_OperationID s) \<or> name \<noteq> s_OperationID s then ret (Some ''invalid historical operation identity'')
         else seq (bcall ''Cleanup'' (mb_Cleanup B) s) (\<lambda>(err, s1). case err of Some e \<Rightarrow> ret (Some e)
           | None \<Rightarrow> guarded (ecall ''releaseImages'' (s_OperationID s1) (mb_releaseImages B s1)) (\<lambda>e. ret (Some e))
             (let s2 = s1\<lparr>s_Snapshot := [], s_PreviousCompose := [], s_CandidateCompose := [],
                          s_Manifest := (s_Manifest s1)\<lparr>mm_Images := []\<rparr>\<rparr>
              in guarded (WriteFile (\<lambda>w. w\<lparr>mgmt_history := AList.update name (Present s2) (mgmt_history w)\<rparr>)) (\<lambda>e. ret (Some e))
                   (prune_entries B names)))
     | _ \<Rightarrow> ret (Some ''cannot read history entry'')) (\<lambda>_. True)" for d
    unfolding Let_def
    by (cases d; cases "the d")
       (auto intro!: ensures_if ensures_pair [OF cleanup_call] ensures_option ensures_ret ensures_guarded [OF releaseImages_keeps]
          ensures_guarded [OF history_keeps] Cons.IH)
  then show ?case by (auto intro: ensures_seq world_reads)
qed (auto intro: ensures_ret)

lemma PruneHistory_keeps: "ensures I (PruneHistory B) (\<lambda>_. True)"
  unfolding PruneHistory_def
  by (intro ensures_fetch [OF read_keeps(2)] ensures_if ensures_ret ensures_seq [OF world_reads(1)] prune_entries_keeps) auto

lemma execute_keeps: "ensures I (execute B s) (\<lambda>_. True)"
  unfolding execute_def
  by (intro ensures_seq [OF exec_steps_keeps] ensures_option ensures_ret ensures_pair [OF step_authorize_keeps] any_write
      ensures_seq [OF any_rollback] ensures_pair [OF any_save] ensures_seq [OF PruneHistory_keeps] ensures_seq [OF any_save]) auto

lemma background_keeps: "ensures I m (\<lambda>_. True) \<Longrightarrow> ensures I (background m) (\<lambda>_. True)"
  unfolding background_def
  by (intro ensures_seq [OF ensures_modify [where R = "\<lambda>_. True"]] ensures_seq [of I m "\<lambda>_. True"] ensures_modify flag_write) auto

lemma Start_keeps: "ensures I (Start B validRelease r) (\<lambda>_. True)"
  unfolding Start_def Let_def
  by (intro ensures_option ensures_ret ensures_fetch [OF read_keeps(1)] ensures_if ensures_seq [OF world_reads(1)]
      ensures_guarded [OF world_reads(2)] ensures_guarded [OF world_reads(4)] ensures_guarded [where R = "\<lambda>_. True"]
      history_keeps ensures_seq [OF world_reads(3)] ensures_pair [OF any_save]
      ensures_seq [OF background_keeps [OF execute_keeps]])
     (auto split: doc.splits intro: ensures_ret)

lemma Rollback_keeps: "ensures I (Rollback B opid) (\<lambda>_. True)"
  unfolding Rollback_def
  by (intro ensures_seq [OF world_reads(1)] ensures_if ensures_ret ensures_guarded [OF world_reads(2)] ensures_fetch [OF read_keeps(2)]
      ensures_seq [OF any_rollback]) (auto intro: ensures_ret)

lemma Cleanup_keeps: "ensures I (Cleanup B opid) (\<lambda>_. True)"
  unfolding Cleanup_def
  by (intro ensures_if ensures_ret ensures_guarded [OF world_reads(2)] ensures_fetch [OF read_keeps(2)]
      ensures_pair [OF cleanup_call] ensures_option ensures_guarded [OF PruneHistory_keeps] ensures_pair [OF any_save]) auto

lemma cleanup_job_keeps: "ensures I (cleanup_job B s) (\<lambda>_. True)"
  unfolding cleanup_job_def Let_def
  by (intro ensures_pair [OF cleanup_call] ensures_seq [OF any_save] ensures_if ensures_seq [OF PruneHistory_keeps] ensures_ret) auto

lemma requestAction_keeps: "ensures I (requestAction B r action) (\<lambda>_. True)"
  unfolding requestAction_def Let_def
  by (intro ensures_if ensures_ret ensures_fetch [OF read_keeps(1)] ensures_seq [OF world_reads(1)]
      ensures_guarded [OF world_reads(4)] ensures_guarded [OF world_reads(2)] ensures_pair [OF any_save] ensures_option
      ensures_seq [OF background_keeps] ensures_seq [OF any_rollback] cleanup_job_keeps) auto

end
section \<open>What is journalled before production changes\<close>

definition event_journalled :: "event \<Rightarrow> event list \<Rightarrow> bool" where
  "event_journalled e earlier \<longleftrightarrow>
     (ev_Call e = ''Restore'' \<longrightarrow> (\<exists>s. ev_Mgmt e = Present s \<and> restoring (ev_Op e) s)) \<and>
     (ev_Call e = ''Authorize'' \<longrightarrow> (\<exists>s. ev_Mgmt e = Present s \<and> authorized (ev_Op e) s)) \<and>
     (ev_Call e = ''Install'' \<longrightarrow> (\<exists>s. ev_Mgmt e = Present s \<and> installing (ev_Op e) s) \<and> has_ok ''Snapshot'' (ev_Op e) earlier)"

fun journalled :: "event list \<Rightarrow> bool" where
  "journalled [] = True"
| "journalled (e # earlier) = (event_journalled e earlier \<and> journalled earlier)"

interpretation journal_first: journalled_invariant "\<lambda>w. backend_frame B \<and> journalled (trace w)" "\<lambda>_. True" B
  for B :: "'b mgmt_backend"
  by unfold_locales
     (auto simp: spared_def writable_def callable_def event_journalled_def journal_def)

text \<open>Only terminal states are remembered while a finished operation is cleaned up.\<close>

definition cleanable :: "mgmt_status \<Rightarrow> bool" where
  "cleanable s \<longleftrightarrow> s_CleanupState s \<in> {[], ''idle'', ''succeeded'', ''failed'', ''rolled_back''}"

interpretation decision: transaction_invariant
  "\<lambda>w. backend_frame B \<and> (\<exists>s. mgmt_json w = Present s \<and> decided s = d \<and> cleanable s)" "\<lambda>s. decided s = d \<and> cleanable s" B
  for B :: "'b mgmt_backend" and d :: string
proof (unfold_locales, goal_cases)
  case (3 s)
  have "cleanable s'" "decided s' = d" if "control s' = control s" for s'
    using 3 that decided_control [OF that] by (auto simp: cleanable_def control_def)
  then show ?case by (auto simp: writable_def)
qed (auto simp: spared_def callable_def)

text \<open>An attempt at an operation: the power it gets, how the disk behaves, the clock and the lock.\<close>

record env =
  env_power :: nat
  env_disk :: "nat \<Rightarrow> outcome"
  env_clock :: "nat \<Rightarrow> int"
  env_locked :: bool

definition boot :: "env \<Rightarrow> 'b world \<Rightarrow> 'b world" where
  "boot env w = w\<lparr>power := env_power env, disk := env_disk env, wall_clock := env_clock env, locked := env_locked env, running := False\<rparr>"

datatype mgmt_op = DoStart request | DoRecover | DoRequest request string | DoRollback string | DoCleanup string

fun mgmt_step :: "'b mgmt_backend \<Rightarrow> (string \<Rightarrow> bool) \<Rightarrow> env \<times> mgmt_op \<Rightarrow> 'b world \<Rightarrow> 'b world" where
  "mgmt_step B validRelease (env, DoStart r) w = snd (Start B validRelease r (boot env w))"
| "mgmt_step B validRelease (env, DoRecover) w = snd (Recover B (boot env w))"
| "mgmt_step B validRelease (env, DoRequest r action) w = snd (requestAction B r action (boot env w))"
| "mgmt_step B validRelease (env, DoRollback opid) w = snd (Rollback B opid (boot env w))"
| "mgmt_step B validRelease (env, DoCleanup opid) w = snd (Cleanup B opid (boot env w))"

lemma boot_fields [simp]:
  "trace (boot env w) = trace w" "mgmt_json (boot env w) = mgmt_json w" "host_json (boot env w) = host_json w" "mgmt_os (boot env w) = mgmt_os w"
  by (simp_all add: boot_def)

lemma triple_snd: "triple I P m (\<lambda>_. I) \<Longrightarrow> P w \<Longrightarrow> I (snd (m w))"
  using tripleD [of I P m "\<lambda>_. I" w "fst (m w)" "snd (m w)"] by (auto split: option.splits)

lemma mgmt_step_journalled:
  assumes "backend_frame B" "journalled (trace w)"
  shows "journalled (trace (mgmt_step B v eo w))"
proof -
  obtain env opn where eo: "eo = (env, opn)" by (cases eo)
  have i: "backend_frame B \<and> journalled (trace (boot env w))" using assms by simp
  show ?thesis
  proof (cases opn)
    case (DoStart r)
    then show ?thesis using ensures_inv [OF journal_first.Start_keeps i] by (simp add: eo)
  next
    case DoRecover
    then show ?thesis using triple_snd [OF journal_first.Recover_keeps, OF _ _ i] by (simp add: eo)
  next
    case (DoRequest r a)
    then show ?thesis using ensures_inv [OF journal_first.requestAction_keeps i] by (simp add: eo)
  next
    case (DoRollback x)
    then show ?thesis using ensures_inv [OF journal_first.Rollback_keeps i] by (simp add: eo)
  next
    case (DoCleanup x)
    then show ?thesis using ensures_inv [OF journal_first.Cleanup_keeps i] by (simp add: eo)
  qed
qed

interpretation mgmt: machine "mgmt_step B v" "\<lambda>w. backend_frame B \<and> journalled (trace w)"
  for B :: "'b mgmt_backend" and v
  by unfold_locales (auto intro: mgmt_step_journalled)

text \<open>
  C4. Management updates are write-ahead. Whatever operations run, wherever the power fails and
  however disk and backend misbehave: a release is installed only after a successful snapshot of
  the same operation and with that snapshot and the production change on disk; the snapshot is
  restored only under a journal that says so; and a release (or the restored one) is authorized
  to start only under a journal that has recorded the authorization.\<close>

theorem production_changes_are_journalled:
  assumes "backend_frame B" "trace w = []"
  shows "journalled (trace (runs (mgmt_step B validRelease) ops w))"
  using mgmt.runs_inv [of B w validRelease ops] assms by simp

section \<open>Recovery\<close>

lemma cleaned_decided:
  assumes "cleanable s" "s_Phase s = ''cleaning''" "\<not> terminal s"
  shows "decided (s\<lparr>s_State := (if s_CleanupState s = [] then ''succeeded'' else s_CleanupState s), s_Phase := ''cleaned''\<rparr>) = decided s"
  using assms by (auto simp: decided_def terminal_def cleanable_def)

lemma Recover_decision:
  assumes "backend_frame B" "mgmt_json w = Present s" "cleanable s"
  shows "\<exists>s'. mgmt_json (snd (Recover B w)) = Present s' \<and> decided s' = decided s \<and> cleanable s'"
proof -
  have "triple (\<lambda>w. backend_frame B \<and> (\<exists>s'. mgmt_json w = Present s' \<and> decided s' = decided s \<and> cleanable s'))
      (\<lambda>w. backend_frame B \<and> (\<exists>s'. mgmt_json w = Present s' \<and> decided s' = decided s \<and> cleanable s')) (Recover B)
      (\<lambda>_ w. backend_frame B \<and> (\<exists>s'. mgmt_json w = Present s' \<and> decided s' = decided s \<and> cleanable s'))"
  proof (rule decision.Recover_keeps, goal_cases)
    case (1 w s')
    then show ?case using cleaned_decided [of s'] by (auto simp: cleanable_def)
  qed (auto simp: cleanable_def)
  from triple_snd [OF this] show ?thesis using assms by auto
qed

lemma recoveries_decision:
  assumes "backend_frame B" "mgmt_json w = Present s" "cleanable s"
  shows "\<exists>s'. mgmt_json (runs (mgmt_step B v) (map (\<lambda>env. (env, DoRecover)) envs) w) = Present s' \<and> decided s' = decided s \<and> cleanable s'"
  using assms(2,3)
proof (induction envs arbitrary: w s)
  case (Cons env envs)
  obtain s1 where "mgmt_json (mgmt_step B v (env, DoRecover) w) = Present s1" "decided s1 = decided s" "cleanable s1"
    using Recover_decision [OF assms(1), of "boot env w" s] Cons.prems by auto
  from Cons.IH [OF this(1,3)] this(2) show ?case by simp
qed simp

text \<open>Programs that deliver a result within a budget of writes and calls, on a working disk.\<close>

definition delivers :: "nat \<Rightarrow> ('b world, 'a) prog \<Rightarrow> ('a \<Rightarrow> 'b world \<Rightarrow> bool) \<Rightarrow> bool" where
  "delivers k m Q \<longleftrightarrow> (\<forall>w. disk_works w \<and> k \<le> power w \<longrightarrow>
     (\<exists>x w'. m w = (Some x, w') \<and> disk_works w' \<and> power w \<le> power w' + k \<and> Q x w'))"

lemma delivers_seq:
  assumes "delivers k m (\<lambda>x _. R x)" "\<And>x. R x \<Longrightarrow> delivers l (f x) Q"
  shows "delivers (k + l) (seq m f) Q"
  unfolding delivers_def
proof (intro allI impI)
  fix w :: "'a world"
  assume w: "disk_works w \<and> k + l \<le> power w"
  then obtain x w1 where 1: "m w = (Some x, w1)" "disk_works w1" "power w \<le> power w1 + k" "R x"
    using assms(1) by (auto simp: delivers_def)
  obtain y w2 where 2: "f x w1 = (Some y, w2)" "disk_works w2" "power w1 \<le> power w2 + l" "Q y w2"
    using assms(2) [OF 1(4)] 1(2,3) w by (auto simp: delivers_def)
  show "\<exists>y w'. seq m f w = (Some y, w') \<and> disk_works w' \<and> power w \<le> power w' + (k + l) \<and> Q y w'"
    using 1 2 by (intro exI [of _ y] exI [of _ w2]) (simp add: seq_def)
qed

lemma delivers_pair:
  "delivers k m (\<lambda>(a, b) _. R a b) \<Longrightarrow> (\<And>a b. R a b \<Longrightarrow> delivers l (f a b) Q) \<Longrightarrow> delivers (k + l) (seq m (\<lambda>(a, b). f a b)) Q"
  by (rule delivers_seq [where R = "\<lambda>(a, b). R a b"]) (auto simp: split_def)

lemma delivers_weaken: "delivers k m Q \<Longrightarrow> k \<le> l \<Longrightarrow> (\<And>x w. Q x w \<Longrightarrow> Q' x w) \<Longrightarrow> delivers l m Q'"
  unfolding delivers_def by (meson le_trans add_le_mono order.refl)

lemma delivers_ret: "(\<And>w. Q x w) \<Longrightarrow> delivers 0 (ret x) Q"
  by (simp add: delivers_def ret_def)

lemma delivers_save: "delivers 1 (save s :: ('b world, error \<times> mgmt_status) prog) (\<lambda>(e, s') w. e = None \<and> control s' = control s \<and> mgmt_json w = Present s')"
  unfolding delivers_def
proof (intro allI impI)
  fix w :: "'b world"
  assume w: "disk_works w \<and> 1 \<le> power w"
  then obtain n where "power w = Suc n" by (cases "power w") auto
  then show "\<exists>x w'. save s w = (Some x, w') \<and> disk_works w' \<and> power w \<le> power w' + 1 \<and>
      (case x of (e, s') \<Rightarrow> \<lambda>w. e = None \<and> control s' = control s \<and> mgmt_json w = Present s') w'"
    using w by (simp add: save_def seq_def Now_def get_def WriteFile_def ret_def disk_works_def Let_def)
qed

lemma delivers_bcall:
  fixes f :: "mgmt_status \<Rightarrow> 'b \<Rightarrow> (error \<times> mgmt_status) \<times> 'b"
  assumes "keeps_control f" "\<And>s b. fst (fst (f s b)) = None"
  shows "delivers 1 (bcall name f s) (\<lambda>(e, s') _. e = None \<and> control s' = control s)"
  unfolding delivers_def
proof (intro allI impI)
  fix w :: "'b world"
  assume w: "disk_works w \<and> 1 \<le> power w"
  then obtain n where n: "power w = Suc n" by (cases "power w") auto
  obtain e s' b where f: "f s (system w) = ((e, s'), b)" by (metis surj_pair)
  then have "e = None" "control s' = control s" using assms by (metis fst_conv, metis fst_conv snd_conv keeps_control_def)
  then show "\<exists>x w'. bcall name f s w = (Some x, w') \<and> disk_works w' \<and> power w \<le> power w' + 1 \<and>
      (case x of (e, s') \<Rightarrow> \<lambda>_. e = None \<and> control s' = control s) w'"
    using w n f by (simp add: bcall_def syscall_def disk_works_def)
qed

lemma delivers_step:
  assumes "keeps_control fn" "\<And>s b. fst (fst (fn s b)) = None"
  shows "delivers 3 (step s phase name fn) (\<lambda>(e, s') _. e = None \<and> control s' = control (s\<lparr>s_Phase := phase\<rparr>))"
proof -
  have "delivers (1 + (1 + (1 + 0))) (step s phase name fn) (\<lambda>(e, s') _. e = None \<and> control s' = control (s\<lparr>s_Phase := phase\<rparr>))"
    unfolding step_def
  proof (rule delivers_pair [where R = "\<lambda>e s'. e = None \<and> control s' = control (s\<lparr>s_Phase := phase\<rparr>)"])
    show "delivers 1 (save (s\<lparr>s_Phase := phase\<rparr>)) (\<lambda>(e, s') _. e = None \<and> control s' = control (s\<lparr>s_Phase := phase\<rparr>))"
      by (rule delivers_weaken [OF delivers_save]) auto
    fix err :: error and s1
    assume 1: "err = None \<and> control s1 = control (s\<lparr>s_Phase := phase\<rparr>)"
    have sv: "delivers 1 (save s2) (\<lambda>(e, s') _. e = None \<and> control s' = control s2)" for s2 :: mgmt_status
      by (rule delivers_weaken [OF delivers_save]) auto
    have "delivers (1 + (1 + 0)) (seq (bcall name fn s1) (\<lambda>(err, s2).
        seq (save s2) (\<lambda>(saveErr, s3). ret (if err = None then saveErr else err, s3))))
        (\<lambda>(e, s') _. e = None \<and> control s' = control (s\<lparr>s_Phase := phase\<rparr>))"
      by (rule delivers_pair [OF delivers_bcall [OF assms]], rule delivers_pair [OF sv], rule delivers_ret) (use 1 in auto)
    then show "delivers (1 + (1 + 0)) (case err of Some e \<Rightarrow> ret (Some e, s1)
     | None \<Rightarrow> seq (bcall name fn s1) (\<lambda>(err, s2).
         seq (save s2) (\<lambda>(saveErr, s3). ret (if err = None then saveErr else err, s3))))
        (\<lambda>(e, s') _. e = None \<and> control s' = control (s\<lparr>s_Phase := phase\<rparr>))" using 1 by simp
  qed
  then show ?thesis by (simp add: numeral_3_eq_3)
qed

text \<open>A system in which the calls of recovery succeed.\<close>

definition system_works :: "'b mgmt_backend \<Rightarrow> bool" where
  "system_works B \<longleftrightarrow> (\<forall>s b. fst (fst (mb_Restore B s b)) = None \<and> fst (fst (mb_Healthy B s b)) = None \<and>
     fst (fst (mb_Authorize B s b)) = None \<and> fst (fst (mb_Cleanup B s b)) = None)"

lemma delivers_rollback:
  assumes "backend_frame B" "system_works B"
  shows "delivers 10 (rollback B s) (\<lambda>(e, s') w. e = None \<and> mgmt_json w = Present s' \<and> s_State s' = ''rolled_back'')"
proof -
  have ok: "\<And>s b. fst (fst (mb_Restore B s b)) = None" "\<And>s b. fst (fst (mb_Healthy B s b)) = None" "\<And>s b. fst (fst (mb_Authorize B s b)) = None"
    using assms(2) by (simp_all add: system_works_def)
  note fr = backend_frameD [OF assms(1)]
  have "delivers (3 + (3 + (3 + 1))) (rollback B s) (\<lambda>(e, s') w. e = None \<and> mgmt_json w = Present s' \<and> s_State s' = ''rolled_back'')"
    unfolding rollback_def
  proof (rule delivers_pair [OF delivers_step [OF fr(7) ok(1)]], erule conjE, simp only: option.case)
    fix s1
    show "delivers (3 + (3 + 1)) (seq (step s1 ''verifying_previous'' ''Healthy'' (mb_Healthy B)) (\<lambda>(err, s2).
       case err of Some e \<Rightarrow> recovery_failed e s2
       | None \<Rightarrow> seq (step (s2\<lparr>s_Authorized := True\<rparr>) ''authorizing_previous'' ''Authorize'' (mb_Authorize B)) (\<lambda>(err, s3).
         case err of Some e \<Rightarrow> ret (Some e, s3)
         | None \<Rightarrow> save (s3\<lparr>s_State := ''rolled_back'', s_Phase := ''rolled_back'', s_RollbackError := []\<rparr>))))
       (\<lambda>(e, s') w. e = None \<and> mgmt_json w = Present s' \<and> s_State s' = ''rolled_back'')"
    proof (rule delivers_pair [OF delivers_step [OF fr(6) ok(2)]], erule conjE, simp only: option.case)
      fix s2
      show "delivers (3 + 1) (seq (step (s2\<lparr>s_Authorized := True\<rparr>) ''authorizing_previous'' ''Authorize'' (mb_Authorize B)) (\<lambda>(err, s3).
         case err of Some e \<Rightarrow> ret (Some e, s3)
         | None \<Rightarrow> save (s3\<lparr>s_State := ''rolled_back'', s_Phase := ''rolled_back'', s_RollbackError := []\<rparr>)))
         (\<lambda>(e, s') w. e = None \<and> mgmt_json w = Present s' \<and> s_State s' = ''rolled_back'')"
        by (rule delivers_pair [OF delivers_step [OF fr(8) ok(3)]], erule conjE, simp only: option.case, rule delivers_weaken [OF delivers_save])
           (auto simp: control_def)
    qed
  qed
  then show ?thesis by simp
qed

lemma delivers_save_result:
  "delivers 1 (seq (save s) (\<lambda>(e, _). ret e) :: ('b world, error) prog) (\<lambda>e w. e = None \<and> (\<exists>s'. mgmt_json w = Present s' \<and> s_State s' = s_State s))"
proof -
  have "\<exists>s'. mgmt_json w' = Present s' \<and> s_State s' = s_State s"
    if "mgmt_json w' = Present s'" "control s' = control s" for w' :: "'b world" and s'
    using that by (auto simp: control_def)
  then show ?thesis using delivers_save [of s, where ?'b = 'b] unfolding delivers_def by (fastforce simp: seq_def ret_def)
qed

lemma delivers_call_then_save:
  assumes "keeps_control f" "\<And>s b. fst (fst (f s b)) = None" "\<And>s1. control s1 = control s0 \<Longrightarrow> s_State (g s1) = d"
  shows "delivers 2 (seq (bcall name f s0) (\<lambda>(err, s1). case err of Some e \<Rightarrow> ret (Some e)
       | None \<Rightarrow> seq (save (g s1)) (\<lambda>(e, _). ret e))) (\<lambda>e w. e = None \<and> (\<exists>s'. mgmt_json w = Present s' \<and> s_State s' = d))"
proof -
  have "delivers (1 + 1) (seq (bcall name f s0) (\<lambda>(err, s1). case err of Some e \<Rightarrow> ret (Some e)
       | None \<Rightarrow> seq (save (g s1)) (\<lambda>(e, _). ret e))) (\<lambda>e w. e = None \<and> (\<exists>s'. mgmt_json w = Present s' \<and> s_State s' = d))"
    by (rule delivers_pair [OF delivers_bcall [OF assms(1,2)]], erule conjE, simp only: option.case, rule delivers_weaken [OF delivers_save_result])
       (use assms(3) in auto)
  then show ?thesis by (simp add: numeral_2_eq_2)
qed

lemma Recover_converges:
  assumes "backend_frame B" "system_works B" "mgmt_json w = Present s" "cleanable s"
    and "disk_works w" "10 \<le> power w" "\<not> locked w"
  shows "\<exists>w' s'. Recover B w = (Some None, w') \<and> mgmt_json w' = Present s' \<and> s_State s' = decided s"
proof (cases "terminal s")
  case True
  then show ?thesis using assms(3,7)
    by (simp add: Recover_def guarded_def seq_def Acquire_def get_def fetch_def Status_def read_def ret_def decided_def)
next
  case False
  note fr = backend_frameD [OF assms(1)]
  have ok: "\<And>s b. fst (fst (mb_Authorize B s b)) = None" "\<And>s b. fst (fst (mb_Cleanup B s b)) = None"
    using assms(2) by (simp_all add: system_works_def)
  let ?body = "if s_Phase s = ''cleaning'' then recover_cleaning B s
     else if s_Authorized s then recover_authorized B s
     else if s_Phase s = ''prepare'' \<or> s_Phase s = ''preflight''
     then seq (bcall ''Cleanup'' (mb_Cleanup B) (s\<lparr>s_State := ''failed'', s_Error := ''interrupted before production changes''\<rparr>))
            (\<lambda>(err, s1). case err of Some e \<Rightarrow> ret (Some e) | None \<Rightarrow> seq (save s1) (\<lambda>(e, _). ret e))
     else seq (rollback B s) (\<lambda>(e, _). ret e)"
  have run: "Recover B w = ?body w" using assms(3,7) False
    by (simp add: Recover_def guarded_def seq_def Acquire_def get_def fetch_def Status_def read_def)
  let ?Q = "\<lambda>e w. e = None \<and> (\<exists>s'. mgmt_json w = Present s' \<and> s_State s' = decided s)"
  have clean: "delivers 2 (recover_cleaning B s) ?Q" if "s_Phase s = ''cleaning''"
    unfolding recover_cleaning_def
    by (rule delivers_call_then_save [OF fr(9) ok(2)]) (use that False in \<open>simp add: decided_def\<close>)
  have auth: "delivers 2 (recover_authorized B s) ?Q" if "s_Phase s \<noteq> ''cleaning''" "s_Authorized s"
    unfolding recover_authorized_def
    by (rule delivers_call_then_save [OF fr(8) ok(1)]) (use that False in \<open>simp add: decided_def control_def\<close>)
  have abort: "delivers 2 (seq (bcall ''Cleanup'' (mb_Cleanup B) (s\<lparr>s_State := ''failed'', s_Error := ''interrupted before production changes''\<rparr>))
            (\<lambda>(err, s1). case err of Some e \<Rightarrow> ret (Some e) | None \<Rightarrow> seq (save s1) (\<lambda>(e, _). ret e))) ?Q"
    if "s_Phase s = ''prepare'' \<or> s_Phase s = ''preflight''" "\<not> s_Authorized s"
    by (rule delivers_call_then_save [OF fr(9) ok(2), where g = "\<lambda>s1. s1"]) (use that False in \<open>auto simp: decided_def control_def\<close>)
  have roll: "delivers 10 (seq (rollback B s) (\<lambda>(e, _). ret e)) ?Q"
    if "s_Phase s \<noteq> ''cleaning''" "\<not> s_Authorized s" "\<not> (s_Phase s = ''prepare'' \<or> s_Phase s = ''preflight'')"
    using delivers_rollback [OF assms(1,2), of s] that False
    unfolding delivers_def by (fastforce simp: seq_def ret_def decided_def)
  have "delivers 10 ?body ?Q"
    using clean auth abort roll by (auto intro: delivers_weaken)
  then show ?thesis unfolding run using assms(5,6) by (auto simp: delivers_def)
qed

text \<open>
  C1. Recovery of a management update never changes its mind and always gets there. However many
  attempts are cut short by power loss or fail, the journal keeps deciding for the same outcome:
  forward once the release was authorized, back once production may have changed, failed before
  that. The first attempt with a working system ends in that terminal state.\<close>

theorem recovery_reaches_the_decided_state:
  assumes "backend_frame B" "mgmt_json w = Present s" "cleanable s"
  shows "(\<exists>s'. mgmt_json (runs (mgmt_step B v) (map (\<lambda>env. (env, DoRecover)) envs) w) = Present s' \<and> decided s' = decided s) \<and>
    (system_works B \<and> 10 \<le> env_power env \<and> (\<forall>n. env_disk env n = Written) \<and> \<not> env_locked env \<longrightarrow>
      (\<exists>w' s'. Recover B (boot env (runs (mgmt_step B v) (map (\<lambda>env. (env, DoRecover)) envs) w)) = (Some None, w') \<and>
        mgmt_json w' = Present s' \<and> s_State s' = decided s))"
proof (intro conjI impI)
  obtain s1 where s1: "mgmt_json (runs (mgmt_step B v) (map (\<lambda>env. (env, DoRecover)) envs) w) = Present s1"
    "decided s1 = decided s" "cleanable s1"
    using recoveries_decision [OF assms] by blast
  then show "\<exists>s'. mgmt_json (runs (mgmt_step B v) (map (\<lambda>env. (env, DoRecover)) envs) w) = Present s' \<and> decided s' = decided s"
    by blast
  assume works: "system_works B \<and> 10 \<le> env_power env \<and> (\<forall>n. env_disk env n = Written) \<and> \<not> env_locked env"
  show "\<exists>w' s'. Recover B (boot env (runs (mgmt_step B v) (map (\<lambda>env. (env, DoRecover)) envs) w)) = (Some None, w') \<and>
        mgmt_json w' = Present s' \<and> s_State s' = decided s"
    using Recover_converges [OF assms(1), of "boot env (runs (mgmt_step B v) (map (\<lambda>env. (env, DoRecover)) envs) w)" s1] s1 works
    by (simp add: boot_def disk_works_def)
qed

section \<open>Witnesses\<close>

definition demo_call :: "mgmt_status \<Rightarrow> nat \<Rightarrow> (error \<times> mgmt_status) \<times> nat" where
  "demo_call s b = ((None, s), Suc b)"

definition demo_mgmt :: "nat mgmt_backend" where
  "demo_mgmt = \<lparr>mb_Prepare = demo_call, mb_Preflight = demo_call, mb_Fence = demo_call, mb_Snapshot = demo_call,
     mb_Install = demo_call, mb_Healthy = demo_call, mb_Restore = demo_call, mb_Authorize = demo_call, mb_Cleanup = demo_call,
     mb_capture = demo_call, mb_releaseImages = (\<lambda>s b. (None, b)), mb_WriteBlocked = (\<lambda>i b. (None, b)),
     mb_RemoveBlocked = (\<lambda>b. (None, b)), mb_verifyMountedDatasets = (\<lambda>d b. (None, b)), mb_noRestart = Inr,
     mb_WriteCompose = (\<lambda>c b. (None, b)), mb_composeUp = (\<lambda>b. (None, b)), mb_composeImages = (\<lambda>_. Inr []),
     mb_requiredHostContains = (\<lambda>v b. (Inr True, b))\<rparr>"

definition demo_world :: "nat world" where
  "demo_world = \<lparr>host_json = Missing, host_history = [], host_actions = [], host_downloads = [], guard_json = (\<lambda>_. Missing), mgmt_json = Missing,
     mgmt_history = [], mgmt_os = (\<lambda>_. Missing), locked = False, running = False, system = 0, power = 0,
     disk = (\<lambda>_. Written), wall_clock = (\<lambda>n. - int n), trace = []\<rparr>"

definition demo_env :: env where
  "demo_env = \<lparr>env_power = 100, env_disk = (\<lambda>_. Written), env_clock = (\<lambda>n. - int n), env_locked = False\<rparr>"

definition demo_request :: request where
  "demo_request = \<lparr>rq_Upstream = [], rq_SkipDryRun = False, rq_OperationID = ''op1'', rq_Release = ''manage-v1.2.3'',
     rq_Actor = ''root'', rq_IdempotencyKey = ''k''\<rparr>"

lemma demo_frame: "backend_frame demo_mgmt"
  by (simp add: backend_frame_def keeps_control_def demo_mgmt_def demo_call_def)

theorem production_changes_are_journalled_witness:
  "journalled (trace (runs (mgmt_step demo_mgmt (\<lambda>_. True)) [(demo_env, DoStart demo_request)] demo_world))"
  by (rule production_changes_are_journalled [OF demo_frame]) (simp add: demo_world_def)

theorem recovery_reaches_the_decided_state_witness:
  "\<exists>w' s'. Recover demo_mgmt (boot demo_env (demo_world\<lparr>mgmt_json := Present (zero_mgmt\<lparr>s_State := ''running'', s_Phase := ''installing''\<rparr>)\<rparr>)) = (Some None, w') \<and>
     mgmt_json w' = Present s' \<and> s_State s' = ''rolled_back''"
proof -
  let ?s = "zero_mgmt\<lparr>s_State := ''running'', s_Phase := ''installing''\<rparr>"
  have "cleanable ?s" "decided ?s = ''rolled_back''" by (simp_all add: cleanable_def zero_mgmt_def decided_def terminal_def)
  moreover have "system_works demo_mgmt" by (simp add: system_works_def demo_mgmt_def demo_call_def)
  ultimately show ?thesis
    using recovery_reaches_the_decided_state [OF demo_frame, of "demo_world\<lparr>mgmt_json := Present ?s\<rparr>" ?s "\<lambda>_. True" "[]" demo_env]
    by (simp add: demo_env_def)
qed

end
