(* ===== verification/Host_Upgrade.thy ===== *)
theory Host_Upgrade
  imports Management_Update
begin

text \<open>
  The host updater (\<open>internal/hostupgrade/manager.go\<close>, \<open>manifest.go\<close>) and its coupling to the
  management updater (\<open>internal/hostd/host_upgrade.go\<close>): an OS release is staged, armed for one
  trial boot behind a checkpoint of the management stack, and either committed from the running
  trial or rolled back, with \<open>host.json\<close> as the journal that \<open>Recover\<close> replays before every start
  of the core stack.
\<close>

section \<open>Manifests and requests\<close>

text \<open>
  \<open>parseRelease\<close> is the error of \<open>release.Parse\<close> (hashicorp/go-version) and \<open>payloadError\<close> that of
  \<open>installer.Payload.Validate\<close>.
\<close>

definition RecoveryProtocol :: int where "RecoveryProtocol = 1"

fun first_failure :: "('a \<Rightarrow> error) \<Rightarrow> 'a list \<Rightarrow> error" where
  "first_failure f [] = None"
| "first_failure f (x # xs) = (case f x of Some e \<Rightarrow> Some e | None \<Rightarrow> first_failure f xs)"

definition Manifest_Validate :: "(string \<Rightarrow> error) \<Rightarrow> (manifest \<Rightarrow> error) \<Rightarrow> manifest \<Rightarrow> error" where
  "Manifest_Validate parseRelease payloadError m =
     (if payloadError m \<noteq> None then payloadError m
      else if parseRelease (pl_Version m) \<noteq> None then parseRelease (pl_Version m)
      else if mf_Architecture m \<noteq> ''amd64'' \<or> mf_RecoveryProtocol m \<noteq> RecoveryProtocol \<or> mf_Bootloader m = [] \<or>
              mf_PoolCompatibility m \<noteq> ''openzfs-2.3-linux''
      then Some ''unsupported host release metadata or recovery protocol''
      else if pl_RootBytes m > 2 ^ 40 \<or> pl_Bytes m > 2 ^ 40 then Some ''host artifact sizes exceed supported image limits''
      else if en_Docker (mf_Engine m) = [] \<or> en_Containerd (mf_Engine m) = [] \<or> en_Driver (mf_Engine m) \<noteq> ''zfs'' \<or>
              en_DataRoot (mf_Engine m) \<noteq> ''/floatlab/system/docker''
      then Some ''unsupported Docker store configuration''
      else map_option (\<lambda>e. ''invalid qualified source: '' @ e) (first_failure parseRelease (mf_QualifiedSources m)))"

definition file_hash :: "manifest \<Rightarrow> string \<Rightarrow> string" where
  "file_hash m name = (case map_of (pl_Files m) name of None \<Rightarrow> [] | Some h \<Rightarrow> h)"

definition ValidateTransition ::
  "(string \<Rightarrow> error) \<Rightarrow> (manifest \<Rightarrow> error) \<Rightarrow> manifest \<Rightarrow> manifest \<Rightarrow> engine \<Rightarrow> error" where
  "ValidateTransition parseRelease payloadError source target actual =
     (case Manifest_Validate parseRelease payloadError source of
        Some e \<Rightarrow> Some (''source baseline requires recovery bootstrap: '' @ e)
      | None \<Rightarrow> (case Manifest_Validate parseRelease payloadError target of Some e \<Rightarrow> Some e
      | None \<Rightarrow>
        if mf_Engine source \<noteq> actual
        then Some ''running Docker configuration differs from source release; refusing activation''
        else if mf_Bootloader source \<noteq> mf_Bootloader target \<or>
                file_hash source ''zfsbootmenu.EFI'' \<noteq> file_hash target ''zfsbootmenu.EFI'' \<or>
                mf_PoolCompatibility source \<noteq> mf_PoolCompatibility target
        then Some ''bootloader or ZFS compatibility transition requires separate qualification''
        else if list_ex (\<lambda>v. v = pl_Version source) (mf_QualifiedSources target) then None
        else Some ''Docker upgrade and fallback have not been qualified''))"

definition starts_with :: "string \<Rightarrow> string \<Rightarrow> bool" where
  "starts_with p s \<longleftrightarrow> take (length p) s = p"

definition ends_with :: "string \<Rightarrow> string \<Rightarrow> bool" where
  "ends_with p s \<longleftrightarrow> length p \<le> length s \<and> drop (length s - length p) s = p"

definition Request_Validate :: "(string \<Rightarrow> error) \<Rightarrow> request \<Rightarrow> error" where
  "Request_Validate parseRelease r = (case ValidateUpstream (rq_Upstream r) of Some e \<Rightarrow> Some e
     | None \<Rightarrow>
       if \<not> operationID (rq_OperationID r) \<or> rq_Actor r = [] \<or> 256 < length (rq_Actor r)
       then Some ''operation_id and actor are required''
       else if \<not> starts_with ''host-v'' (rq_Release r) then Some ''select an explicit host-v release''
       else parseRelease (drop (length ''host-v'') (rq_Release r)))"

section \<open>Backend and callbacks\<close>

type_synonym running_boot = "string \<times> string \<times> string \<times> string"

record 'b host_backend =
  hb_Stage :: "request \<Rightarrow> 'b \<Rightarrow> (manifest \<times> manifest \<times> error) \<times> 'b"
  hb_ValidateActivation :: "host_status \<Rightarrow> 'b \<Rightarrow> error \<times> 'b"
  hb_Arm :: "host_status \<Rightarrow> 'b \<Rightarrow> error \<times> 'b"
  hb_Clear :: "'b \<Rightarrow> error \<times> 'b"
  hb_Reboot :: "'b \<Rightarrow> error \<times> 'b"
  hb_Running :: "'b \<Rightarrow> (string + running_boot) \<times> 'b"
  hb_Health :: "'b \<Rightarrow> error \<times> 'b"
  hb_Promote :: "host_status \<Rightarrow> 'b \<Rightarrow> error \<times> 'b"
  hb_FinalizeCommit :: "host_status \<Rightarrow> 'b \<Rightarrow> error \<times> 'b"
  hb_RestoreBoot :: "host_status \<Rightarrow> 'b \<Rightarrow> error \<times> 'b"
  hb_Cleanup :: "host_status \<Rightarrow> 'b \<Rightarrow> error \<times> 'b"
  hb_watchdog :: "'b \<Rightarrow> bool"

type_synonym 'b callback = "(string \<Rightarrow> ('b world, error) prog) option"

record 'b host_manager =
  hm_Backend :: "'b host_backend"
  hm_Checkpoint :: "'b callback"
  hm_RestoreCheckpoint :: "'b callback"
  hm_ReleaseCheckpoint :: "'b callback"
  hm_PreflightCheckpoint :: "'b callback"
  hm_TrialStart :: "'b callback"
  hm_TrialReady :: "'b callback"
  hm_TrialStop :: "'b callback"
  hm_ValidateManagement :: "'b callback"
  hm_CleanupCheckpoint :: "'b callback"

definition NewHostUpdateCoordinator :: "'b host_backend \<Rightarrow> 'b mgmt_backend \<Rightarrow> 'b host_manager" where
  "NewHostUpdateCoordinator H B = \<lparr>hm_Backend = H, hm_Checkpoint = Some (Checkpoint B),
     hm_RestoreCheckpoint = Some (RestoreCheckpoint B), hm_ReleaseCheckpoint = Some (ReleaseCheckpoint B),
     hm_PreflightCheckpoint = Some (PreflightCheckpoint B), hm_TrialStart = Some (StartCheckpointTrial B),
     hm_TrialReady = Some (ActivateCheckpointControllers B), hm_TrialStop = Some (StopCheckpoint B),
     hm_ValidateManagement = Some (ValidateCheckpointHost B), hm_CleanupCheckpoint = Some (CleanupCheckpoint B)\<rparr>"

definition hcall :: "string \<Rightarrow> host_status \<Rightarrow> ('b \<Rightarrow> error \<times> 'b) \<Rightarrow> ('b world, error) prog" where
  "hcall name s f = syscall name (h_OperationID s) id f"

definition running_call :: "'b host_manager \<Rightarrow> host_status \<Rightarrow> ('b world, string + running_boot) prog" where
  "running_call m s = syscall ''Running'' (h_OperationID s) (\<lambda>r. case r of Inl e \<Rightarrow> Some e | Inr _ \<Rightarrow> None) (hb_Running (hm_Backend m))"

text \<open>Calling a callback that may be nil.\<close>

definition call_or :: "string \<Rightarrow> 'b callback \<Rightarrow> string \<Rightarrow> ('b world, error) prog" where
  "call_or missing cb opid = (case cb of None \<Rightarrow> ret (Some missing) | Some f \<Rightarrow> f opid)"

section \<open>The journal\<close>

definition host_idle :: host_status where
  "host_idle = zero_host\<lparr>h_State := ''idle'', h_Phase := ''idle''\<rparr>"

definition host_Status :: "('b world, string + host_status) prog" where
  "host_Status = get (\<lambda>w. case host_json w of Missing \<Rightarrow> Inr host_idle | Corrupt \<Rightarrow> Inl ''json: cannot unmarshal'' | Present s \<Rightarrow> Inr s)"

definition StatusFor :: "string \<Rightarrow> ('b world, error \<times> host_status) prog" where
  "StatusFor opid = fetch host_Status (\<lambda>e. ret (Some e, zero_host)) (\<lambda>s.
     if opid \<noteq> [] \<and> h_OperationID s \<noteq> opid then ret (Some ''update operation not found'', s) else ret (None, s))"

definition write_host :: "host_status \<Rightarrow> ('b world, error) prog" where
  "write_host s = WriteFile (\<lambda>w. w\<lparr>host_json := Present s\<rparr>)"

definition host_save :: "host_status \<Rightarrow> string \<Rightarrow> ('b world, error \<times> host_status) prog" where
  "host_save s state = seq Now (\<lambda>now.
     let s' = s\<lparr>h_State := state, h_Phase := state, h_UpdatedAt := now\<rparr> in seq (write_host s') (\<lambda>e. ret (e, s')))"

definition host_terminal :: "string \<Rightarrow> bool" where
  "host_terminal state \<longleftrightarrow> state = [] \<or> state = ''idle'' \<or> state = ''committed'' \<or> state = ''recovered'' \<or> state = ''failed''"

section \<open>Commit, cleanup and restore\<close>

text \<open>The removal of a file: like a write, it can fail, and a missing file is fine.\<close>

definition remove_download :: "string \<Rightarrow> string \<Rightarrow> ('b world, error) prog" where
  "remove_download opid name = WriteFile (\<lambda>w. w\<lparr>host_downloads := filter (\<lambda>d. d \<noteq> (opid, name)) (host_downloads w)\<rparr>)"

primrec clean_history :: "'b host_manager \<Rightarrow> host_status \<Rightarrow> string list \<Rightarrow> ('b world, error) prog" where
  "clean_history m s [] = ret None"
| "clean_history m s (opid # ids) =
     (if \<not> operationID opid then ret (Some ''invalid historical operation'')
      else if opid = h_OperationID s then clean_history m s ids
      else guarded (call_or ''management checkpoint cleanup unavailable'' (hm_CleanupCheckpoint m) opid) (\<lambda>e. ret (Some e))
        (guarded (WriteFile (\<lambda>w. w\<lparr>host_history := filter (\<lambda>h. fst h \<noteq> opid) (host_history w)\<rparr>)) (\<lambda>e. ret (Some e))
          (clean_history m s ids)))"

definition host_cleanup :: "'b host_manager \<Rightarrow> host_status \<Rightarrow> ('b world, error) prog" where
  "host_cleanup m s = guarded (hcall ''Cleanup'' s (hb_Cleanup (hm_Backend m) s)) (\<lambda>e. ret (Some e))
     (if \<not> host_terminal (h_State s) \<or> \<not> operationID (h_OperationID s)
      then ret (Some ''download cleanup requires a terminal operation'')
      else guarded (remove_download (h_OperationID s) ''floatlab-root.tar.gz'') (\<lambda>e. ret (Some e))
        (guarded (remove_download (h_OperationID s) ''floatlab-root.tar.gz.partial'') (\<lambda>e. ret (Some e))
          (if h_State s \<noteq> ''committed'' then ret None
           else seq (get (\<lambda>w. sort (map fst (host_history w)))) (clean_history m s))))"

definition finishCommit :: "'b host_manager \<Rightarrow> host_status \<Rightarrow> ('b world, error \<times> host_status) prog" where
  "finishCommit m s =
     guarded (call_or ''management coordinator unavailable'' (hm_ReleaseCheckpoint m) (h_OperationID s)) (\<lambda>e. ret (Some e, s))
     (guarded (hcall ''FinalizeCommit'' s (hb_FinalizeCommit (hm_Backend m) s)) (\<lambda>e. ret (Some e, s))
     (seq (host_save (s\<lparr>h_CommitFinalized := True\<rparr>) ''committed'') (\<lambda>(err, s1).
        case err of Some e \<Rightarrow> ret (Some e, s1)
        | None \<Rightarrow> guarded (host_cleanup m s1)
            (\<lambda>e. seq (host_save (s1\<lparr>h_Error := ''committed; cleanup pending: '' @ e\<rparr>) ''committed'') (\<lambda>(_, s2). ret (None, s2)))
            (ret (None, s1)))))"

definition rollback_error :: "string \<Rightarrow> host_status \<Rightarrow> ('b world, error \<times> host_status) prog" where
  "rollback_error e s = seq (host_save (s\<lparr>h_RollbackError := e\<rparr>) ''recovering'') (\<lambda>(_, s'). ret (Some e, s'))"

definition restore :: "'b host_manager \<Rightarrow> host_status \<Rightarrow> error \<Rightarrow> ('b world, error \<times> host_status) prog" where
  "restore m s cause =
     (let s0 = (case cause of None \<Rightarrow> s | Some e \<Rightarrow> s\<lparr>h_Error := e\<rparr>) in
      seq (host_save s0 ''recovering'') (\<lambda>(err, s1). case err of Some e \<Rightarrow> ret (Some e, s1)
      | None \<Rightarrow> guarded (hcall ''Clear'' s1 (hb_Clear (hm_Backend m))) (\<lambda>e. rollback_error e s1)
       (guarded (hcall ''RestoreBoot'' s1 (hb_RestoreBoot (hm_Backend m) s1)) (\<lambda>e. rollback_error e s1)
       (case hm_RestoreCheckpoint m of None \<Rightarrow> ret (Some ''management restore coordinator unavailable'', s1)
        | Some f \<Rightarrow> guarded (f (h_OperationID s1)) (\<lambda>e. rollback_error e s1)
            (host_save (s1\<lparr>h_RollbackError := []\<rparr>) ''recovered'')))))"

section \<open>Actions\<close>

definition trial_origin :: "host_status \<Rightarrow> string" where
  "trial_origin s = ''floatlab/os/'' @ pl_Version (h_Manifest s) @ ''@base''"

definition activate :: "'b host_manager \<Rightarrow> host_status \<Rightarrow> ('b world, error \<times> host_status) prog" where
  "activate m s =
     (if h_State s = ''armed'' \<or> h_State s = ''trial'' \<or> h_State s = ''ready'' then ret (None, s)
      else if h_State s \<noteq> ''staged'' then ret (Some (''host update is '' @ h_State s), s)
      else case (hm_Checkpoint m, hm_RestoreCheckpoint m, hm_ReleaseCheckpoint m) of
        (Some take_checkpoint, Some _, Some _) \<Rightarrow>
          guarded (hcall ''ValidateActivation'' s (hb_ValidateActivation (hm_Backend m) s)) (\<lambda>e. ret (Some e, s))
          (guarded (call_or ''management compatibility validator unavailable'' (hm_ValidateManagement m) (pl_Version (h_Manifest s)))
             (\<lambda>e. ret (Some e, s))
          (fetch (running_call m s) (\<lambda>e. ret (Some e, s\<lparr>h_BootID := []\<rparr>)) (\<lambda>(_, _, _, boot).
             seq (host_save (s\<lparr>h_BootID := boot\<rparr>) ''arming'') (\<lambda>(err, s1). case err of Some e \<Rightarrow> ret (Some e, s1)
             | None \<Rightarrow>
               guarded (guarded (take_checkpoint (h_OperationID s1)) (\<lambda>e. ret (Some e)) (hcall ''Arm'' s1 (hb_Arm (hm_Backend m) s1)))
                 (\<lambda>e. restore m s1 (Some e))
                 (seq (host_save s1 ''armed'') (\<lambda>(err, s2). case err of Some e \<Rightarrow> ret (Some e, s2)
                  | None \<Rightarrow> guarded (hcall ''Reboot'' s2 (hb_Reboot (hm_Backend m))) (\<lambda>e. restore m s2 (Some e)) (ret (None, s2))))))))
      | _ \<Rightarrow> ret (Some ''management recovery coordinator unavailable'', s))"

definition commit :: "'b host_manager \<Rightarrow> host_status \<Rightarrow> ('b world, error \<times> host_status) prog" where
  "commit m s =
     (if h_State s = ''committed'' then (if \<not> h_CommitFinalized s then finishCommit m s else ret (None, s))
      else if h_State s \<noteq> ''ready'' \<and> h_State s \<noteq> ''committing'' then ret (Some ''trial has not completed stable readiness'', s)
      else fetch (running_call m s) (\<lambda>e. ret (Some e, s)) (\<lambda>(version, origin, token, _).
        if version \<noteq> pl_Version (h_Manifest s) \<or> origin \<noteq> trial_origin s \<or> token \<noteq> h_OperationID s
        then ret (Some ''running boot does not match this trial'', s)
        else guarded (hcall ''Health'' s (hb_Health (hm_Backend m))) (\<lambda>e. ret (Some e, s))
          (seq (host_save s ''committing'') (\<lambda>(err, s1). case err of Some e \<Rightarrow> ret (Some e, s1)
           | None \<Rightarrow> guarded (hcall ''Promote'' s1 (hb_Promote (hm_Backend m) s1)) (\<lambda>e. ret (Some e, s1))
             (seq (host_save s1 ''committed'') (\<lambda>(err, s2). case err of Some e \<Rightarrow> ret (Some e, s2)
              | None \<Rightarrow> finishCommit m s2))))))"

definition rollback_action :: "'b host_manager \<Rightarrow> host_status \<Rightarrow> ('b world, error \<times> host_status) prog" where
  "rollback_action m s =
     (if h_State s = ''recovered'' then ret (None, s)
      else if h_State s = ''staged'' \<or> h_State s = ''failed''
      then guarded (hcall ''Clear'' s (hb_Clear (hm_Backend m))) (\<lambda>e. ret (Some e, s)) (host_save s ''recovered'')
      else case hm_TrialStop m of None \<Rightarrow> ret (Some ''management stop coordinator unavailable'', s)
      | Some trialStop \<Rightarrow>
        seq (host_save s ''recovering'') (\<lambda>(err, s1). case err of Some e \<Rightarrow> ret (Some e, s1)
        | None \<Rightarrow> guarded (hcall ''Clear'' s1 (hb_Clear (hm_Backend m))) (\<lambda>e. ret (Some e, s1))
          (guarded (trialStop (h_OperationID s1)) (\<lambda>e. ret (Some e, s1))
          (guarded (hcall ''RestoreBoot'' s1 (hb_RestoreBoot (hm_Backend m) s1)) (\<lambda>e. ret (Some e, s1))
          (seq (hcall ''Reboot'' s1 (hb_Reboot (hm_Backend m))) (\<lambda>e. ret (e, s1)))))))"

definition cleanup_action :: "'b host_manager \<Rightarrow> host_status \<Rightarrow> ('b world, error \<times> host_status) prog" where
  "cleanup_action m s =
     (if \<not> host_terminal (h_State s) then ret (Some ''cleanup blocked by pending trial'', s)
      else seq (host_cleanup m s) (\<lambda>e. ret (e, s)))"

definition actionLocked :: "'b host_manager \<Rightarrow> request \<Rightarrow> string \<Rightarrow> ('b world, error \<times> host_status) prog" where
  "actionLocked m r action = fetch host_Status (\<lambda>e. ret (Some e, zero_host)) (\<lambda>s.
     if \<not> operationID (rq_OperationID r) \<or> rq_OperationID r \<noteq> h_OperationID s then ret (Some ''unknown operation'', s)
     else if action = ''activate'' then activate m s
     else if action = ''commit'' then commit m s
     else if action = ''rollback'' then rollback_action m s
     else if action = ''cleanup'' then cleanup_action m s
     else ret (Some ''unknown host update action'', s))"

definition host_action :: "'b host_manager \<Rightarrow> request \<Rightarrow> string \<Rightarrow> ('b world, error \<times> host_status) prog" where
  "host_action m r action = guarded Acquire (\<lambda>e. ret (Some e, zero_host)) (actionLocked m r action)"

definition Activate where "Activate m r = host_action m r ''activate''"

definition Commit where "Commit m r = host_action m r ''commit''"

definition host_Rollback where "host_Rollback m r = host_action m r ''rollback''"

definition host_Cleanup where "host_Cleanup m r = host_action m r ''cleanup''"

section \<open>Prepare, Submit and Recover\<close>

definition management_pending :: "('b world, error) prog" where
  "management_pending = get (\<lambda>w. case mgmt_json w of Missing \<Rightarrow> None | Corrupt \<Rightarrow> Some ''json: cannot unmarshal''
     | Present other \<Rightarrow>
       if \<not> host_terminal (s_State other) \<and> s_State other \<noteq> ''idle'' \<and> s_State other \<noteq> ''succeeded'' \<and> s_State other \<noteq> ''rolled_back''
       then Some ''management update is pending'' else None)"

text \<open>The download that runs after \<open>Prepare\<close> has returned, holding the lock.\<close>

definition stage_job :: "'b host_manager \<Rightarrow> request \<Rightarrow> host_status \<Rightarrow> ('b world, unit) prog" where
  "stage_job m r s = seq (syscall ''Stage'' (h_OperationID s) (\<lambda>(_, _, e). e) (hb_Stage (hm_Backend m) r)) (\<lambda>(target, source, e).
     seq (if e = None \<and> \<not> rq_SkipDryRun r
          then (case hm_PreflightCheckpoint m of None \<Rightarrow> ret None | Some f \<Rightarrow> f (rq_OperationID r)) else ret e) (\<lambda>e.
     let s1 = s\<lparr>h_Manifest := target, h_Source := source, h_SourceRelease := ''host-v'' @ pl_Version source\<rparr> in
     case e of Some x \<Rightarrow> seq (host_save (s1\<lparr>h_Error := x\<rparr>) ''failed'') (\<lambda>_. ret ())
     | None \<Rightarrow> seq (host_save s1 ''staged'') (\<lambda>_. ret ())))"

definition Prepare :: "'b host_manager \<Rightarrow> (string \<Rightarrow> error) \<Rightarrow> request \<Rightarrow> ('b world, error \<times> host_status) prog" where
  "Prepare m parseRelease r = (case Request_Validate parseRelease r of Some e \<Rightarrow> ret (Some e, zero_host)
     | None \<Rightarrow> guarded Acquire (\<lambda>e. ret (Some e, zero_host)) (fetch host_Status (\<lambda>e. ret (Some e, zero_host)) (\<lambda>s.
       if h_OperationID s = rq_OperationID r
       then if h_TargetRelease s \<noteq> rq_Release r \<or> Repository (h_Upstream s) \<noteq> Repository (rq_Upstream r) \<or> h_SkipDryRun s \<noteq> rq_SkipDryRun r
            then ret (Some ''operation id already used for another release or update options'', s) else ret (None, s)
       else if \<not> host_terminal (h_State s) then ret (Some (''host update '' @ h_OperationID s @ '' is '' @ h_State s), s)
       else guarded management_pending (\<lambda>e. ret (Some e, s))
         (guarded (if h_OperationID s \<noteq> []
                   then WriteFile (\<lambda>w. w\<lparr>host_history := AList.update (h_OperationID s) s (host_history w)\<rparr>) else ret None)
            (\<lambda>e. ret (Some e, s))
         (seq Now (\<lambda>now. seq (get (\<lambda>w. hb_watchdog (hm_Backend m) (system w))) (\<lambda>watchdog.
            let s0 = zero_host\<lparr>h_OperationID := rq_OperationID r, h_Actor := rq_Actor r, h_TargetRelease := rq_Release r,
                  h_Upstream := rq_Upstream r, h_SkipDryRun := rq_SkipDryRun r, h_StartedAt := now, h_Watchdog := watchdog\<rparr>
            in seq (host_save s0 ''staging'') (\<lambda>(err, s1). case err of Some e \<Rightarrow> ret (Some e, s1)
               | None \<Rightarrow> seq (stage_job m r s1) (\<lambda>_. ret (None, s1))))))))))"

text \<open>The file of an accepted action is named by the SHA-256 of its idempotency key.\<close>

definition action_refused :: "string \<Rightarrow> host_status \<Rightarrow> error" where
  "action_refused action s =
     (if action = ''activate'' then (if h_State s \<noteq> ''staged'' then Some (''host update is '' @ h_State s) else None)
      else if action = ''commit'' then (if h_State s \<noteq> ''ready'' \<and> h_State s \<noteq> ''committing'' then Some ''trial is not ready'' else None)
      else if action = ''cleanup'' then (if \<not> host_terminal (h_State s) then Some ''update is pending'' else None)
      else if action = ''rollback'' then None
      else Some ''invalid action'')"

definition submit_job :: "'b host_manager \<Rightarrow> request \<Rightarrow> string \<Rightarrow> ('b world, unit) prog" where
  "submit_job m r action = seq (actionLocked m r action) (\<lambda>(e, result).
     seq Now (\<lambda>now.
     let r1 = (case e of None \<Rightarrow> result | Some x \<Rightarrow> result\<lparr>h_Error := x\<rparr>);
         r2 = (if ends_with ''_requested'' (h_Phase r1) then r1\<lparr>h_Phase := h_State r1\<rparr> else r1)
     in seq (write_host (r2\<lparr>h_UpdatedAt := now\<rparr>)) (\<lambda>_. ret ())))"

definition Submit :: "'b host_manager \<Rightarrow> (string \<Rightarrow> string) \<Rightarrow> request \<Rightarrow> string \<Rightarrow> ('b world, error \<times> host_status) prog" where
  "Submit m sha256 r action =
     (if \<not> operationID (rq_OperationID r) \<or> rq_IdempotencyKey r = [] \<or> 255 < length (rq_IdempotencyKey r) \<or> rq_Actor r = []
      then ret (Some ''operation_id, idempotency_key and actor required'', zero_host)
      else guarded Acquire (\<lambda>e. ret (Some e, zero_host)) (fetch host_Status (\<lambda>e. ret (Some e, zero_host)) (\<lambda>s.
        if h_OperationID s \<noteq> rq_OperationID r then ret (Some ''unknown operation'', s)
        else seq (get (\<lambda>w. map_of (host_actions w) (sha256 (rq_IdempotencyKey r)))) (\<lambda>previous. case previous of
          Some (prequest, paction) \<Rightarrow>
            if rq_OperationID prequest \<noteq> rq_OperationID r \<or> paction \<noteq> action then ret (Some ''idempotency key already used'', s)
            else ret (None, s)
        | None \<Rightarrow> (case action_refused action s of Some e \<Rightarrow> ret (Some e, s)
          | None \<Rightarrow> guarded (WriteFile (\<lambda>w. w\<lparr>host_actions := AList.update (sha256 (rq_IdempotencyKey r)) (r, action) (host_actions w)\<rparr>))
              (\<lambda>e. ret (Some e, s))
            (seq Now (\<lambda>now. let s1 = s\<lparr>h_Phase := action @ ''_requested'', h_UpdatedAt := now\<rparr> in
               guarded (write_host s1) (\<lambda>e. ret (Some e, s1)) (seq (submit_job m r action) (\<lambda>_. ret (None, s1))))))))))"

definition recover_trial :: "'b host_manager \<Rightarrow> host_status \<Rightarrow> ('b world, error) prog" where
  "recover_trial m s =
     (if h_State s = ''committing''
      then guarded (hcall ''Promote'' s (hb_Promote (hm_Backend m) s)) (\<lambda>e. ret (Some e))
        (seq (host_save s ''committed'') (\<lambda>(err, s1). case err of Some e \<Rightarrow> ret (Some e)
         | None \<Rightarrow> seq (finishCommit m s1) (\<lambda>(e, _). ret e)))
      else guarded (call_or ''management trial coordinator unavailable'' (hm_TrialStart m) (h_OperationID s)) (\<lambda>e. ret (Some e))
        (if h_State s = ''ready'' then ret None else seq (host_save s ''trial'') (\<lambda>(e, _). ret e)))"

definition recover_leave_trial :: "'b host_manager \<Rightarrow> host_status \<Rightarrow> ('b world, error) prog" where
  "recover_leave_trial m s =
     guarded (call_or ''management stop coordinator unavailable'' (hm_TrialStop m) (h_OperationID s)) (\<lambda>e. ret (Some e))
     (guarded (hcall ''Clear'' s (hb_Clear (hm_Backend m))) (\<lambda>e. ret (Some e))
     (guarded (hcall ''RestoreBoot'' s (hb_RestoreBoot (hm_Backend m) s)) (\<lambda>e. ret (Some e))
     (hcall ''Reboot'' s (hb_Reboot (hm_Backend m)))))"

definition recover_request :: "host_status \<Rightarrow> request" where
  "recover_request s = \<lparr>rq_Upstream = [], rq_SkipDryRun = False, rq_OperationID = h_OperationID s, rq_Release = [],
     rq_Actor = h_Actor s, rq_IdempotencyKey = []\<rparr>"

definition recover_pending :: "'b host_manager \<Rightarrow> host_status \<Rightarrow> ('b world, error) prog" where
  "recover_pending m s = fetch (running_call m s) (\<lambda>e. ret (Some e)) (\<lambda>(version, origin, token, boot).
     let trial = (version = pl_Version (h_Manifest s) \<and> origin = trial_origin s) in
     if h_State s = ''recovering'' \<and> trial then recover_leave_trial m s
     else if token = h_OperationID s \<and> trial \<and> h_State s \<noteq> ''recovering'' then recover_trial m s
     else if boot = h_BootID s \<and> h_State s = ''armed'' then ret (Some ''OS reboot is pending'')
     else if version \<noteq> pl_Version (h_Source s)
     then ret (Some ''recovery boot is neither source nor authorized trial; management remains stopped'')
     else seq (restore m s (Some ''uncommitted OS trial returned to committed boot'')) (\<lambda>(e, _). ret e))"

definition host_Recover :: "'b host_manager \<Rightarrow> ('b world, error) prog" where
  "host_Recover m = guarded Acquire (\<lambda>e. ret (Some e)) (fetch host_Status (\<lambda>e. ret (Some e)) (\<lambda>s.
     if ends_with ''_requested'' (h_Phase s)
     then seq (actionLocked m (recover_request s) (take (length (h_Phase s) - length ''_requested'') (h_Phase s))) (\<lambda>(e, _). ret e)
     else if host_terminal (h_State s)
     then if h_State s = ''committed'' \<and> \<not> h_CommitFinalized s then seq (finishCommit m s) (\<lambda>(e, _). ret e) else ret None
     else if h_State s = ''staging''
     then seq (host_save (s\<lparr>h_Error := ''OS staging interrupted; retry with a new operation''\<rparr>) ''failed'') (\<lambda>(e, _). ret e)
     else if h_State s = ''staged'' then ret None
     else recover_pending m s))"

section \<open>Supervision of a trial\<close>

definition WriteGuardMessage :: "string \<Rightarrow> string \<Rightarrow> ('b world, error) prog" where
  "WriteGuardMessage opid state = (if \<not> operationID opid then ret (Some ''invalid operation id'')
     else seq Now (\<lambda>now. WriteFile (\<lambda>w. w\<lparr>guard_json := (guard_json w)(opid := Present (opid, state, now))\<rparr>)))"

text \<open>
  One tick of \<open>Supervise\<close> for operation \<open>opid\<close>: \<open>now\<close> is the monotonic time of the health check and
  \<open>stableSince\<close> the time since which the system has been healthy. The result is the error it returns, or
  the new \<open>stableSince\<close> with which it goes on.
\<close>

datatype tick = Return error | Continue "int option"

definition mark_ready :: "('b world, error) prog" where
  "mark_ready = fetch host_Status (\<lambda>e. ret (Some e)) (\<lambda>fresh.
     if h_State fresh = ''trial'' \<or> h_State fresh = ''ready'' then seq (host_save fresh ''ready'') (\<lambda>(e, _). ret e) else ret None)"

definition minute :: int where "minute = 60 * 10 ^ 9"

definition supervise_tick :: "'b host_manager \<Rightarrow> string \<Rightarrow> int \<Rightarrow> int option \<Rightarrow> ('b world, tick) prog" where
  "supervise_tick m opid now stableSince = fetch host_Status (\<lambda>e. ret (Return (Some e))) (\<lambda>current.
     if h_State current = ''committed''
     then if h_CommitFinalized current then seq (WriteGuardMessage opid ''committed'') (\<lambda>e. ret (Return e)) else ret (Continue stableSince)
     else if h_State current = ''recovering'' then ret (Return None)
     else guarded (syscall ''Health'' opid id (hb_Health (hm_Backend m))) (\<lambda>_. ret (Continue None))
       (let since = (case stableSince of None \<Rightarrow> now | Some t \<Rightarrow> t) in
        if h_State current \<noteq> ''ready'' \<and> now - since < minute then ret (Continue (Some since))
        else
          let finish = guarded (case hm_TrialReady m of None \<Rightarrow> ret None | Some f \<Rightarrow> f opid) (\<lambda>e. ret (Return (Some e)))
                (guarded (WriteGuardMessage opid ''ready'') (\<lambda>e. ret (Return (Some e))) (ret (Continue (Some since))))
          in if h_State current \<noteq> ''ready''
             then guarded Acquire (\<lambda>_. ret (Continue (Some since))) (guarded mark_ready (\<lambda>e. ret (Return (Some e))) finish)
             else finish))"

section \<open>Invariants of the host updater\<close>

text \<open>The invariant, with the host journal as \<open>s\<close>.\<close>

definition holding :: "('b world \<Rightarrow> bool) \<Rightarrow> host_status \<Rightarrow> 'b world \<Rightarrow> bool" where
  "holding I s w \<longleftrightarrow> I w \<and> host_json w = Present s"

text \<open>From a journal \<open>s\<close> the program keeps the invariant on every path.\<close>

definition under :: "('b world \<Rightarrow> bool) \<Rightarrow> host_status \<Rightarrow> ('b world, 'a) prog \<Rightarrow> bool" where
  "under I s m \<longleftrightarrow> triple I (holding I s) m (\<lambda>_. I)"

definition safe :: "('b world \<Rightarrow> bool) \<Rightarrow> ('b world, 'a) prog \<Rightarrow> bool" where
  "safe I m \<longleftrightarrow> triple I I m (\<lambda>_. I)"

lemma safe_under: "safe I m \<Longrightarrow> under I s m"
  unfolding safe_def under_def by (erule triple_weaken) (auto simp: holding_def)

lemma safe_ret [intro]: "safe I (ret x)"
  by (auto simp: safe_def)

lemma under_ret [intro]: "under I s (ret x)"
  by (rule safe_under) auto

lemma holding_triple: "ensures (holding I s) p R \<Longrightarrow> triple I (holding I s) p (\<lambda>x w. holding I s w \<and> R x)"
  unfolding ensures_def by (erule triple_weaken) (auto simp: holding_def)

lemma under_seq: "ensures (holding I s) p R \<Longrightarrow> (\<And>x. R x \<Longrightarrow> under I s (f x)) \<Longrightarrow> under I s (seq p f)"
  unfolding under_def
  by (rule triple_seq [OF holding_triple], assumption) (auto simp: triple_def)

lemma under_guarded:
  "ensures (holding I s) p (\<lambda>_. True) \<Longrightarrow> (\<And>e. under I s (h e)) \<Longrightarrow> under I s k \<Longrightarrow> under I s (guarded p h k)"
  unfolding guarded_def by (erule under_seq) (auto split: option.splits)

lemma under_fetch:
  "ensures (holding I s) p (\<lambda>_. True) \<Longrightarrow> (\<And>e. under I s (h e)) \<Longrightarrow> (\<And>x. under I s (k x)) \<Longrightarrow> under I s (fetch p h k)"
  unfolding fetch_def by (erule under_seq) (auto split: sum.splits)

lemma safe_seq: "safe I p \<Longrightarrow> (\<And>x. safe I (f x)) \<Longrightarrow> safe I (seq p f)"
  unfolding safe_def by (rule triple_seq)

lemma safe_guarded: "safe I p \<Longrightarrow> (\<And>e. safe I (h e)) \<Longrightarrow> safe I k \<Longrightarrow> safe I (guarded p h k)"
  unfolding safe_def by (rule triple_guarded)

lemma safe_if: "(b \<Longrightarrow> safe I p) \<Longrightarrow> (\<not> b \<Longrightarrow> safe I q) \<Longrightarrow> safe I (if b then p else q)"
  by simp

lemma under_if: "(b \<Longrightarrow> under I s p) \<Longrightarrow> (\<not> b \<Longrightarrow> under I s q) \<Longrightarrow> under I s (if b then p else q)"
  by simp

lemma safe_get: "safe I (get f)"
  by (auto simp: safe_def)

text \<open>The contract of a coordinator: what the management side promises to the host updater.\<close>

definition ready :: "string \<Rightarrow> 'b world \<Rightarrow> bool" where
  "ready opid w \<longleftrightarrow> (\<exists>c. mgmt_os w opid = Present c \<and> s_Phase c = ''checkpoint_ready'' \<and> s_ProductionChanged c \<and>
     s_Snapshot c = snapshot_name opid)"

definition host_in :: "string set \<Rightarrow> string \<Rightarrow> 'b world \<Rightarrow> bool" where
  "host_in states opid w \<longleftrightarrow> (\<exists>s. host_json w = Present s \<and> h_OperationID s = opid \<and> h_State s \<in> states)"

definition guarded_calls :: "string set" where
  "guarded_calls = {''Arm'', ''Reboot'', ''Promote'', ''FinalizeCommit'', ''os.Restore'', ''os.Authorize''}"

locale host_invariant =
  fixes I :: "'b world \<Rightarrow> bool" and m :: "'b host_manager"
  assumes power_passes: "spared I"
    and host_write: "I w \<Longrightarrow> I (w\<lparr>host_json := d\<rparr>)"
    and file_writes: "I w \<Longrightarrow> I (w\<lparr>host_history := hh\<rparr>)" "I w \<Longrightarrow> I (w\<lparr>host_actions := ha\<rparr>)"
      "I w \<Longrightarrow> I (w\<lparr>host_downloads := hdl\<rparr>)" "I w \<Longrightarrow> I (w\<lparr>guard_json := gj\<rparr>)"
    and plain_call: "name \<notin> guarded_calls \<Longrightarrow> callable I (\<lambda>_. True) name opid"
    and arm_call: "callable I (\<lambda>w. host_in {''arming''} opid w \<and> ready opid w) ''Arm'' opid"
    and reboot_call: "callable I (host_in {''armed'', ''recovering''} opid) ''Reboot'' opid"
    and promote_call: "callable I (host_in {''committing''} opid) ''Promote'' opid"
    and finalize_call: "callable I (host_in {''committed''} opid) ''FinalizeCommit'' opid"
    and checkpoint_law: "hm_Checkpoint m = Some f \<Longrightarrow>
      triple (holding I s) (holding I s) (f opid) (\<lambda>e w. holding I s w \<and> (e = None \<longrightarrow> ready opid w))"
    and restore_law: "hm_RestoreCheckpoint m = Some f \<Longrightarrow> h_State s = ''recovering'' \<Longrightarrow> ensures (holding I s) (f opid) (\<lambda>_. True)"
    and release_law: "hm_ReleaseCheckpoint m = Some f \<Longrightarrow> h_State s = ''committed'' \<Longrightarrow> ensures (holding I s) (f opid) (\<lambda>_. True)"
    and callback_law: "Some f \<in> {hm_PreflightCheckpoint m, hm_TrialStart m, hm_TrialReady m, hm_TrialStop m, hm_ValidateManagement m,
        hm_CleanupCheckpoint m} \<Longrightarrow> ensures I (f opid) (\<lambda>_. True) \<and> ensures (holding I s) (f opid) (\<lambda>_. True)"
begin

lemma holding_spared: "spared (holding I s)"
  using power_passes by (simp add: spared_def holding_def)

lemma holding_callable:
  "callable I P name opid \<Longrightarrow> callable (holding I s) P name opid"
  unfolding callable_def holding_def by (intro allI impI conjI) (blast, simp)

lemma syscall_holding:
  assumes "callable I P name opid" "\<And>w. holding I s w \<Longrightarrow> P w"
  shows "ensures (holding I s) (syscall name opid errOf f) (\<lambda>_. True)"
  unfolding ensures_def
  by (rule triple_weaken [OF triple_syscall [OF holding_spared holding_callable [OF assms(1)], where R = "\<lambda>_. True"]])
     (use assms(2) in auto)

lemma plain_holding: "name \<notin> guarded_calls \<Longrightarrow> ensures (holding I s) (syscall name opid errOf f) (\<lambda>_. True)"
  by (rule syscall_holding [OF plain_call]) auto

lemma hcall_holding:
  "name \<notin> guarded_calls \<Longrightarrow> ensures (holding I s) (hcall name s' f) (\<lambda>_. True)"
  unfolding hcall_def by (rule plain_holding)

lemma running_holding: "ensures (holding I s) (running_call m s') (\<lambda>_. True)"
  unfolding running_call_def by (rule plain_holding) (simp add: guarded_calls_def)

lemma save_safe:
  "triple I I (host_save s st) (\<lambda>(e, s') w. I w \<and> (\<exists>t. s' = s\<lparr>h_State := st, h_Phase := st, h_UpdatedAt := t\<rparr>) \<and>
     (e = None \<longrightarrow> host_json w = Present s'))"
  unfolding triple_def host_save_def write_host_def Let_def wp_seq wp_Now option.case
  by (intro allI impI, rule wp_WriteFileI) (use power_passes host_write in \<open>auto simp: wp_ret spared_def\<close>)

lemma host_save_safe: "safe I (host_save s st)"
  unfolding safe_def by (rule triple_weaken [OF save_safe]) auto

lemma save_then:
  assumes "\<And>s'. h_State s' = st \<Longrightarrow> h_OperationID s' = h_OperationID s \<Longrightarrow> under I s' (k s')" "\<And>e s'. safe I (bad e s')"
  shows "safe I (seq (host_save s st) (\<lambda>(err, s1). case err of Some e \<Rightarrow> bad e s1 | None \<Rightarrow> k s1))"
  unfolding safe_def
proof (rule triple_seq [OF save_safe], clarify)
  fix err s1
  show "triple I (\<lambda>w. I w \<and> (\<exists>t. s1 = s\<lparr>h_State := st, h_Phase := st, h_UpdatedAt := t\<rparr>) \<and> (err = None \<longrightarrow> host_json w = Present s1))
     (case err of Some e \<Rightarrow> bad e s1 | None \<Rightarrow> k s1) (\<lambda>_. I)"
  proof (cases err)
    case None
    show ?thesis
    proof (rule triple_pre [where b = "\<exists>t. s1 = s\<lparr>h_State := st, h_Phase := st, h_UpdatedAt := t\<rparr>"])
      assume "\<exists>t. s1 = s\<lparr>h_State := st, h_Phase := st, h_UpdatedAt := t\<rparr>"
      then have "under I s1 (k s1)" by (intro assms(1)) auto
      then show ?thesis unfolding under_def None by (auto elim!: triple_weaken simp: holding_def)
    qed auto
  next
    case (Some e)
    then show ?thesis using assms(2) [of e s1] unfolding safe_def by (auto elim!: triple_weaken)
  qed
qed

lemma call_or_holding:
  "(\<And>f. cb = Some f \<Longrightarrow> ensures (holding I s) (f opid) (\<lambda>_. True)) \<Longrightarrow> ensures (holding I s) (call_or msg cb opid) (\<lambda>_. True)"
  by (auto simp: call_or_def intro: ensures_ret split: option.splits)

lemma rollback_error_safe: "safe I (rollback_error e s)"
  unfolding rollback_error_def by (rule safe_seq [OF host_save_safe]) auto

lemma restore_safe: "safe I (restore m s cause)"
  unfolding restore_def Let_def
proof (rule save_then, goal_cases)
  case (1 s')
  have "under I s' (case hm_RestoreCheckpoint m of None \<Rightarrow> ret (Some ''management restore coordinator unavailable'', s')
        | Some f \<Rightarrow> guarded (f (h_OperationID s')) (\<lambda>e. rollback_error e s')
            (host_save (s'\<lparr>h_RollbackError := []\<rparr>) ''recovered''))"
    by (cases "hm_RestoreCheckpoint m")
       (auto intro!: under_guarded restore_law [OF _ 1(1)] safe_under [OF rollback_error_safe] safe_under [OF host_save_safe])
  then show ?case
    by (intro under_guarded hcall_holding safe_under [OF rollback_error_safe]) (auto simp: guarded_calls_def)
qed auto

lemma write_file_safe:
  assumes "\<And>w. I w \<Longrightarrow> I (upd w)" "\<And>w n. upd (w\<lparr>power := n\<rparr>) = (upd w)\<lparr>power := n\<rparr>"
  shows "safe I (WriteFile upd)"
  unfolding safe_def
  by (rule triple_weaken [OF triple_WriteFile [OF power_passes, where Q = "\<lambda>_. True"]]) (use assms in \<open>auto simp: spared_def\<close>)

lemma callback_safe: "Some f \<in> {hm_PreflightCheckpoint m, hm_TrialStart m, hm_TrialReady m, hm_TrialStop m, hm_ValidateManagement m,
        hm_CleanupCheckpoint m} \<Longrightarrow> safe I (f opid)"
  using callback_law [of f opid] unfolding safe_def ensures_def by (auto elim!: triple_weaken)

lemma call_or_safe: "cb \<in> {hm_PreflightCheckpoint m, hm_TrialStart m, hm_TrialReady m, hm_TrialStop m, hm_ValidateManagement m,
        hm_CleanupCheckpoint m} \<Longrightarrow> safe I (call_or msg cb opid)"
  unfolding call_or_def by (cases cb) (auto intro: callback_safe)

lemma clean_history_safe: "safe I (clean_history m s ids)"
  by (induction ids) (auto intro!: safe_guarded call_or_safe write_file_safe file_writes)

lemma plain_safe: "name \<notin> guarded_calls \<Longrightarrow> safe I (syscall name opid errOf f)"
  unfolding safe_def
  by (rule triple_weaken [OF triple_syscall [OF power_passes plain_call, where R = "\<lambda>_. True"]]) auto

lemma host_cleanup_safe: "safe I (host_cleanup m s)"
  unfolding host_cleanup_def hcall_def remove_download_def
  by (intro safe_guarded plain_safe safe_if safe_ret write_file_safe file_writes safe_seq [OF safe_get] clean_history_safe)
     (auto simp: guarded_calls_def)

lemma finishCommit_under:
  assumes "h_State s = ''committed''"
  shows "under I s (finishCommit m s)"
proof -
  have f: "ensures (holding I s) (hcall ''FinalizeCommit'' s f) (\<lambda>_. True)" for f
    unfolding hcall_def by (rule syscall_holding [OF finalize_call]) (use assms in \<open>auto simp: holding_def host_in_def\<close>)
  have "safe I (seq (host_save (s\<lparr>h_CommitFinalized := True\<rparr>) ''committed'') (\<lambda>(err, s1).
        case err of Some e \<Rightarrow> ret (Some e, s1)
        | None \<Rightarrow> guarded (host_cleanup m s1)
            (\<lambda>e. seq (host_save (s1\<lparr>h_Error := ''committed; cleanup pending: '' @ e\<rparr>) ''committed'') (\<lambda>(_, s2). ret (None, s2)))
            (ret (None, s1))))"
    by (intro save_then safe_ret safe_under safe_guarded host_cleanup_safe safe_seq [OF host_save_safe]) auto
  then show ?thesis unfolding finishCommit_def
    by (intro under_guarded call_or_holding release_law [OF _ assms] f under_ret safe_under)
qed

lemma activate_under: "under I s (activate m s)"
proof -
  have arm: "ensures (holding I s1) (guarded (f (h_OperationID s1)) (\<lambda>e. ret (Some e)) (hcall ''Arm'' s1 g)) (\<lambda>_. True)"
    if "hm_Checkpoint m = Some f" "h_State s1 = ''arming''" for f g s1
    unfolding ensures_def
  proof (rule triple_guarded [OF checkpoint_law [OF that(1)]])
    show "triple (holding I s1) (\<lambda>w. holding I s1 w \<and> (None = None \<longrightarrow> ready (h_OperationID s1) w)) (hcall ''Arm'' s1 g) (\<lambda>x w. holding I s1 w \<and> True)"
      unfolding hcall_def
      by (rule triple_weaken [OF triple_syscall [OF holding_spared holding_callable [OF arm_call], where R = "\<lambda>_. True"]])
         (use that(2) in \<open>auto simp: holding_def host_in_def\<close>)
  qed auto
  have reboot: "ensures (holding I s2) (hcall ''Reboot'' s2 f) (\<lambda>_. True)" if "h_State s2 = ''armed''" for s2 f
    unfolding hcall_def by (rule syscall_holding [OF reboot_call]) (use that in \<open>auto simp: holding_def host_in_def\<close>)
  have armed: "safe I (seq (host_save s1 ''armed'') (\<lambda>(err, s2). case err of Some e \<Rightarrow> ret (Some e, s2)
      | None \<Rightarrow> guarded (hcall ''Reboot'' s2 (hb_Reboot (hm_Backend m))) (\<lambda>e. restore m s2 (Some e)) (ret (None, s2))))" for s1
    by (intro save_then safe_ret under_guarded reboot safe_under [OF restore_safe] under_ret)
  have arming: "safe I (seq (host_save (s\<lparr>h_BootID := bt\<rparr>) ''arming'') (\<lambda>(err, s1). case err of Some e \<Rightarrow> ret (Some e, s1)
      | None \<Rightarrow> guarded (guarded (f (h_OperationID s1)) (\<lambda>e. ret (Some e)) (hcall ''Arm'' s1 (hb_Arm (hm_Backend m) s1)))
          (\<lambda>e. restore m s1 (Some e))
          (seq (host_save s1 ''armed'') (\<lambda>(err, s2). case err of Some e \<Rightarrow> ret (Some e, s2)
            | None \<Rightarrow> guarded (hcall ''Reboot'' s2 (hb_Reboot (hm_Backend m))) (\<lambda>e. restore m s2 (Some e)) (ret (None, s2))))))"
    if "hm_Checkpoint m = Some f" for f bt
    by (intro save_then safe_ret under_guarded arm that safe_under [OF restore_safe] safe_under [OF armed])
  have validate: "ensures (holding I s) (call_or msg (hm_ValidateManagement m) v) (\<lambda>_. True)" for msg v
    by (rule call_or_holding) (use callback_law in auto)
  show ?thesis
    unfolding activate_def
    by (auto split: option.splits intro!: under_ret under_guarded hcall_holding validate under_fetch running_holding safe_under [OF arming]
        simp: guarded_calls_def)
qed

lemma commit_under: "under I s (commit m s)"
proof -
  have promote: "ensures (holding I s1) (hcall ''Promote'' s1 f) (\<lambda>_. True)" if "h_State s1 = ''committing''" for s1 f
    unfolding hcall_def by (rule syscall_holding [OF promote_call]) (use that in \<open>auto simp: holding_def host_in_def\<close>)
  have committed: "safe I (seq (host_save s1 ''committed'') (\<lambda>(err, s2). case err of Some e \<Rightarrow> ret (Some e, s2) | None \<Rightarrow> finishCommit m s2))" for s1
    by (intro save_then safe_ret finishCommit_under)
  have committing: "safe I (seq (host_save s ''committing'') (\<lambda>(err, s1). case err of Some e \<Rightarrow> ret (Some e, s1)
      | None \<Rightarrow> guarded (hcall ''Promote'' s1 (hb_Promote (hm_Backend m) s1)) (\<lambda>e. ret (Some e, s1))
        (seq (host_save s1 ''committed'') (\<lambda>(err, s2). case err of Some e \<Rightarrow> ret (Some e, s2) | None \<Rightarrow> finishCommit m s2))))"
    by (intro save_then safe_ret under_guarded promote under_ret safe_under [OF committed])
  show ?thesis
    unfolding commit_def
    by (auto intro!: under_ret finishCommit_under under_fetch running_holding under_guarded hcall_holding safe_under [OF committing]
        simp: guarded_calls_def)
qed

lemma trialStop_holding: "hm_TrialStop m = Some f \<Longrightarrow> ensures (holding I s) (f opid) (\<lambda>_. True)"
  using callback_law [of f opid s] by auto

lemma reboot_recovering: "h_State s = ''recovering'' \<Longrightarrow> ensures (holding I s) (hcall ''Reboot'' s f) (\<lambda>_. True)"
  unfolding hcall_def by (rule syscall_holding [OF reboot_call]) (auto simp: holding_def host_in_def)

lemma rollback_action_under: "under I s (rollback_action m s)"
proof -
  have rec: "safe I (seq (host_save s ''recovering'') (\<lambda>(err, s1). case err of Some e \<Rightarrow> ret (Some e, s1)
      | None \<Rightarrow> guarded (hcall ''Clear'' s1 (hb_Clear (hm_Backend m))) (\<lambda>e. ret (Some e, s1))
        (guarded (f (h_OperationID s1)) (\<lambda>e. ret (Some e, s1))
        (guarded (hcall ''RestoreBoot'' s1 (hb_RestoreBoot (hm_Backend m) s1)) (\<lambda>e. ret (Some e, s1))
        (seq (hcall ''Reboot'' s1 (hb_Reboot (hm_Backend m))) (\<lambda>e. ret (e, s1)))))))"
    if "hm_TrialStop m = Some f" for f
    by (intro save_then safe_ret under_guarded under_ret trialStop_holding that hcall_holding under_seq [OF reboot_recovering])
       (auto simp: guarded_calls_def)
  show ?thesis
    unfolding rollback_action_def
    by (auto split: option.splits intro!: under_ret under_guarded hcall_holding safe_under [OF host_save_safe] safe_under [OF rec]
        simp: guarded_calls_def)
qed

lemma cleanup_action_under: "under I s (cleanup_action m s)"
  unfolding cleanup_action_def by (auto intro!: under_ret safe_under safe_seq [OF host_cleanup_safe])

text \<open>Reading the journal and going on from what it says.\<close>

lemma status_then:
  assumes "\<And>s. under I s (k s)" "\<And>e. safe I (bad e)" "safe I (k host_idle)"
  shows "safe I (fetch host_Status bad k)"
  unfolding safe_def fetch_def host_Status_def
proof (rule triple_seq [OF triple_get [where Q = "\<lambda>r w. I w \<and> (\<forall>s. r = Inr s \<longrightarrow> host_json w = Present s \<or> s = host_idle)"]])
  fix r
  show "triple I (\<lambda>w. I w \<and> (\<forall>s. r = Inr s \<longrightarrow> host_json w = Present s \<or> s = host_idle)) (case r of Inl e \<Rightarrow> bad e | Inr x \<Rightarrow> k x) (\<lambda>_. I)"
  proof (cases r)
    case (Inl e)
    then show ?thesis using assms(2) [of e] by (auto simp: safe_def elim!: triple_weaken)
  next
    case (Inr s)
    then show ?thesis
    proof (cases "s = host_idle")
      case True
      then show ?thesis using assms(3) Inr by (auto simp: safe_def elim!: triple_weaken)
    next
      case False
      then show ?thesis using assms(1) [of s] Inr by (auto simp: under_def holding_def elim!: triple_weaken)
    qed
  qed
qed (auto split: doc.splits)

lemma actionLocked_safe: "safe I (actionLocked m r action)"
  unfolding actionLocked_def
proof (rule status_then)
  show "under I s (if \<not> operationID (rq_OperationID r) \<or> rq_OperationID r \<noteq> h_OperationID s then ret (Some ''unknown operation'', s)
     else if action = ''activate'' then activate m s
     else if action = ''commit'' then commit m s
     else if action = ''rollback'' then rollback_action m s
     else if action = ''cleanup'' then cleanup_action m s
     else ret (Some ''unknown host update action'', s))" for s
    by (intro under_if under_ret activate_under commit_under rollback_action_under cleanup_action_under)
  have c: "(\<not> operationID (rq_OperationID r) \<or> rq_OperationID r \<noteq> h_OperationID host_idle) = True"
    by (auto simp: host_idle_def zero_host_def)
  show "safe I (if \<not> operationID (rq_OperationID r) \<or> rq_OperationID r \<noteq> h_OperationID host_idle then ret (Some ''unknown operation'', host_idle)
     else if action = ''activate'' then activate m host_idle
     else if action = ''commit'' then commit m host_idle
     else if action = ''rollback'' then rollback_action m host_idle
     else if action = ''cleanup'' then cleanup_action m host_idle
     else ret (Some ''unknown host update action'', host_idle))"
    unfolding c if_True by (rule safe_ret)
qed auto

lemma host_action_safe: "safe I (host_action m r action)"
  unfolding host_action_def Acquire_def by (intro safe_guarded safe_get safe_ret actionLocked_safe)

lemma plain_reads: "safe I Acquire" "safe I Now" "safe I management_pending"
  by (auto simp: Acquire_def Now_def management_pending_def intro: safe_get)

lemma write_host_safe: "safe I (write_host s)"
  unfolding write_host_def by (rule write_file_safe) (auto intro: host_write)

lemma submit_job_safe: "safe I (submit_job m r action)"
  unfolding submit_job_def Let_def
  by (rule safe_seq [OF actionLocked_safe]) (auto intro!: safe_seq [OF plain_reads(2)] safe_seq [OF write_host_safe])

lemma safe_option: "(x = None \<Longrightarrow> safe I p) \<Longrightarrow> (\<And>y. x = Some y \<Longrightarrow> safe I (f y)) \<Longrightarrow> safe I (case x of None \<Rightarrow> p | Some y \<Rightarrow> f y)"
  by (simp split: option.splits)

lemma Submit_safe: "safe I (Submit m sha256 r action)"
proof -
  have body: "safe I (if h_OperationID s \<noteq> rq_OperationID r then ret (Some ''unknown operation'', s)
        else seq (get (\<lambda>w. map_of (host_actions w) (sha256 (rq_IdempotencyKey r)))) (\<lambda>previous. case previous of
          Some (prequest, paction) \<Rightarrow>
            if rq_OperationID prequest \<noteq> rq_OperationID r \<or> paction \<noteq> action then ret (Some ''idempotency key already used'', s)
            else ret (None, s)
        | None \<Rightarrow> (case action_refused action s of Some e \<Rightarrow> ret (Some e, s)
          | None \<Rightarrow> guarded (WriteFile (\<lambda>w. w\<lparr>host_actions := AList.update (sha256 (rq_IdempotencyKey r)) (r, action) (host_actions w)\<rparr>))
              (\<lambda>e. ret (Some e, s))
            (seq Now (\<lambda>now. let s1 = s\<lparr>h_Phase := action @ ''_requested'', h_UpdatedAt := now\<rparr> in
               guarded (write_host s1) (\<lambda>e. ret (Some e, s1)) (seq (submit_job m r action) (\<lambda>_. ret (None, s1))))))))" for s
    unfolding Let_def
    by (intro safe_if safe_ret safe_seq [OF safe_get] safe_option safe_guarded write_file_safe file_writes safe_seq [OF plain_reads(2)]
        write_host_safe safe_seq [OF submit_job_safe]) auto
  show ?thesis unfolding Submit_def
    by (intro safe_if safe_ret safe_guarded plain_reads status_then safe_under [OF body] body)
qed

lemma stage_job_safe: "safe I (stage_job m r s)"
proof -
  have pre: "safe I (if e = None \<and> \<not> rq_SkipDryRun r
          then (case hm_PreflightCheckpoint m of None \<Rightarrow> ret None | Some f \<Rightarrow> f (rq_OperationID r)) else ret e)" for e
    by (intro safe_if safe_option safe_ret) (rule callback_safe, simp)
  show ?thesis unfolding stage_job_def Let_def
    by (rule safe_seq [OF plain_safe])
       (auto intro!: safe_seq [OF pre] safe_option safe_seq [OF host_save_safe] simp: guarded_calls_def)
qed

lemma Prepare_safe: "safe I (Prepare m parseRelease r)"
proof -
  have start: "safe I (guarded management_pending (\<lambda>e. ret (Some e, s))
         (guarded (if h_OperationID s \<noteq> []
                   then WriteFile (\<lambda>w. w\<lparr>host_history := AList.update (h_OperationID s) s (host_history w)\<rparr>) else ret None)
            (\<lambda>e. ret (Some e, s))
         (seq Now (\<lambda>now. seq (get (\<lambda>w. hb_watchdog (hm_Backend m) (system w))) (\<lambda>watchdog.
            let s0 = zero_host\<lparr>h_OperationID := rq_OperationID r, h_Actor := rq_Actor r, h_TargetRelease := rq_Release r,
                  h_Upstream := rq_Upstream r, h_SkipDryRun := rq_SkipDryRun r, h_StartedAt := now, h_Watchdog := watchdog\<rparr>
            in seq (host_save s0 ''staging'') (\<lambda>(err, s1). case err of Some e \<Rightarrow> ret (Some e, s1)
               | None \<Rightarrow> seq (stage_job m r s1) (\<lambda>_. ret (None, s1))))))))" for s
    unfolding Let_def
    by (intro safe_guarded plain_reads safe_if write_file_safe file_writes safe_ret safe_seq [OF plain_reads(2)] safe_seq [OF safe_get]
        save_then safe_under safe_seq [OF stage_job_safe]) auto
  show ?thesis unfolding Prepare_def
    by (intro safe_option safe_ret safe_guarded plain_reads status_then safe_under safe_if start)
qed

lemma recover_trial_under: "under I s (recover_trial m s)"
proof -
  have promote: "ensures (holding I s) (hcall ''Promote'' s f) (\<lambda>_. True)" if "h_State s = ''committing''" for f
    unfolding hcall_def by (rule syscall_holding [OF promote_call]) (use that in \<open>auto simp: holding_def host_in_def\<close>)
  have fin: "under I s1 (seq (finishCommit m s1) (\<lambda>(e, _). ret e))" if "h_State s1 = ''committed''" for s1
    using finishCommit_under [OF that] unfolding under_def by (rule triple_seq) auto
  have committed: "safe I (seq (host_save s ''committed'') (\<lambda>(err, s1). case err of Some e \<Rightarrow> ret (Some e)
         | None \<Rightarrow> seq (finishCommit m s1) (\<lambda>(e, _). ret e)))"
    by (intro save_then safe_ret fin)
  have trial: "ensures (holding I s) (call_or msg (hm_TrialStart m) v) (\<lambda>_. True)" for msg v
    by (rule call_or_holding) (use callback_law in auto)
  have saved: "under I s (seq (host_save s ''trial'') (\<lambda>(e, _). ret e))"
    by (rule safe_under, rule safe_seq [OF host_save_safe]) auto
  show ?thesis unfolding recover_trial_def
    by (auto intro!: under_guarded promote under_ret safe_under [OF committed] trial saved)
qed

lemma recover_leave_trial_under: "h_State s = ''recovering'' \<Longrightarrow> under I s (recover_leave_trial m s)"
proof -
  assume s: "h_State s = ''recovering''"
  have reboot: "under I s (hcall ''Reboot'' s f)" for f
    unfolding under_def by (rule triple_weaken [OF holding_triple [OF reboot_recovering [OF s]]]) (auto simp: holding_def)
  show ?thesis unfolding recover_leave_trial_def
    by (intro under_guarded call_or_holding trialStop_holding hcall_holding under_ret reboot) (simp_all add: guarded_calls_def)
qed

lemma recover_pending_under: "under I s (recover_pending m s)"
  unfolding recover_pending_def Let_def
  by (rule under_fetch [OF running_holding], rule under_ret, clarify,
      intro under_if under_ret recover_leave_trial_under recover_trial_under safe_under safe_seq [OF restore_safe])
     auto

lemma host_Recover_safe: "safe I (host_Recover m)"
proof -
  have fin: "under I s (seq (finishCommit m s) (\<lambda>(e, _). ret e))" if "h_State s = ''committed''" for s
    using finishCommit_under [OF that] unfolding under_def by (rule triple_seq) auto
  have act: "under I s (seq (actionLocked m r a) (\<lambda>(e, _). ret e))" for s r a
    by (rule safe_under, rule safe_seq [OF actionLocked_safe]) auto
  have failed: "under I s (seq (host_save s' st) (\<lambda>(e, _). ret e))" for s s' st
    by (rule safe_under, rule safe_seq [OF host_save_safe]) auto
  have idle: "\<not> ends_with ''_requested'' (h_Phase host_idle)" "host_terminal (h_State host_idle)" "h_State host_idle \<noteq> ''committed''"
    by (simp_all add: host_idle_def ends_with_def host_terminal_def)
  show ?thesis unfolding host_Recover_def
  proof (intro safe_guarded plain_reads status_then safe_ret, goal_cases)
    case (1 s)
    show ?case by (intro under_if under_ret fin act failed recover_pending_under) auto
  next
    case 2
    show ?case using idle by (simp only: if_False if_True simp_thms) (rule safe_ret)
  qed
qed

lemma WriteGuardMessage_safe: "safe I (WriteGuardMessage opid st)"
  unfolding WriteGuardMessage_def
  by (intro safe_if safe_ret safe_seq [OF plain_reads(2)] write_file_safe file_writes) auto

lemma mark_ready_safe: "safe I mark_ready"
proof -
  have "safe I (if h_State s = ''trial'' \<or> h_State s = ''ready'' then seq (host_save s ''ready'') (\<lambda>(e, _). ret e) else ret None)" for s
    by (auto intro!: safe_seq [OF host_save_safe])
  then show ?thesis unfolding mark_ready_def by (intro status_then safe_under safe_ret)
qed

lemma supervise_tick_safe: "safe I (supervise_tick m opid now since)"
proof -
  have ready: "safe I (case hm_TrialReady m of None \<Rightarrow> ret None | Some f \<Rightarrow> f opid)"
    by (intro safe_option safe_ret) (rule callback_safe, simp)
  have health: "safe I (syscall ''Health'' opid id f)" for f
    by (rule plain_safe) (simp add: guarded_calls_def)
  have "safe I (if h_State current = ''committed''
     then if h_CommitFinalized current then seq (WriteGuardMessage opid ''committed'') (\<lambda>e. ret (Return e)) else ret (Continue since)
     else if h_State current = ''recovering'' then ret (Return None)
     else guarded (syscall ''Health'' opid id (hb_Health (hm_Backend m))) (\<lambda>_. ret (Continue None))
       (let since = (case since of None \<Rightarrow> now | Some t \<Rightarrow> t) in
        if h_State current \<noteq> ''ready'' \<and> now - since < minute then ret (Continue (Some since))
        else
          let finish = guarded (case hm_TrialReady m of None \<Rightarrow> ret None | Some f \<Rightarrow> f opid) (\<lambda>e. ret (Return (Some e)))
                (guarded (WriteGuardMessage opid ''ready'') (\<lambda>e. ret (Return (Some e))) (ret (Continue (Some since))))
          in if h_State current \<noteq> ''ready''
             then guarded Acquire (\<lambda>_. ret (Continue (Some since))) (guarded mark_ready (\<lambda>e. ret (Return (Some e))) finish)
             else finish))" for current
    unfolding Let_def
    by (intro safe_if safe_ret safe_seq [OF WriteGuardMessage_safe] safe_guarded health ready WriteGuardMessage_safe mark_ready_safe plain_reads)
  then show ?thesis unfolding supervise_tick_def by (intro status_then safe_under safe_ret)
qed

end
section \<open>What the management side keeps\<close>

text \<open>Invariants under which the checkpoint operations of the management updater are harmless.\<close>

locale checkpoint_invariant =
  fixes J :: "'b world \<Rightarrow> bool" and B :: "'b mgmt_backend"
  assumes power_passes: "spared J"
    and checkpoint_write: "J w \<Longrightarrow> J (w\<lparr>mgmt_os := d\<rparr>)"
    and checkpoint_call: "name \<notin> guarded_calls \<Longrightarrow> callable J (\<lambda>_. True) name opid"
    and frame: "J w \<Longrightarrow> backend_frame B"
begin

lemma sys_keeps: "callable J (\<lambda>_. True) name opid \<Longrightarrow> ensures J (syscall name opid errOf f) (\<lambda>_. True)"
  unfolding ensures_def
  by (rule triple_weaken [OF triple_syscall [OF power_passes, where R = "\<lambda>_. True"]]) auto

lemma os_keeps: "name \<notin> guarded_calls \<Longrightarrow> ensures J (bcall name f s) (\<lambda>_. True)"
  unfolding bcall_def by (rule sys_keeps [OF checkpoint_call])

lemma ecall_keeps: "name \<notin> guarded_calls \<Longrightarrow> ensures J (ecall name opid f) (\<lambda>_. True)"
  unfolding ecall_def by (rule sys_keeps [OF checkpoint_call])

lemma os_write_keeps: "ensures J (write_os opid s) (\<lambda>_. True)"
  unfolding ensures_def write_os_def
  by (rule triple_weaken [OF triple_WriteFile [OF power_passes, where Q = "\<lambda>_. True"]])
     (auto intro: checkpoint_write simp: spared_def)

lemma checkpoint_keeps: "ensures J (checkpoint opid) (\<lambda>_. True)"
  unfolding checkpoint_def by (auto intro!: ensures_ret ensures_get)

lemmas keeps_rules = ensures_fetch [OF checkpoint_keeps] ensures_ret ensures_option ensures_guarded [OF os_write_keeps]
  ensures_guarded [OF ecall_keeps] ensures_pair [where R = "\<lambda>_ _. True"]

lemma StartCheckpointTrial_keeps: "ensures J (StartCheckpointTrial B opid) (\<lambda>_. True)"
  unfolding StartCheckpointTrial_def
  by (intro keeps_rules ensures_sum ecall_keeps) (auto simp: guarded_calls_def)

lemma ActivateCheckpointControllers_keeps: "ensures J (ActivateCheckpointControllers B opid) (\<lambda>_. True)"
  unfolding ActivateCheckpointControllers_def by (intro keeps_rules ecall_keeps) (auto simp: guarded_calls_def)

lemma os_keeps_pair: "name \<notin> guarded_calls \<Longrightarrow> ensures J (bcall name f s) (\<lambda>(_, _). True)"
  by (rule ensures_weaken [OF os_keeps]) auto

lemma StopCheckpoint_keeps: "ensures J (StopCheckpoint B opid) (\<lambda>_. True)"
  unfolding StopCheckpoint_def by (intro keeps_rules os_keeps_pair) (auto simp: guarded_calls_def)

lemma CleanupCheckpoint_keeps: "ensures J (CleanupCheckpoint B opid) (\<lambda>_. True)"
proof -
  have "ensures J (WriteFile (\<lambda>w. w\<lparr>mgmt_os := (mgmt_os w)(opid := Missing)\<rparr>)) (\<lambda>_. True)"
    unfolding ensures_def
    by (rule triple_weaken [OF triple_WriteFile [OF power_passes, where Q = "\<lambda>_. True"]])
       (auto intro: checkpoint_write simp: spared_def)
  then show ?thesis unfolding CleanupCheckpoint_def
    by (intro ensures_seq [OF ensures_get [where R = "\<lambda>_. True"]] ensures_if keeps_rules os_keeps_pair) (auto simp: guarded_calls_def)
qed

lemma ValidateCheckpointHost_keeps: "ensures J (ValidateCheckpointHost B version) (\<lambda>_. True)"
  unfolding ValidateCheckpointHost_def
  by (intro ensures_seq [OF sys_keeps [OF checkpoint_call]] ensures_sum ensures_ret) (auto simp: guarded_calls_def)

lemma PreflightCheckpoint_keeps: "ensures J (PreflightCheckpoint B opid) (\<lambda>_. True)"
  unfolding PreflightCheckpoint_def
  by (intro ensures_if ensures_sum keeps_rules os_keeps_pair) (auto simp: guarded_calls_def)

lemma ReleaseCheckpoint_keeps:
  assumes "\<And>opid. callable J (\<lambda>_. True) ''os.Authorize'' opid"
  shows "ensures J (ReleaseCheckpoint B opid) (\<lambda>_. True)"
proof -
  have "ensures J (bcall ''os.Authorize'' f s) (\<lambda>(_, _). True)" for f s
    unfolding bcall_def by (rule ensures_weaken [OF sys_keeps [OF assms]]) auto
  then show ?thesis unfolding ReleaseCheckpoint_def Let_def by (intro keeps_rules) auto
qed

lemma RestoreCheckpoint_keeps:
  assumes "\<And>opid. callable J (\<lambda>_. True) ''os.Authorize'' opid" "\<And>opid. callable J (\<lambda>_. True) ''os.Restore'' opid"
  shows "ensures J (RestoreCheckpoint B opid) (\<lambda>_. True)"
proof -
  have calls: "ensures J (bcall ''os.Authorize'' f s) (\<lambda>(_, _). True)" "ensures J (bcall ''os.Restore'' f s) (\<lambda>(_, _). True)" for f s
    unfolding bcall_def by (rule ensures_weaken [OF sys_keeps [OF assms(1)]], simp) (rule ensures_weaken [OF sys_keeps [OF assms(2)]], simp)
  have health: "ensures J (bcall ''os.Healthy'' f s) (\<lambda>(_, _). True)" for f s
    by (rule os_keeps_pair) (simp add: guarded_calls_def)
  show ?thesis unfolding RestoreCheckpoint_def Let_def
    by (intro keeps_rules calls health) auto
qed

text \<open>A checkpoint that was taken is complete on disk.\<close>

lemma write_os_writes: "triple J J (write_os opid s) (\<lambda>e w. J w \<and> (e = None \<longrightarrow> mgmt_os w opid = Present s))"
  unfolding write_os_def
  by (rule triple_WriteFile [OF power_passes]) (auto intro: checkpoint_write simp: spared_def)

lemma os_snapshot: "ensures J (bcall ''os.Snapshot'' (mb_Snapshot B) s) (\<lambda>(e, s'). s_Snapshot s' = s_Snapshot s)"
proof (rule ensures_pre, erule exE)
  fix w
  assume "J w"
  then have k: "keeps_control (mb_Snapshot B)" using frame by (auto intro: backend_frameD)
  have c: "callable J (\<lambda>_. True) ''os.Snapshot'' (s_OperationID s)" by (rule checkpoint_call) (simp add: guarded_calls_def)
  show ?thesis unfolding ensures_def
    by (rule triple_weaken [OF triple_bcall [OF power_passes c k]]) (auto simp: control_def)
qed

lemma Checkpoint_ready: "triple J J (Checkpoint B opid) (\<lambda>e w. J w \<and> (e = None \<longrightarrow> ready opid w))"
proof -
  let ?Q = "\<lambda>e w. J w \<and> (e = None \<longrightarrow> ready opid w)"
  have bind: "triple J J (seq m f) ?Q" if "ensures J m R" "\<And>x. R x \<Longrightarrow> triple J J (f x) ?Q"
    for m :: "('b world, 'x) prog" and f R
    by (rule triple_seq [OF that(1) [unfolded ensures_def]]) (use that(2) in \<open>auto simp: triple_def\<close>)
  have err: "triple J J (ret (Some e)) ?Q" for e by auto
  have last: "triple J J (write_os opid (s4\<lparr>s_ProductionChanged := True, s_Phase := ''checkpoint_ready''\<rparr>)) ?Q"
    if "s_Snapshot s4 = snapshot_name opid" for s4
    by (rule triple_weaken [OF write_os_writes]) (use that in \<open>auto simp: ready_def\<close>)
  have snap: "triple J J (seq (bcall ''os.Snapshot'' (mb_Snapshot B) s3) (\<lambda>(err, s4). case err of Some e \<Rightarrow> ret (Some e)
           | None \<Rightarrow> write_os opid (s4\<lparr>s_ProductionChanged := True, s_Phase := ''checkpoint_ready''\<rparr>))) ?Q"
    if "s_Snapshot s3 = snapshot_name opid" for s3
    by (rule bind [OF os_snapshot]) (use that err last in \<open>auto split: option.splits\<close>)
  have guard: "triple J J (guarded (write_os opid s) (\<lambda>e. ret (Some e)) k) ?Q" if "triple J J k ?Q" for s k
    unfolding guarded_def by (rule bind [OF os_write_keeps]) (use that err in \<open>auto split: option.splits\<close>)
  have fence: "triple J J (seq (bcall ''os.Fence'' (mb_Fence B) s1) (\<lambda>(err, s2). case err of Some e \<Rightarrow> ret (Some e)
         | None \<Rightarrow> let s3 = s2\<lparr>s_Snapshot := snapshot_name opid\<rparr> in
           guarded (write_os opid s3) (\<lambda>e. ret (Some e))
           (seq (bcall ''os.Snapshot'' (mb_Snapshot B) s3) (\<lambda>(err, s4). case err of Some e \<Rightarrow> ret (Some e)
           | None \<Rightarrow> write_os opid (s4\<lparr>s_ProductionChanged := True, s_Phase := ''checkpoint_ready''\<rparr>))))) ?Q" for s1
    by (rule bind [OF os_keeps]) (use err guard snap in \<open>auto simp: Let_def guarded_calls_def split: option.splits\<close>)
  show ?thesis unfolding Checkpoint_def
    by (rule triple_if, rule err, rule bind [OF os_keeps])
       (use err guard fence in \<open>auto simp: guarded_calls_def split: option.splits\<close>)
qed

end

section \<open>What is journalled before the host changes\<close>

definition host_event_ok :: "event \<Rightarrow> bool" where
  "host_event_ok e \<longleftrightarrow>
     (ev_Call e = ''Arm'' \<longrightarrow> (\<exists>s. ev_Host e = Present s \<and> h_OperationID s = ev_Op e \<and> h_State s = ''arming'') \<and>
        (\<exists>c. ev_Checkpoint e = Present c \<and> s_Phase c = ''checkpoint_ready'' \<and> s_ProductionChanged c \<and> s_Snapshot c = snapshot_name (ev_Op e))) \<and>
     (ev_Call e = ''Reboot'' \<longrightarrow> (\<exists>s. ev_Host e = Present s \<and> h_OperationID s = ev_Op e \<and> h_State s \<in> {''armed'', ''recovering''})) \<and>
     (ev_Call e = ''Promote'' \<longrightarrow> (\<exists>s. ev_Host e = Present s \<and> h_OperationID s = ev_Op e \<and> h_State s = ''committing'')) \<and>
     (ev_Call e = ''FinalizeCommit'' \<longrightarrow> (\<exists>s. ev_Host e = Present s \<and> h_OperationID s = ev_Op e \<and> h_State s = ''committed'')) \<and>
     (ev_Call e = ''os.Restore'' \<longrightarrow> (\<exists>s. ev_Host e = Present s \<and> h_State s = ''recovering'')) \<and>
     (ev_Call e = ''os.Authorize'' \<longrightarrow> (\<exists>s. ev_Host e = Present s \<and> h_State s \<in> {''recovering'', ''committed''}))"

definition host_inv :: "'b mgmt_backend \<Rightarrow> 'b world \<Rightarrow> bool" where
  "host_inv B w \<longleftrightarrow> backend_frame B \<and> list_all host_event_ok (trace w)"

lemma host_inv_plain: "name \<notin> guarded_calls \<Longrightarrow> callable (host_inv B) (\<lambda>_. True) name opid"
  by (auto simp: callable_def host_inv_def host_event_ok_def guarded_calls_def)

interpretation os_free: checkpoint_invariant "host_inv B" B for B :: "'b mgmt_backend"
  by unfold_locales (auto simp: spared_def host_inv_def intro: host_inv_plain)

interpretation os_held: checkpoint_invariant "holding (host_inv B) s" B for B :: "'b mgmt_backend" and s
proof (unfold_locales, goal_cases)
  case (3 name opid)
  then show ?case using host_inv_plain [of name B opid] by (auto simp: callable_def holding_def)
qed (auto simp: spared_def host_inv_def holding_def)

lemma held_restore: "h_State s = ''recovering'' \<Longrightarrow> callable (holding (host_inv B) s) (\<lambda>_. True) ''os.Restore'' opid"
  by (auto simp: callable_def holding_def host_inv_def host_event_ok_def)

lemma held_authorize: "h_State s \<in> {''recovering'', ''committed''} \<Longrightarrow> callable (holding (host_inv B) s) (\<lambda>_. True) ''os.Authorize'' opid"
  by (auto simp: callable_def holding_def host_inv_def host_event_ok_def)

interpretation coordinated: host_invariant "host_inv B" "NewHostUpdateCoordinator H B"
  for B :: "'b mgmt_backend" and H
proof (unfold_locales, goal_cases)
  case (7 name opid)
  then show ?case by (rule host_inv_plain)
next
  case (12 f s opid)
  then show ?case using os_held.Checkpoint_ready by (auto simp: NewHostUpdateCoordinator_def)
next
  case (13 f s opid)
  then show ?case by (auto simp: NewHostUpdateCoordinator_def intro!: os_held.RestoreCheckpoint_keeps held_authorize held_restore)
next
  case (14 f s opid)
  then show ?case by (auto simp: NewHostUpdateCoordinator_def intro!: os_held.ReleaseCheckpoint_keeps held_authorize)
next
  case (15 f opid s)
  then show ?case
    by (auto simp: NewHostUpdateCoordinator_def intro: os_held.StartCheckpointTrial_keeps os_held.ActivateCheckpointControllers_keeps
        os_held.StopCheckpoint_keeps os_held.CleanupCheckpoint_keeps os_held.ValidateCheckpointHost_keeps os_held.PreflightCheckpoint_keeps
        os_free.StartCheckpointTrial_keeps os_free.ActivateCheckpointControllers_keeps
        os_free.StopCheckpoint_keeps os_free.CleanupCheckpoint_keeps os_free.ValidateCheckpointHost_keeps os_free.PreflightCheckpoint_keeps)
qed (auto simp: spared_def callable_def host_inv_def host_event_ok_def host_in_def ready_def)

section \<open>Operations and their invariant\<close>

datatype host_op = HPrepare request | HAction request string | HSubmit request string | HRecover | HSupervise string int "int option"

text \<open>\<open>parse\<close> and \<open>sha\<close> are the release parser and SHA-256.\<close>

fun host_step :: "'b host_manager \<Rightarrow> (string \<Rightarrow> error) \<Rightarrow> (string \<Rightarrow> string) \<Rightarrow> env \<times> host_op \<Rightarrow> 'b world \<Rightarrow> 'b world" where
  "host_step m parse sha (env, HPrepare r) w = snd (Prepare m parse r (boot env w))"
| "host_step m parse sha (env, HAction r action) w = snd (host_action m r action (boot env w))"
| "host_step m parse sha (env, HSubmit r action) w = snd (Submit m sha r action (boot env w))"
| "host_step m parse sha (env, HRecover) w = snd (host_Recover m (boot env w))"
| "host_step m parse sha (env, HSupervise opid now since) w = snd (supervise_tick m opid now since (boot env w))"

lemma safe_snd: "safe I m \<Longrightarrow> I w \<Longrightarrow> I (snd (m w))"
  unfolding safe_def by (rule triple_snd)

lemma host_step_safe:
  assumes "\<And>env w. I w \<Longrightarrow> I (boot env w)" "\<And>r. safe I (Prepare m parse r)" "\<And>r a. safe I (host_action m r a)"
    "\<And>r a. safe I (Submit m sha r a)" "safe I (host_Recover m)" "\<And>i n s. safe I (supervise_tick m i n s)"
  shows "I w \<Longrightarrow> I (host_step m parse sha eo w)"
proof -
  assume "I w"
  obtain env opn where eo: "eo = (env, opn)" by (cases eo)
  have b: "I (boot env w)" by (rule assms(1)) fact
  show ?thesis unfolding eo
    by (cases opn; simp only: host_step.simps; rule safe_snd [of I, OF _ b]; rule assms)
qed

lemma coordinated_step: "host_inv B w \<Longrightarrow> host_inv B (host_step (NewHostUpdateCoordinator H B) parse sha eo w)"
proof (rule host_step_safe)
  show "host_inv B w \<Longrightarrow> host_inv B (boot env w)" for env w by (simp add: host_inv_def)
qed (rule coordinated.Prepare_safe coordinated.host_action_safe coordinated.Submit_safe coordinated.host_Recover_safe
      coordinated.supervise_tick_safe | assumption)+

interpretation host: machine "host_step (NewHostUpdateCoordinator H B) parse sha" "host_inv B"
  for H and B :: "'b mgmt_backend" and parse sha
  by unfold_locales (rule coordinated_step)

text \<open>
  C5. Host updates are write-ahead. Under any operations, failures and power losses: the trial boot
  is armed only with \<open>arming\<close> on disk and a complete management checkpoint; the machine is rebooted
  only when the journal says \<open>armed\<close> or \<open>recovering\<close>; a release is promoted only in \<open>committing\<close> and
  finalized only in \<open>committed\<close>; the management stack is restored only while recovering and
  restarted only while recovering or after the commit.\<close>

theorem host_changes_are_journalled:
  assumes "backend_frame B" "trace w = []"
  shows "list_all host_event_ok (trace (runs (host_step (NewHostUpdateCoordinator H B) parse sha) ops w))"
  using host.runs_inv [of B w H parse sha ops] assms by (simp add: host_inv_def)

section \<open>A checkpoint that was never written\<close>

text \<open>
  An activation that failed, or lost power, after \<open>arming\<close> was saved and before the management
  updater wrote its checkpoint file.
\<close>

definition stranded_status :: "string \<Rightarrow> host_status \<Rightarrow> bool" where
  "stranded_status opid s \<longleftrightarrow> h_OperationID s = opid \<and> h_State s \<in> {''arming'', ''recovering''} \<and>
     h_Phase s \<in> {''arming'', ''recovering'', ''rollback_requested''}"

definition stranded :: "string \<Rightarrow> 'b world \<Rightarrow> bool" where
  "stranded opid w \<longleftrightarrow> (\<exists>s. host_json w = Present s \<and> stranded_status opid s) \<and> mgmt_os w opid = Missing \<and> opid \<noteq> []"

lemma stranded_spared: "spared (stranded opid)"
  by (auto simp: spared_def stranded_def)

lemma stranded_call: "ensures (stranded opid) (syscall name i errOf f) (\<lambda>_. True)"
  unfolding ensures_def
  by (rule triple_weaken [OF triple_syscall [OF stranded_spared, where P = "\<lambda>_. True" and R = "\<lambda>_. True"]])
     (auto simp: callable_def stranded_def)

lemma stranded_hcall: "ensures (stranded opid) (hcall name s f) (\<lambda>_. True)"
  unfolding hcall_def by (rule stranded_call)

lemma stranded_write:
  assumes "\<And>w. stranded opid w \<Longrightarrow> stranded opid (upd w)" "\<And>w n. upd (w\<lparr>power := n\<rparr>) = (upd w)\<lparr>power := n\<rparr>"
  shows "ensures (stranded opid) (WriteFile upd) (\<lambda>_. True)"
  unfolding ensures_def
  by (rule triple_weaken [OF triple_WriteFile [OF stranded_spared, where Q = "\<lambda>_. True"]]) (use assms in \<open>auto simp: spared_def\<close>)

lemma stranded_save:
  assumes "stranded_status opid (s\<lparr>h_State := st, h_Phase := st\<rparr>)"
  shows "ensures (stranded opid) (host_save s st) (\<lambda>(e, s'). stranded_status opid s')"
  unfolding ensures_def triple_def host_save_def write_host_def Let_def wp_seq wp_Now option.case
  by (intro allI impI, rule wp_WriteFileI) (use assms in \<open>auto simp: wp_ret stranded_def stranded_status_def\<close>)

lemma stranded_checkpoint: "ensures (stranded opid) (checkpoint opid) (\<lambda>r. \<exists>e. r = Inl e)"
  unfolding checkpoint_def by (auto intro!: ensures_get ensures_ret simp: stranded_def)

lemma stranded_status_read: "ensures (stranded opid) host_Status (\<lambda>r. \<exists>s. r = Inr s \<and> stranded_status opid s)"
  unfolding host_Status_def by (rule ensures_get) (auto simp: stranded_def)

lemma stranded_fetch:
  "(\<And>s. stranded_status opid s \<Longrightarrow> ensures (stranded opid) (k s) S) \<Longrightarrow> ensures (stranded opid) (fetch host_Status h k) S"
  unfolding fetch_def by (rule ensures_seq [OF stranded_status_read]) (elim exE conjE, simp only: sum.case)

lemma stranded_callbacks:
  "ensures (stranded opid) (RestoreCheckpoint B opid) (\<lambda>e. e \<noteq> None)"
  "ensures (stranded opid) (StartCheckpointTrial B opid) (\<lambda>e. e \<noteq> None)"
  "ensures (stranded opid) (StopCheckpoint B opid) (\<lambda>e. e \<noteq> None)"
  "ensures (stranded opid) (ActivateCheckpointControllers B opid) (\<lambda>e. e \<noteq> None)"
  unfolding RestoreCheckpoint_def StartCheckpointTrial_def StopCheckpoint_def ActivateCheckpointControllers_def
  by (rule ensures_fetch [OF stranded_checkpoint], auto intro: ensures_ret)+

text \<open>Programs that can only fail.\<close>

lemma fails_guarded:
  "ensures I p (\<lambda>_. True) \<Longrightarrow> (\<And>e. ensures I (h e) (\<lambda>r. fst r \<noteq> None)) \<Longrightarrow> ensures I k (\<lambda>r. fst r \<noteq> None) \<Longrightarrow>
     ensures I (guarded p h k) (\<lambda>r. fst r \<noteq> (None :: error))"
  by (rule ensures_guarded)

lemma stranded_rollback_error:
  assumes "stranded_status opid s"
  shows "ensures (stranded opid) (rollback_error e s) (\<lambda>r. fst r \<noteq> None)"
  unfolding rollback_error_def
  by (rule ensures_pair [OF stranded_save]) (use assms in \<open>auto simp: stranded_status_def intro: ensures_ret\<close>)

lemma stranded_restore:
  assumes "stranded_status opid s"
  shows "ensures (stranded opid) (restore (NewHostUpdateCoordinator H B) s cause) (\<lambda>r. fst r \<noteq> None)"
proof -
  let ?m = "NewHostUpdateCoordinator H B"
  have rc: "hm_RestoreCheckpoint ?m = Some (RestoreCheckpoint B)" by (simp add: NewHostUpdateCoordinator_def)
  have tail: "ensures (stranded opid) (guarded (hcall ''Clear'' s1 (hb_Clear (hm_Backend ?m))) (\<lambda>e. rollback_error e s1)
       (guarded (hcall ''RestoreBoot'' s1 (hb_RestoreBoot (hm_Backend ?m) s1)) (\<lambda>e. rollback_error e s1)
       (guarded (RestoreCheckpoint B (h_OperationID s1)) (\<lambda>e. rollback_error e s1)
            (host_save (s1\<lparr>h_RollbackError := []\<rparr>) ''recovered'')))) (\<lambda>r. fst r \<noteq> None)" if s1: "stranded_status opid s1" for s1
  proof (rule fails_guarded [OF stranded_hcall stranded_rollback_error [OF s1]], rule fails_guarded [OF stranded_hcall stranded_rollback_error [OF s1]])
    have "h_OperationID s1 = opid" using s1 by (simp add: stranded_status_def)
    then show "ensures (stranded opid) (guarded (RestoreCheckpoint B (h_OperationID s1)) (\<lambda>e. rollback_error e s1)
            (host_save (s1\<lparr>h_RollbackError := []\<rparr>) ''recovered'')) (\<lambda>r. fst r \<noteq> None)"
      using ensures_guarded [OF stranded_callbacks(1) stranded_rollback_error [OF s1]] by simp
  qed
  have st: "stranded_status opid ((case cause of None \<Rightarrow> s | Some e \<Rightarrow> s\<lparr>h_Error := e\<rparr>)\<lparr>h_State := ''recovering'', h_Phase := ''recovering''\<rparr>)"
    using assms by (auto simp: stranded_status_def split: option.splits)
  show ?thesis unfolding restore_def Let_def rc option.case
    by (rule ensures_pair [OF stranded_save [OF st]], rule ensures_option, erule tail, rule ensures_ret, simp)
qed

lemma stranded_recover_pending:
  assumes "stranded_status opid s"
  shows "ensures (stranded opid) (recover_pending (NewHostUpdateCoordinator H B) s) (\<lambda>e. e \<noteq> None)"
proof -
  let ?m = "NewHostUpdateCoordinator H B"
  have op: "h_OperationID s = opid" and st: "h_State s \<noteq> ''committing''" using assms by (auto simp: stranded_status_def)
  have leave: "ensures (stranded opid) (recover_leave_trial ?m s) (\<lambda>e. e \<noteq> None)"
    using stranded_callbacks(3) [of opid B] unfolding recover_leave_trial_def call_or_def op
    by (auto simp: NewHostUpdateCoordinator_def intro!: ensures_guarded [where R = "\<lambda>e. e \<noteq> None"] ensures_ret)
  have trial: "ensures (stranded opid) (recover_trial ?m s) (\<lambda>e. e \<noteq> None)"
    using stranded_callbacks(2) [of opid B] st unfolding recover_trial_def call_or_def op
    by (auto simp: NewHostUpdateCoordinator_def intro!: ensures_guarded [where R = "\<lambda>e. e \<noteq> None"] ensures_ret)
  have home: "ensures (stranded opid) (seq (restore ?m s c) (\<lambda>(e, _). ret e)) (\<lambda>e. e \<noteq> None)" for c
    by (rule ensures_seq [OF stranded_restore [OF assms]]) (auto intro: ensures_ret)
  show ?thesis unfolding recover_pending_def running_call_def Let_def
    by (rule ensures_fetch [OF stranded_call], rule ensures_ret, simp, clarify, intro ensures_if leave trial home)
       (rule ensures_ret, simp)+
qed

lemma stranded_rollback_action:
  assumes "stranded_status opid s"
  shows "ensures (stranded opid) (rollback_action (NewHostUpdateCoordinator H B) s) (\<lambda>r. fst r \<noteq> None \<and> stranded_status opid (snd r))"
proof -
  let ?m = "NewHostUpdateCoordinator H B"
  let ?R = "\<lambda>r. fst r \<noteq> None \<and> stranded_status opid (snd r)"
  have ts: "hm_TrialStop ?m = Some (StopCheckpoint B)" by (simp add: NewHostUpdateCoordinator_def)
  have st: "h_State s \<noteq> ''recovered''" "h_State s \<noteq> ''staged''" "h_State s \<noteq> ''failed''"
    "stranded_status opid (s\<lparr>h_State := ''recovering'', h_Phase := ''recovering''\<rparr>)"
    using assms by (auto simp: stranded_status_def)
  have tail: "ensures (stranded opid) (guarded (hcall ''Clear'' s1 (hb_Clear (hm_Backend ?m))) (\<lambda>e. ret (Some e, s1))
          (guarded (StopCheckpoint B (h_OperationID s1)) (\<lambda>e. ret (Some e, s1)) k)) ?R"
    if s1: "stranded_status opid s1" for s1 k
  proof -
    have op1: "h_OperationID s1 = opid" using s1 by (simp add: stranded_status_def)
    have stop: "ensures (stranded opid) (guarded (StopCheckpoint B (h_OperationID s1)) (\<lambda>e. ret (Some e, s1)) k) ?R"
      unfolding op1 by (rule ensures_guarded [OF stranded_callbacks(3)]) (use s1 in \<open>auto intro: ensures_ret\<close>)
    show ?thesis by (rule ensures_guarded [OF stranded_hcall _ stop]) (use s1 in \<open>auto intro: ensures_ret\<close>)
  qed
  have f: "(h_State s = ''recovered'') = False" "(h_State s = ''staged'') = False" "(h_State s = ''failed'') = False" using st(1-3) by simp_all
  show ?thesis unfolding rollback_action_def ts option.case f simp_thms if_False
    by (rule ensures_pair [OF stranded_save [OF st(4)]], rule ensures_option, erule tail, rule ensures_ret, simp)
qed

lemma stranded_actionLocked:
  "ensures (stranded opid) (actionLocked (NewHostUpdateCoordinator H B) r action) (\<lambda>q. fst q \<noteq> None \<and> stranded_status opid (snd q))"
proof -
  let ?R = "\<lambda>q. fst q \<noteq> (None :: error) \<and> stranded_status opid (snd q)"
  have refuse: "ensures (stranded opid) (activate (NewHostUpdateCoordinator H B) s) ?R" "ensures (stranded opid) (commit (NewHostUpdateCoordinator H B) s) ?R"
    "ensures (stranded opid) (cleanup_action (NewHostUpdateCoordinator H B) s) ?R" if "stranded_status opid s" for s
    using that by (auto simp: activate_def commit_def cleanup_action_def host_terminal_def stranded_status_def intro!: ensures_ret)
  have "ensures (stranded opid) (if a then ret (Some x, s) else if b1 then activate (NewHostUpdateCoordinator H B) s
      else if b2 then commit (NewHostUpdateCoordinator H B) s else if b3 then rollback_action (NewHostUpdateCoordinator H B) s
      else if b4 then cleanup_action (NewHostUpdateCoordinator H B) s else ret (Some y, s)) ?R"
    if s: "stranded_status opid s" for s a b1 b2 b3 b4 x y
    by (intro ensures_if refuse stranded_rollback_action s) (rule ensures_ret, simp add: s)+
  then show ?thesis unfolding actionLocked_def by (rule stranded_fetch)
qed

lemma stranded_Acquire: "ensures (stranded opid) Acquire (\<lambda>_. True)"
  unfolding ensures_def triple_def wp_Acquire by (auto simp: stranded_def wp_ret)

lemma stranded_Recover: "ensures (stranded opid) (host_Recover (NewHostUpdateCoordinator H B)) (\<lambda>e. e \<noteq> None)"
proof -
  let ?m = "NewHostUpdateCoordinator H B"
  let ?R = "\<lambda>e. e \<noteq> (None :: error)"
  have act: "ensures (stranded opid) (seq (actionLocked ?m r a) (\<lambda>(e, _). ret e)) ?R" for r a
    by (rule ensures_seq [OF stranded_actionLocked]) (auto intro: ensures_ret)
  have f: "host_terminal (h_State s) = False" "(h_State s = ''staging'') = False" "(h_State s = ''staged'') = False"
    if "stranded_status opid s" for s using that by (auto simp: stranded_status_def host_terminal_def)
  have go: "ensures (stranded opid) (if ends_with ''_requested'' (h_Phase s)
     then seq (actionLocked ?m (recover_request s) (take (length (h_Phase s) - length ''_requested'') (h_Phase s))) (\<lambda>(e, _). ret e)
     else if host_terminal (h_State s)
     then if h_State s = ''committed'' \<and> \<not> h_CommitFinalized s then seq (finishCommit ?m s) (\<lambda>(e, _). ret e) else ret None
     else if h_State s = ''staging''
     then seq (host_save (s\<lparr>h_Error := ''OS staging interrupted; retry with a new operation''\<rparr>) ''failed'') (\<lambda>(e, _). ret e)
     else if h_State s = ''staged'' then ret None else recover_pending ?m s) ?R" if "stranded_status opid s" for s
    unfolding f [OF that] if_False by (intro ensures_if act stranded_recover_pending that)
  show ?thesis unfolding host_Recover_def
    by (rule ensures_guarded [OF stranded_Acquire], rule ensures_ret, simp, rule stranded_fetch, erule go)
qed

lemma stranded_Now: "ensures (stranded opid) Now (\<lambda>_. True)"
  unfolding ensures_def triple_def wp_Now by (auto simp: stranded_def)

lemma stranded_write_host: "stranded_status opid s \<Longrightarrow> ensures (stranded opid) (write_host s) (\<lambda>_. True)"
  unfolding write_host_def by (rule stranded_write) (auto simp: stranded_def)

lemma stranded_submit_job: "ensures (stranded opid) (submit_job (NewHostUpdateCoordinator H B) r action) (\<lambda>_. True)"
  unfolding submit_job_def Let_def
  by (rule ensures_seq [OF stranded_actionLocked], simp only: split_beta, rule ensures_seq [OF stranded_Now],
      rule ensures_seq [OF stranded_write_host])
     (auto simp: stranded_status_def intro: ensures_ret split: option.splits)

lemma stranded_Submit: "ensures (stranded opid) (Submit (NewHostUpdateCoordinator H B) sha r action) (\<lambda>_. True)"
proof -
  let ?m = "NewHostUpdateCoordinator H B"
  have keep: "ensures (stranded opid) (ret x) (\<lambda>_. True)" for x :: "error \<times> host_status" by (rule ensures_ret) simp
  have req: "ensures (stranded opid) (WriteFile (\<lambda>w. w\<lparr>host_actions := f (host_actions w)\<rparr>)) (\<lambda>_. True)" for f
    by (rule stranded_write) (auto simp: stranded_def)
  have go: "ensures (stranded opid) (guarded (WriteFile (\<lambda>w. w\<lparr>host_actions := f (host_actions w)\<rparr>)) (\<lambda>e. ret (Some e, s))
            (seq Now (\<lambda>now. guarded (write_host (s\<lparr>h_Phase := action @ ''_requested'', h_UpdatedAt := now\<rparr>))
               (\<lambda>e. ret (Some e, s\<lparr>h_Phase := action @ ''_requested'', h_UpdatedAt := now\<rparr>))
               (seq (submit_job ?m r action) (\<lambda>_. ret (None, s\<lparr>h_Phase := action @ ''_requested'', h_UpdatedAt := now\<rparr>)))))) (\<lambda>_. True)"
    if "stranded_status opid s" "action_refused action s = None" for s f
  proof -
    have "action = ''rollback''" using that by (auto simp: action_refused_def stranded_status_def host_terminal_def split: if_splits)
    then have "stranded_status opid (s\<lparr>h_Phase := action @ ''_requested'', h_UpdatedAt := now\<rparr>)" for now using that by (simp add: stranded_status_def)
    then show ?thesis
      by (intro ensures_guarded [OF req] keep ensures_seq [OF stranded_Now] ensures_guarded [OF stranded_write_host] ensures_seq [OF stranded_submit_job])
  qed
  show ?thesis unfolding Submit_def Let_def
    by (intro ensures_if keep ensures_guarded [OF stranded_Acquire] stranded_fetch ensures_seq [OF ensures_get [where R = "\<lambda>_. True"]] ensures_option)
       (auto intro: keep go ensures_if)
qed

lemma stranded_Prepare: "ensures (stranded opid) (Prepare m parse r) (\<lambda>_. True)"
proof -
  have keep: "ensures (stranded opid) (ret x) (\<lambda>_. True)" for x :: "error \<times> host_status" by (rule ensures_ret) simp
  have f: "host_terminal (h_State s) = False" if "stranded_status opid s" for s
    using that by (auto simp: stranded_status_def host_terminal_def)
  show ?thesis unfolding Prepare_def
    by (intro ensures_option keep ensures_guarded [OF stranded_Acquire] stranded_fetch) (auto simp: f intro: keep)
qed

lemma stranded_supervise: "ensures (stranded opid) (supervise_tick (NewHostUpdateCoordinator H B) i now since) (\<lambda>_. True)"
proof -
  let ?m = "NewHostUpdateCoordinator H B"
  have keep: "ensures (stranded opid) (ret x) (\<lambda>_. True)" for x :: tick by (rule ensures_ret) simp
  have ctl: "ensures (stranded opid) (ActivateCheckpointControllers B i) (\<lambda>_. True)" for i
  proof -
    have "ensures (stranded opid) (checkpoint i :: ('a world, string + mgmt_status) prog) (\<lambda>_. True)"
      unfolding checkpoint_def by (intro ensures_if ensures_ret ensures_get) simp_all
    then show ?thesis unfolding ActivateCheckpointControllers_def ecall_def
      by (rule ensures_fetch) (intro ensures_ret stranded_call TrueI)+
  qed
  have mark: "ensures (stranded opid) mark_ready (\<lambda>_. True)"
    unfolding mark_ready_def by (rule stranded_fetch) (auto simp: stranded_status_def intro: ensures_ret)
  have msg: "ensures (stranded opid) (WriteGuardMessage i st) (\<lambda>_. True)" for i st
    unfolding WriteGuardMessage_def
    by (intro ensures_if ensures_seq [OF stranded_Now] stranded_write ensures_ret) (auto simp: stranded_def)
  have tr: "hm_TrialReady ?m = Some (ActivateCheckpointControllers B)" by (simp add: NewHostUpdateCoordinator_def)
  show ?thesis unfolding supervise_tick_def Let_def tr option.case
    by (intro stranded_fetch ensures_if keep ensures_seq [OF msg] ensures_guarded [OF stranded_call] ensures_guarded [OF ctl]
        ensures_guarded [OF msg] ensures_guarded [OF stranded_Acquire] ensures_guarded [OF mark])
qed

lemma ensures_safe: "ensures I m R \<Longrightarrow> safe I m"
  unfolding ensures_def safe_def by (erule triple_weaken) auto

lemma stranded_step:
  assumes "stranded opid w"
  shows "stranded opid (host_step (NewHostUpdateCoordinator H B) parse sha eo w)"
proof (rule host_step_safe [where I = "stranded opid", OF _ _ _ _ _ _ assms])
  show "stranded opid w \<Longrightarrow> stranded opid (boot env w)" for env w by (simp add: stranded_def)
  show "safe (stranded opid) (host_action (NewHostUpdateCoordinator H B) r a)" for r a
    unfolding host_action_def
    by (rule ensures_safe [where R = "\<lambda>_. True"], rule ensures_guarded [OF stranded_Acquire])
       (rule ensures_ret ensures_weaken [OF stranded_actionLocked] TrueI)+
qed (rule ensures_safe, rule stranded_Prepare stranded_Submit stranded_Recover stranded_supervise)+

interpretation stranded: machine "host_step (NewHostUpdateCoordinator H B) parse sha" "stranded opid"
  for H and B :: "'b mgmt_backend" and parse sha opid
  by unfold_locales (rule stranded_step)

text \<open>
  C35. An activation that stops between saving \<open>arming\<close> and the first write of the checkpoint file leaves
  the host without a way forward: whatever operations run afterwards, on whatever boots and with
  whatever backend, the recovery that must succeed before the core stack starts never succeeds.\<close>

theorem lost_checkpoint_blocks_recovery:
  assumes "stranded opid w"
  shows "fst (host_Recover (NewHostUpdateCoordinator H B) (boot env (runs (host_step (NewHostUpdateCoordinator H B) parse sha) ops w))) \<noteq> Some None"
proof -
  have "stranded opid (boot env (runs (host_step (NewHostUpdateCoordinator H B) parse sha) ops w))"
    using stranded.runs_inv [OF assms] by (simp add: stranded_def)
  then show ?thesis using stranded_Recover [of opid H B] by (auto simp: ensures_def triple_def wp_def split: option.splits)
qed

section \<open>Back on the committed boot\<close>



















section \<open>The properties on a concrete update\<close>

definition demo_status :: "string \<Rightarrow> host_status" where
  "demo_status state = zero_host\<lparr>h_OperationID := ''op1'', h_State := state, h_Phase := state,
     h_Source := (h_Source zero_host)\<lparr>pl_Version := ''1.0.0''\<rparr>, h_Manifest := (h_Manifest zero_host)\<lparr>pl_Version := ''1.1.0''\<rparr>\<rparr>"

definition demo_running :: running_boot where
  "demo_running = (''1.0.0'', ''floatlab/os/1.0.0@base'', [], ''boot2'')"

definition demo_host :: "nat host_backend" where
  "demo_host = \<lparr>hb_Stage = (\<lambda>r b. ((h_Manifest zero_host, h_Source zero_host, None), b)), hb_ValidateActivation = (\<lambda>s b. (None, b)),
     hb_Arm = (\<lambda>s b. (None, b)), hb_Clear = (\<lambda>b. (None, b)), hb_Reboot = (\<lambda>b. (None, b)), hb_Running = (\<lambda>b. (Inr demo_running, b)),
     hb_Health = (\<lambda>b. (None, b)), hb_Promote = (\<lambda>s b. (None, b)), hb_FinalizeCommit = (\<lambda>s b. (None, b)),
     hb_RestoreBoot = (\<lambda>s b. (None, b)), hb_Cleanup = (\<lambda>s b. (None, b)), hb_watchdog = (\<lambda>_. True)\<rparr>"

definition demo_capture_fails :: "nat mgmt_backend" where
  "demo_capture_fails = demo_mgmt\<lparr>mb_capture := (\<lambda>s b. ((Some ''docker inspect failed'', s), b))\<rparr>"

theorem host_changes_are_journalled_witness:
  "list_all host_event_ok (trace (runs (host_step (NewHostUpdateCoordinator demo_host demo_mgmt) (\<lambda>_. None) id)
     [(demo_env, HAction demo_request ''activate''), (demo_env, HRecover)] (demo_world\<lparr>host_json := Present (demo_status ''staged'')\<rparr>)))"
  by (rule host_changes_are_journalled [OF demo_frame]) (simp add: demo_world_def)

lemma demo_stranded:
  "stranded ''op1'' (snd (Activate (NewHostUpdateCoordinator demo_host demo_capture_fails) demo_request
     (boot demo_env (demo_world\<lparr>host_json := Present (demo_status ''staged'')\<rparr>))))"
proof -
  let ?w = "snd (Activate (NewHostUpdateCoordinator demo_host demo_capture_fails) demo_request
     (boot demo_env (demo_world\<lparr>host_json := Present (demo_status ''staged'')\<rparr>)))"
  have "case host_json ?w of Present s \<Rightarrow> stranded_status ''op1'' s | _ \<Rightarrow> False" by code_simp
  moreover have "case mgmt_os ?w ''op1'' of Missing \<Rightarrow> True | _ \<Rightarrow> False" by code_simp
  ultimately show ?thesis by (auto simp: stranded_def split: doc.splits)
qed

theorem lost_checkpoint_blocks_recovery_witness:
  "fst (host_Recover (NewHostUpdateCoordinator demo_host demo_mgmt) (boot demo_env
     (snd (Activate (NewHostUpdateCoordinator demo_host demo_capture_fails) demo_request
        (boot demo_env (demo_world\<lparr>host_json := Present (demo_status ''staged'')\<rparr>)))))) \<noteq> Some None"
  using lost_checkpoint_blocks_recovery [OF demo_stranded, of demo_host demo_mgmt demo_env "\<lambda>_. None" id "[]"] by simp

end
