(* ===== verification/Boot_Guard.thy ===== *)
theory Boot_Guard
  imports Host_Upgrade
begin

text \<open>
  The boot guard (\<open>internal/hostupgrade/guard.go\<close>): the process that reboots a trial out of the way
  when it is not ready in ten minutes or stops its heartbeat for one. Times are nanoseconds; the
  monotonic clock of \<open>time.Now\<close> and \<open>CLOCK_BOOTTIME\<close> are separate readings.
\<close>

section \<open>The trial token of the kernel command line\<close>

definition is_space :: "char \<Rightarrow> bool" where
  "is_space c \<longleftrightarrow> c \<in> {CHR '' '', CHR 0x09, CHR 0x0A, CHR 0x0B, CHR 0x0C, CHR 0x0D}"

text \<open>\<open>strings.Fields\<close> on an ASCII command line: \<open>cur\<close> is the field being read, reversed.\<close>

fun fields :: "string \<Rightarrow> string \<Rightarrow> string list" where
  "fields [] cur = (if cur = [] then [] else [rev cur])"
| "fields (c # cs) cur = (if is_space c then (if cur = [] then fields cs [] else rev cur # fields cs []) else fields cs (c # cur))"

definition Fields :: "string \<Rightarrow> string list" where "Fields s = fields s []"

definition trial_prefix :: string where "trial_prefix = ''floatlab.trial=''"

fun trial_loop :: "string \<Rightarrow> string list \<Rightarrow> string + string" where
  "trial_loop token [] = Inr token"
| "trial_loop token (part # parts) =
     (if starts_with trial_prefix part
      then if token \<noteq> [] then Inl ''duplicate trial operation token''
           else let token = drop (length trial_prefix) part in
             if \<not> operationID token then Inl ''invalid trial operation token'' else trial_loop token parts
      else trial_loop token parts)"

definition TrialToken :: "string \<Rightarrow> string + string" where
  "TrialToken cmdline = trial_loop [] (Fields cmdline)"

section \<open>The guard's clocks\<close>

record guard_state =
  g_OperationID :: string
  g_Started :: int
  g_LastHeartbeat :: int
  g_LastNonce :: int
  g_Ready :: bool

definition Observe :: "int \<Rightarrow> string \<Rightarrow> string \<Rightarrow> int \<Rightarrow> guard_state \<Rightarrow> guard_state" where
  "Observe now operation state nonce g =
     (if operation \<noteq> g_OperationID g \<or> state \<noteq> ''ready'' \<or> nonce = g_LastNonce g then g
      else g\<lparr>g_Ready := True, g_LastHeartbeat := now, g_LastNonce := nonce\<rparr>)"

definition Expired :: "int \<Rightarrow> guard_state \<Rightarrow> bool" where
  "Expired now g = (if \<not> g_Ready g then now - g_Started g \<ge> 10 * minute else now - g_LastHeartbeat g \<ge> minute)"

section \<open>The guard process\<close>

record saved_guard =
  sg_Started :: int
  sg_Heartbeat :: int
  sg_Nonce :: int
  sg_Ready :: bool

text \<open>
  The start of \<open>Guard\<close> for a trial boot: \<open>bootNow\<close> is the reading of \<open>CLOCK_BOOTTIME\<close>, \<open>now0\<close>, \<open>now1\<close> and
  \<open>now2\<close> the monotonic times read before and after it, \<open>file\<close> the state file and \<open>wr\<close> the outcome of
  writing it. The result is the error, or the states in memory and the file afterwards.
\<close>

definition guard_start ::
  "string \<Rightarrow> int \<Rightarrow> int \<Rightarrow> int \<Rightarrow> int \<Rightarrow> outcome \<Rightarrow> saved_guard doc \<Rightarrow> (string + guard_state \<times> saved_guard) \<times> saved_guard doc" where
  "guard_start token now0 bootNow now1 now2 wr file =
     (let g = \<lparr>g_OperationID = token, g_Started = now0, g_LastHeartbeat = 0, g_LastNonce = 0, g_Ready = False\<rparr> in
      case file of
        Corrupt \<Rightarrow> (Inl ''json: cannot unmarshal'', file)
      | Present saved \<Rightarrow>
          if sg_Started saved \<le> 0 \<or> bootNow < sg_Started saved then (Inl ''invalid guard monotonic checkpoint'', file)
          else let g1 = g\<lparr>g_Started := now1 - (bootNow - sg_Started saved), g_Ready := sg_Ready saved, g_LastNonce := sg_Nonce saved\<rparr>;
                   g2 = (if sg_Ready saved then g1\<lparr>g_LastHeartbeat := now2 - (bootNow - sg_Heartbeat saved)\<rparr> else g1)
               in (Inr (g2, saved), file)
      | Missing \<Rightarrow>
          (let saved = \<lparr>sg_Started = bootNow, sg_Heartbeat = 0, sg_Nonce = 0, sg_Ready = False\<rparr> in
           case wr of Written \<Rightarrow> (Inr (g, saved), Present saved)
           | Lost e \<Rightarrow> (Inl e, file) | Unsynced e \<Rightarrow> (Inl e, Present saved)))"

datatype guard_result = Stop error | Reboot | Watch guard_state saved_guard

text \<open>
  One tick at monotonic time \<open>now\<close>: \<open>message\<close> is the readable supervisor message, \<open>status\<close> the host
  journal, \<open>clock\<close> the reading of \<open>CLOCK_BOOTTIME\<close>. \<open>Reboot\<close> is the orderly and then forced reboot.
\<close>

definition finalized :: "string \<Rightarrow> host_status doc \<Rightarrow> bool" where
  "finalized token status = (case status of Present s \<Rightarrow> h_OperationID s = token \<and> h_State s = ''committed'' \<and> h_CommitFinalized s
     | _ \<Rightarrow> False)"

definition guard_expiry :: "int \<Rightarrow> guard_state \<Rightarrow> saved_guard \<Rightarrow> guard_result" where
  "guard_expiry now g saved = (if Expired now g then Reboot else Watch g saved)"

definition guard_tick ::
  "int \<Rightarrow> (string \<times> string \<times> int) option \<Rightarrow> host_status doc \<Rightarrow> int option \<Rightarrow> outcome \<Rightarrow> guard_state \<Rightarrow> saved_guard \<Rightarrow>
   saved_guard doc \<Rightarrow> guard_result \<times> saved_guard doc" where
  "guard_tick now message status clock wr g saved file = (case message of
     Some (operation, state, nonce) \<Rightarrow>
       if operation \<noteq> g_OperationID g then (guard_expiry now g saved, file)
       else if state = ''committed'' \<and> finalized (g_OperationID g) status then (Stop None, file)
       else let g1 = Observe now operation state nonce g in
         if sg_Nonce saved \<noteq> g_LastNonce g1
         then (case clock of None \<Rightarrow> (Stop (Some ''clock_gettime''), file)
           | Some t \<Rightarrow>
             let saved1 = saved\<lparr>sg_Heartbeat := t, sg_Nonce := g_LastNonce g1, sg_Ready := g_Ready g1\<rparr> in
             (case wr of Written \<Rightarrow> (guard_expiry now g1 saved1, Present saved1)
              | Lost e \<Rightarrow> (Stop (Some e), file) | Unsynced e \<Rightarrow> (Stop (Some e), Present saved1)))
         else (guard_expiry now g1 saved, file)
   | None \<Rightarrow> (guard_expiry now g saved, file))"

text \<open>The guard of one trial boot and its state file. A service manager may start it again at any time.\<close>

record guard_proc =
  gp_run :: "(guard_state \<times> saved_guard) option"
  gp_file :: "saved_guard doc"
  gp_rebooted :: bool

datatype guard_event =
    GStart int int int int outcome
  | GTick int "(string \<times> string \<times> int) option" "host_status doc" "int option" outcome
  | GCrash

fun guard_event_step :: "string \<Rightarrow> guard_event \<Rightarrow> guard_proc \<Rightarrow> guard_proc" where
  "guard_event_step token (GStart now0 bootNow now1 now2 wr) p =
     (case guard_start token now0 bootNow now1 now2 wr (gp_file p) of
        (Inl e, file) \<Rightarrow> p\<lparr>gp_run := None, gp_file := file\<rparr> | (Inr r, file) \<Rightarrow> p\<lparr>gp_run := Some r, gp_file := file\<rparr>)"
| "guard_event_step token (GTick now message status clock wr) p = (case gp_run p of None \<Rightarrow> p
     | Some (g, saved) \<Rightarrow> (case guard_tick now message status clock wr g saved (gp_file p) of
         (Watch g1 saved1, file) \<Rightarrow> p\<lparr>gp_run := Some (g1, saved1), gp_file := file\<rparr>
       | (Stop e, file) \<Rightarrow> p\<lparr>gp_run := None, gp_file := file\<rparr>
       | (Reboot, file) \<Rightarrow> p\<lparr>gp_run := None, gp_file := file, gp_rebooted := True\<rparr>))"
| "guard_event_step token GCrash p = p\<lparr>gp_run := None\<rparr>"

section \<open>The token is unambiguous\<close>

lemma trial_loop_after: "token \<noteq> [] \<Longrightarrow> trial_loop token ps = Inr t \<longleftrightarrow> t = token \<and> filter (starts_with trial_prefix) ps = []"
  by (induction ps) auto

lemma starts_with_split: "starts_with p s \<longleftrightarrow> s = p @ drop (length p) s"
  unfolding starts_with_def by (metis append_eq_conv_conj append_take_drop_id)

lemma trial_loop_first:
  "t \<noteq> [] \<Longrightarrow> trial_loop [] ps = Inr t \<longleftrightarrow> operationID t \<and> filter (starts_with trial_prefix) ps = [trial_prefix @ t]"
proof (induction ps)
  case (Cons p ps)
  show ?case
  proof (cases "starts_with trial_prefix p")
    case True
    then have p: "p = trial_prefix @ drop (length trial_prefix) p" by (simp add: starts_with_split)
    have "p = trial_prefix @ t \<longleftrightarrow> t = drop (length trial_prefix) p" by (subst p) auto
    then show ?thesis using True Cons.prems trial_loop_after [of "drop (length trial_prefix) p" ps t]
      by (cases "drop (length trial_prefix) p = []") (auto simp: Let_def)
  qed (use Cons in simp)
qed simp

text \<open>
  The guard arms for operation \<open>t\<close> exactly when one field of the command line, and only one, is
  \<open>floatlab.trial=t\<close> with a valid operation ID.\<close>

theorem trial_token_is_unique:
  "TrialToken cmdline = Inr t \<and> t \<noteq> [] \<longleftrightarrow> operationID t \<and> filter (starts_with trial_prefix) (Fields cmdline) = [trial_prefix @ t]"
  using trial_loop_first [of t "Fields cmdline"] unfolding TrialToken_def by (cases t) auto

section \<open>A restart does not renew the deadline\<close>

definition deadline :: "saved_guard \<Rightarrow> int" where
  "deadline s = (if sg_Ready s then sg_Heartbeat s + minute else sg_Started s + 10 * minute)"

text \<open>
  The events of a boot whose monotonic clock is \<open>c\<close> behind \<open>CLOCK_BOOTTIME\<close>: the clock readings of a
  start are at most \<open>d\<close> apart, and no tick brings a new heartbeat.
\<close>

fun stale :: "int \<Rightarrow> int \<Rightarrow> string \<Rightarrow> int \<Rightarrow> guard_event \<Rightarrow> bool" where
  "stale c d token nonce (GStart now0 bootNow now1 now2 wr) \<longleftrightarrow>
     bootNow \<le> now1 + c \<and> now1 + c \<le> bootNow + d \<and> bootNow \<le> now2 + c \<and> now2 + c \<le> bootNow + d"
| "stale c d token nonce (GTick now message status clock wr) \<longleftrightarrow>
     (case message of Some (operation, state, n) \<Rightarrow> operation = token \<and> state = ''ready'' \<longrightarrow> n = nonce | None \<Rightarrow> True)"
| "stale c d token nonce GCrash \<longleftrightarrow> True"

definition guards :: "int \<Rightarrow> int \<Rightarrow> string \<Rightarrow> saved_guard \<Rightarrow> guard_state \<Rightarrow> bool" where
  "guards c d token saved g \<longleftrightarrow> g_OperationID g = token \<and> g_LastNonce g = sg_Nonce saved \<and> g_Ready g = sg_Ready saved \<and>
     (if sg_Ready saved then sg_Heartbeat saved \<le> g_LastHeartbeat g + c \<and> g_LastHeartbeat g + c \<le> sg_Heartbeat saved + d
      else sg_Started saved \<le> g_Started g + c \<and> g_Started g + c \<le> sg_Started saved + d)"

definition guard_inv :: "int \<Rightarrow> int \<Rightarrow> string \<Rightarrow> saved_guard \<Rightarrow> guard_proc \<Rightarrow> bool" where
  "guard_inv c d token saved p \<longleftrightarrow> gp_file p = Present saved \<and>
     (case gp_run p of None \<Rightarrow> True | Some (g, s) \<Rightarrow> s = saved \<and> guards c d token saved g)"

lemma start_guards:
  assumes "stale c d token n (GStart now0 bootNow now1 now2 wr)"
    "guard_start token now0 bootNow now1 now2 wr (Present saved) = (r, file)"
  shows "file = Present saved \<and> (case r of Inl _ \<Rightarrow> True | Inr (g, s) \<Rightarrow> s = saved \<and> guards c d token saved g)"
  using assms by (auto simp: guard_start_def guards_def Let_def split: if_splits)

lemma stale_tick:
  assumes "stale c d token (sg_Nonce saved) (GTick now message status clock wr)" "guards c d token saved g"
  shows "guard_tick now message status clock wr g saved file =
    (if (\<exists>n. message = Some (token, ''committed'', n)) \<and> finalized token status then Stop None else guard_expiry now g saved, file)"
  using assms by (auto simp: guard_tick_def guards_def Observe_def Let_def split: option.splits)

lemma guard_inv_step:
  assumes "guard_inv c d token saved p" "stale c d token (sg_Nonce saved) e"
  shows "guard_inv c d token saved (guard_event_step token e p)"
proof (cases e)
  case (GStart now0 bootNow now1 now2 wr)
  then show ?thesis using assms start_guards [of c d token "sg_Nonce saved" now0 bootNow now1 now2 wr saved]
    by (auto simp: guard_inv_def split: prod.splits sum.splits)
next
  case (GTick now message status clock wr)
  show ?thesis
  proof (cases "gp_run p")
    case (Some r)
    then obtain g where r: "gp_run p = Some (g, saved)" "guards c d token saved g" using assms(1) by (cases r) (auto simp: guard_inv_def)
    show ?thesis using assms(1) r stale_tick [OF assms(2) [unfolded GTick] r(2)]
      by (auto simp: GTick guard_inv_def guard_expiry_def)
  qed (use assms GTick in auto)
qed (use assms in \<open>simp add: guard_inv_def\<close>)

lemma guard_inv_runs:
  "guard_inv c d token saved p \<Longrightarrow> list_all (stale c d token (sg_Nonce saved)) es \<Longrightarrow> guard_inv c d token saved (runs (guard_event_step token) es p)"
  by (induction es arbitrary: p) (auto intro: guard_inv_step)

lemma guards_expired:
  assumes "guards c d token saved g"
  shows "Expired now g \<Longrightarrow> deadline saved \<le> now + c" "deadline saved + d \<le> now + c \<Longrightarrow> Expired now g"
  using assms by (auto simp: guards_def Expired_def deadline_def split: if_splits)

text \<open>
  C19. A guard that crashes and is started again, any number of times, keeps the deadline of its state
  file: ten minutes after the first start, or one minute after the last heartbeat. While no new
  heartbeat arrives, a tick of the running guard never reboots before that deadline, and after it, plus
  the time \<open>d\<close> a start takes to read its clocks, the tick reboots unless the commit is finalized.\<close>

theorem restart_keeps_the_deadline:
  assumes "gp_run p = None" "gp_file p = Present saved"
    "list_all (stale c d token (sg_Nonce saved)) (es @ [GTick now message status clock wr])"
    "gp_run (runs (guard_event_step token) es p) = Some (g, s)"
  shows "(fst (guard_tick now message status clock wr g s file) = Reboot \<longrightarrow> deadline saved \<le> now + c) \<and>
    (deadline saved + d \<le> now + c \<and> \<not> finalized token status \<longrightarrow> fst (guard_tick now message status clock wr g s file) = Reboot)"
proof -
  have "guard_inv c d token saved (runs (guard_event_step token) es p)"
    using assms by (intro guard_inv_runs) (auto simp: guard_inv_def)
  then have s: "s = saved" and g: "guards c d token saved g" using assms(4) by (auto simp: guard_inv_def)
  have "stale c d token (sg_Nonce saved) (GTick now message status clock wr)" using assms(3) by simp
  from stale_tick [OF this g] show ?thesis using guards_expired [OF g, of now] s by (auto simp: guard_expiry_def)
qed

text \<open>
  C39. A heartbeat that cannot be saved keeps the guard from checking its deadline: while the state file
  cannot be written, the same ready message read again after every restart stops the guard before the
  deadline test, at whatever time, so the trial is never rebooted.\<close>

theorem unsaved_heartbeat_skips_the_deadline:
  assumes "gp_file p = Present saved" "nonce \<noteq> sg_Nonce saved" "gp_run p = None" "\<not> gp_rebooted p"
  shows "\<not> gp_rebooted (runs (guard_event_step token) (concat (map (\<lambda>(now0, bootNow, now1, now2, now).
    [GStart now0 bootNow now1 now2 Written, GTick now (Some (token, ''ready'', nonce)) status (Some bootNow) (Lost e)]) rounds)) p)"
  using assms
proof (induction rounds arbitrary: p)
  case (Cons r rounds)
  obtain now0 bootNow now1 now2 now where r: "r = (now0, bootNow, now1, now2, now)" by (cases r)
  let ?p = "runs (guard_event_step token) [GStart now0 bootNow now1 now2 Written, GTick now (Some (token, ''ready'', nonce)) status (Some bootNow) (Lost e)] p"
  have "gp_file ?p = Present saved \<and> gp_run ?p = None \<and> \<not> gp_rebooted ?p"
    using Cons.prems by (auto simp: guard_start_def guard_tick_def Observe_def Let_def)
  then show ?case using Cons.IH [of ?p] Cons.prems(2) by (simp add: r)
qed simp

section \<open>The properties on concrete boots\<close>

definition demo_saved :: saved_guard where
  "demo_saved = \<lparr>sg_Started = 5, sg_Heartbeat = 0, sg_Nonce = 0, sg_Ready = False\<rparr>"

definition demo_proc :: guard_proc where
  "demo_proc = \<lparr>gp_run = None, gp_file = Present demo_saved, gp_rebooted = False\<rparr>"

theorem restart_keeps_the_deadline_witness:
  "fst (guard_tick (10 * minute + 8) None Missing None Written
     (fst (the (gp_run (runs (guard_event_step ''op1'') [GStart 6 7 8 9 Written, GCrash, GStart 20 21 21 22 Written] demo_proc))))
     demo_saved (Present demo_saved)) = Reboot"
proof -
  let ?p = "runs (guard_event_step ''op1'') [GStart 6 7 8 9 Written, GCrash, GStart 20 21 21 22 Written] demo_proc"
  let ?g = "\<lparr>g_OperationID = ''op1'', g_Started = 5, g_LastHeartbeat = 0, g_LastNonce = 0, g_Ready = False\<rparr>"
  have r: "gp_run ?p = Some (?g, demo_saved)" by (simp add: demo_proc_def demo_saved_def guard_start_def Let_def)
  then show ?thesis
    using restart_keeps_the_deadline [of demo_proc demo_saved 0 2 "''op1''" "[GStart 6 7 8 9 Written, GCrash, GStart 20 21 21 22 Written]"
        "10 * minute + 8" None Missing None Written ?g demo_saved "Present demo_saved"]
    by (simp add: demo_proc_def finalized_def deadline_def) (simp add: demo_saved_def)
qed

theorem unsaved_heartbeat_skips_the_deadline_witness:
  "\<not> gp_rebooted (runs (guard_event_step ''op1'') [GStart 6 7 8 9 Written, GTick 10 (Some (''op1'', ''ready'', 3)) Missing (Some 7) (Lost ''ENOSPC''),
     GStart (20 * minute) (20 * minute) (20 * minute) (20 * minute) Written, GTick (21 * minute) (Some (''op1'', ''ready'', 3)) Missing (Some (20 * minute)) (Lost ''ENOSPC'')] demo_proc)"
  using unsaved_heartbeat_skips_the_deadline [of demo_proc demo_saved 3 "''op1''" Missing "''ENOSPC''"
      "[(6, 7, 8, 9, 10), (20 * minute, 20 * minute, 20 * minute, 20 * minute, 21 * minute)]"]
  by (simp only: list.map concat.simps case_prod_conv append.simps) (simp add: demo_proc_def demo_saved_def)

end
