(* ===== verification/Failover.thy ===== *)
theory Failover
  imports Stack_Lifecycle Snapshot_Names Ipam
begin

text \<open>
  Failover and failback (\<open>internal/failover/sequence.go\<close>) and the detector that triggers them
  (\<open>internal/failover/detector.go\<close>), over the replicated state map of \<open>Stack_Lifecycle\<close> and the
  address tables of \<open>Ipam\<close>. \<open>RuntimeYAML\<close> (compose rewriting) and \<open>time.ParseDuration\<close> are arguments.

  Every call that leaves the process takes the next \<open>fate\<close>: whether an abort request arrives before
  it, and whether a database or host call, a Raft application, or the record of a step's outcome
  succeeds, is refused, takes effect although an error is returned, or never returns because the
  process dies.
\<close>

section \<open>The world of a sequence\<close>

record fate =
  ft_Abort :: bool
  ft_Call :: result
  ft_Raft :: result
  ft_Record :: result

record stack_row =
  st_ID :: string
  st_Name :: string
  st_Icon :: string
  st_PrimaryNodeID :: string
  st_BackupNodeID :: string
  st_ComposeYAML :: string
  st_ZFSDataset :: string
  st_SnapshotSchedule :: string
  st_ReplicationSchedule :: string
  st_BackupSchedule :: string
  st_BackupTarget :: string
  st_FailoverMode :: string
  st_AutoTriggerAfter :: string
  st_CreatedAt :: int
  st_UpdatedAt :: int

record step_row =
  sr_stack :: string
  sr_sequence :: int
  sr_step :: nat
  sr_name :: string
  sr_state :: string
  sr_started :: "int option"
  sr_completed :: "int option"
  sr_detail :: string

datatype payload =
    ComposeUp string string string
  | ComposeDown string string
  | SnapshotCreate string string "(string \<times> string \<times> int)"
  | ReplSend string string string nat
  | Service net_service
  | NetAddr string string

record sent =
  sn_Node :: string
  sn_Command :: string
  sn_Payload :: payload

record fo_world =
  fw_stacks :: "stack_row list"
  fw_ipam :: ipam_db
  fw_reservations :: "(string \<times> string) list"
  fw_steps :: "step_row list"
  fw_fsm :: fsm
  fw_active :: "string list"
  fw_cancelled :: bool
  fw_sent :: "sent list"
  fw_notices :: "(string \<times> string \<times> string) list"
  fw_count :: nat
  fw_fates :: "nat \<Rightarrow> fate"
  fw_wall :: "nat \<Rightarrow> int"
  fw_hosts :: "string \<Rightarrow> string + Ipam.host_status"

text \<open>\<open>Abort\<close>, arriving while the sequence runs: it cancels the context if the sequence is registered.\<close>

definition Abort :: "string \<Rightarrow> fo_world \<Rightarrow> bool \<times> fo_world" where
  "Abort stackID w = (if stackID \<in> set (fw_active w) then (True, w\<lparr>fw_cancelled := True\<rparr>) else (False, w))"

definition arrive :: "string \<Rightarrow> fo_world \<Rightarrow> fo_world" where
  "arrive stackID w = (let w1 = w\<lparr>fw_count := Suc (fw_count w)\<rparr> in
     if ft_Abort (fw_fates w (fw_count w)) then snd (Abort stackID w1) else w1)"

text \<open>A call of the sequence of \<open>stackID\<close>; \<open>bound\<close> calls run under its context.\<close>

definition effect :: "string \<Rightarrow> bool \<Rightarrow> (fate \<Rightarrow> result) \<Rightarrow> (fo_world \<Rightarrow> fo_world) \<Rightarrow> (fo_world, error) prog" where
  "effect stackID bound sel upd = (\<lambda>w. let w1 = arrive stackID w in
     if bound \<and> fw_cancelled w1 then (Some (Some ''context canceled''), w1)
     else case sel (fw_fates w (fw_count w)) of
       Done \<Rightarrow> (Some None, upd w1)
     | Refused e \<Rightarrow> (Some (Some e), w1)
     | Doubtful e \<Rightarrow> (Some (Some e), upd w1)
     | Crash \<Rightarrow> (None, w1))"

definition now :: "(fo_world, int) prog" where "now = get (\<lambda>w. fw_wall w (fw_count w))"

definition fo_query :: "string \<Rightarrow> bool \<Rightarrow> (error \<Rightarrow> fo_world \<Rightarrow> 'a) \<Rightarrow> (fo_world, 'a) prog" where
  "fo_query stackID bound f = seq (effect stackID bound ft_Call id) (\<lambda>fault. get (f fault))"

definition hosts_Execute :: "string \<Rightarrow> bool \<Rightarrow> string \<Rightarrow> string \<Rightarrow> payload \<Rightarrow> (fo_world, error) prog" where
  "hosts_Execute stackID bound node command payload =
     effect stackID bound ft_Call (\<lambda>w. w\<lparr>fw_sent := \<lparr>sn_Node = node, sn_Command = command, sn_Payload = payload\<rparr> # fw_sent w\<rparr>)"

definition raft_Apply :: "string \<Rightarrow> state \<Rightarrow> state \<Rightarrow> event \<Rightarrow> (fo_world, error) prog" where
  "raft_Apply stackID from to ev = seq now (\<lambda>t. effect stackID False ft_Raft (\<lambda>w. w\<lparr>fw_fsm := snd (fsm_Apply
     (Inr \<lparr>sc_StackID = stackID, sc_From = from, sc_To = to, sc_Event = ev, sc_Timestamp = t, sc_NodeID = []\<rparr>) (fw_fsm w))\<rparr>))"

definition GetStack :: "string \<Rightarrow> bool \<Rightarrow> (fo_world, string + stack_row) prog" where
  "GetStack stackID bound = fo_query stackID bound (\<lambda>fault w. case fault of Some e \<Rightarrow> Inl (''config: get stack: '' @ e)
     | None \<Rightarrow> (case filter (\<lambda>st. st_ID st = stackID) (fw_stacks w) of [] \<Rightarrow> Inl (''config: stack '' @ stackID @ '' not found'')
       | st # _ \<Rightarrow> Inr st))"

definition stack_service :: "string \<Rightarrow> bool \<Rightarrow> (fo_world, string + net_service option) prog" where
  "stack_service stackID bound = fo_query stackID bound (\<lambda>fault w. StackService fault stackID (fw_ipam w))"

definition check_destination :: "string \<Rightarrow> bool \<Rightarrow> string \<Rightarrow> (fo_world, error) prog" where
  "check_destination stackID bound node = seq (effect stackID bound ft_Call id) (\<lambda>f1. fo_query stackID bound
     (\<lambda>f2 w. CheckStackDestination f1 f2 (fw_hosts w) stackID node (fw_ipam w)))"

definition setActiveNode :: "string \<Rightarrow> bool \<Rightarrow> string \<Rightarrow> (fo_world, error) prog" where
  "setActiveNode stackID bound node = effect stackID bound ft_Call (\<lambda>w. w\<lparr>fw_ipam := (fw_ipam w)\<lparr>db_runtime :=
     map (\<lambda>(sid, r). (sid, if sid = stackID then r\<lparr>ru_active_node := node\<rparr> else r)) (db_runtime (fw_ipam w))\<rparr>\<rparr>)"

definition notify_Create :: "string \<Rightarrow> bool \<Rightarrow> string \<Rightarrow> string \<Rightarrow> (fo_world, error) prog" where
  "notify_Create stackID bound severity title =
     effect stackID bound ft_Call (\<lambda>w. w\<lparr>fw_notices := (stackID, severity, title) # fw_notices w\<rparr>)"

section \<open>Steps\<close>

definition same_step :: "step_row \<Rightarrow> step_row \<Rightarrow> bool" where
  "same_step a b \<longleftrightarrow> sr_stack a = sr_stack b \<and> sr_sequence a = sr_sequence b \<and> sr_step a = sr_step b"

definition insert_step :: "step_row \<Rightarrow> (fo_world, error) prog" where
  "insert_step row = seq (get (\<lambda>w. list_ex (same_step row) (fw_steps w))) (\<lambda>taken.
     if taken then seq (effect (sr_stack row) True ft_Call id) (\<lambda>e. ret (Some (case e of Some x \<Rightarrow> x | None \<Rightarrow> ''UNIQUE constraint failed'')))
     else effect (sr_stack row) True ft_Call (\<lambda>w. w\<lparr>fw_steps := fw_steps w @ [row]\<rparr>))"

definition record_step :: "step_row \<Rightarrow> error \<Rightarrow> int \<Rightarrow> (fo_world, error) prog" where
  "record_step row err t = effect (sr_stack row) False ft_Record (\<lambda>w. w\<lparr>fw_steps := map (\<lambda>r. if same_step row r
     then r\<lparr>sr_state := (if err = None then ''complete'' else ''failed''), sr_completed := Some t,
            sr_detail := (case err of None \<Rightarrow> [] | Some e \<Rightarrow> e)\<rparr> else r) (fw_steps w)\<rparr>)"

definition fo_step :: "string \<Rightarrow> int \<Rightarrow> nat \<Rightarrow> string \<Rightarrow> (fo_world, error) prog \<Rightarrow> (fo_world, error) prog" where
  "fo_step stackID sequenceID number name action = seq now (\<lambda>started.
     let row = \<lparr>sr_stack = stackID, sr_sequence = sequenceID, sr_step = number, sr_name = name, sr_state = ''running'',
                sr_started = Some started, sr_completed = None, sr_detail = []\<rparr> in
     guarded (insert_step row) (\<lambda>e. ret (Some e))
       (seq action (\<lambda>err. seq now (\<lambda>t. seq (record_step row err t) (\<lambda>recordErr.
          ret (case err of Some e \<Rightarrow> Some e | None \<Rightarrow> recordErr))))))"

definition skipped_row :: "string \<Rightarrow> int \<Rightarrow> step_row" where
  "skipped_row stackID sequenceID = \<lparr>sr_stack = stackID, sr_sequence = sequenceID, sr_step = 3, sr_name = ''snapshot-promote'',
     sr_state = ''skipped'', sr_started = None, sr_completed = None, sr_detail = ''received dataset requires no promotion''\<rparr>"

section \<open>What the steps do\<close>

definition attemptFinalSync :: "bool \<Rightarrow> stack_row \<Rightarrow> (fo_world, error) prog" where
  "attemptFinalSync bound st =
     (if st_BackupNodeID st = [] then ret (Some ''secondary node required'')
      else seq now (\<lambda>t. case AutomatedSnapshotName t of Inl e \<Rightarrow> ret (Some e)
        | Inr snapshot \<Rightarrow>
          guarded (hosts_Execute (st_ID st) bound (st_PrimaryNodeID st) ''fs.snapshot.create''
                     (SnapshotCreate (st_ZFSDataset st) snapshot (''final-sync'', st_ID st, t))) (\<lambda>e. ret (Some (''create final snapshot: '' @ e)))
          (guarded (hosts_Execute (st_ID st) bound (st_PrimaryNodeID st) ''fs.repl.send''
                     (ReplSend (st_ZFSDataset st) snapshot (st_BackupNodeID st) 9696)) (\<lambda>e. ret (Some (''send final snapshot: '' @ e)))
          (ret None))))"

primrec takeover_addresses :: "stack_row \<Rightarrow> string list \<Rightarrow> (fo_world, error) prog" where
  "takeover_addresses st [] = ret None"
| "takeover_addresses st (addr # addrs) =
     (if addr = [] then takeover_addresses st addrs
      else guarded (hosts_Execute (st_ID st) True (st_BackupNodeID st) ''net.addr.add'' (NetAddr ''eth0'' addr))
        (\<lambda>e. ret (Some (''takeover '' @ addr @ '': '' @ e))) (takeover_addresses st addrs))"

definition takeoverIPs :: "stack_row \<Rightarrow> (fo_world, error) prog" where
  "takeoverIPs st = (if st_BackupNodeID st = [] then ret None
     else seq (stack_service (st_ID st) True) (\<lambda>r. case r of Inl e \<Rightarrow> ret (Some e)
       | Inr (Some service) \<Rightarrow>
           guarded (setActiveNode (st_ID st) True (st_BackupNodeID st)) (\<lambda>e. ret (Some e))
           (guarded (hosts_Execute (st_ID st) True (st_BackupNodeID st) ''net.service.add'' (Service service)) (\<lambda>e. ret (Some e)) (ret None))
       | Inr None \<Rightarrow>
           seq (fo_query (st_ID st) True (\<lambda>fault w. (fault, map snd (filter (\<lambda>(sid, _). sid = st_ID st) (fw_reservations w))))) (\<lambda>(fault, addrs).
             case fault of Some e \<Rightarrow> ret (Some e) | None \<Rightarrow> takeover_addresses st addrs)))"

type_synonym runtime_yaml = "string \<Rightarrow> string \<Rightarrow> addr option \<Rightarrow> string + string"

definition runtimeCompose :: "runtime_yaml \<Rightarrow> bool \<Rightarrow> stack_row \<Rightarrow> (fo_world, string + string) prog" where
  "runtimeCompose RuntimeYAML bound st = seq (stack_service (st_ID st) bound) (\<lambda>r. ret (case r of Inl e \<Rightarrow> Inl e
     | Inr None \<Rightarrow> Inr (st_ComposeYAML st) | Inr (Some service) \<Rightarrow> RuntimeYAML (st_ComposeYAML st) (st_Name st) (sv_Address service)))"

definition start_on :: "runtime_yaml \<Rightarrow> bool \<Rightarrow> string \<Rightarrow> stack_row \<Rightarrow> (fo_world, error) prog" where
  "start_on RuntimeYAML bound node st = seq (runtimeCompose RuntimeYAML bound st) (\<lambda>r. case r of Inl e \<Rightarrow> ret (Some e)
     | Inr runtime \<Rightarrow> hosts_Execute (st_ID st) bound node ''compose.up'' (ComposeUp (st_ID st) (st_ZFSDataset st) runtime))"

definition startOnSecondary :: "runtime_yaml \<Rightarrow> stack_row \<Rightarrow> (fo_world, error) prog" where
  "startOnSecondary RuntimeYAML st = start_on RuntimeYAML True (st_BackupNodeID st) st"

definition startOnPrimary :: "runtime_yaml \<Rightarrow> stack_row \<Rightarrow> (fo_world, error) prog" where
  "startOnPrimary RuntimeYAML st = start_on RuntimeYAML False (st_PrimaryNodeID st) st"

section \<open>Failover and failback\<close>

definition failed :: "string \<Rightarrow> string \<Rightarrow> (fo_world, error) prog" where
  "failed stackID e = seq (raft_Apply stackID StateFailingOver StateFailed EventFailoverFailed) (\<lambda>_. ret (Some e))"

definition takeover_steps :: "runtime_yaml \<Rightarrow> string \<Rightarrow> int \<Rightarrow> stack_row \<Rightarrow> (fo_world, error) prog" where
  "takeover_steps RuntimeYAML stackID sequenceID st =
     guarded (fo_step stackID sequenceID 4 ''ip-takeover'' (takeoverIPs st)) (failed stackID)
     (guarded (fo_step stackID sequenceID 5 ''compose-up'' (startOnSecondary RuntimeYAML st)) (failed stackID)
     (guarded (fo_step stackID sequenceID 6 ''raft-apply'' (raft_Apply stackID StateFailingOver StateRunningBackup EventFailoverDone)) (failed stackID)
     (seq (notify_Create stackID True ''warning'' (''Failover complete: '' @ st_Name st)) (\<lambda>_. ret None))))"

text \<open>The part of the sequence during which it is registered and can be aborted, and the rest.\<close>

definition sequence_body :: "runtime_yaml \<Rightarrow> string \<Rightarrow> (fo_world, error) prog" where
  "sequence_body RuntimeYAML stackID = fetch (GetStack stackID True) (\<lambda>e. ret (Some (''failover: get stack: '' @ e))) (\<lambda>st.
     guarded (check_destination stackID True (st_BackupNodeID st)) (\<lambda>e. ret (Some e))
     (seq now (\<lambda>sequenceID.
       guarded (fo_step stackID sequenceID 1 ''raft-quorum'' (raft_Apply stackID StateRunningPrimary StateFailingOver EventFailoverStart)) (\<lambda>e. ret (Some e))
       (seq (fo_step stackID sequenceID 2 ''zfs-sync'' (attemptFinalSync True st)) (\<lambda>_.
        guarded (insert_step (skipped_row stackID sequenceID)) (failed stackID)
        (seq (modify (\<lambda>w. w\<lparr>fw_active := removeAll stackID (fw_active w)\<rparr>)) (\<lambda>_.
         seq (get fw_cancelled) (\<lambda>cancelled.
           if cancelled then failed stackID ''context canceled'' else takeover_steps RuntimeYAML stackID sequenceID st))))))))"

definition Execute :: "runtime_yaml \<Rightarrow> string \<Rightarrow> (fo_world, error) prog" where
  "Execute RuntimeYAML stackID = seq (get (\<lambda>w. stackID \<in> set (fw_active w))) (\<lambda>exists.
     if exists then ret (Some ''failover already active'')
     else seq (modify (\<lambda>w. w\<lparr>fw_active := stackID # fw_active w, fw_cancelled := False\<rparr>)) (\<lambda>_.
       seq (sequence_body RuntimeYAML stackID) (\<lambda>e.
         seq (modify (\<lambda>w. w\<lparr>fw_active := removeAll stackID (fw_active w)\<rparr>)) (\<lambda>_. ret e))))"

definition restore_address :: "stack_row \<Rightarrow> net_service \<Rightarrow> (fo_world, error) prog" where
  "restore_address st service =
     guarded (setActiveNode (st_ID st) False (st_PrimaryNodeID st)) (\<lambda>e. ret (Some e))
     (guarded (hosts_Execute (st_ID st) False (st_BackupNodeID st) ''net.service.del'' (Service service)) (\<lambda>e. ret (Some e))
     (guarded (hosts_Execute (st_ID st) False (st_PrimaryNodeID st) ''net.service.add'' (Service service)) (\<lambda>e. ret (Some e)) (ret None)))"

definition failback :: "runtime_yaml \<Rightarrow> string \<Rightarrow> (fo_world, error) prog" where
  "failback RuntimeYAML stackID = fetch (GetStack stackID False) (\<lambda>e. ret (Some (''failover: restore: get stack: '' @ e))) (\<lambda>st.
     guarded (check_destination stackID False (st_PrimaryNodeID st)) (\<lambda>e. ret (Some e))
     (guarded (raft_Apply stackID StateRunningBackup StateRestoring EventRestoreStart) (\<lambda>e. ret (Some (''failover: restore: raft Restoring: '' @ e)))
     (seq (hosts_Execute stackID False (st_BackupNodeID st) ''compose.down'' (ComposeDown stackID (st_ZFSDataset st))) (\<lambda>_.
      seq (attemptFinalSync False st) (\<lambda>_.
      fetch (stack_service stackID False) (\<lambda>e. ret (Some e)) (\<lambda>service.
      guarded (case service of Some sv \<Rightarrow> restore_address st sv | None \<Rightarrow> ret None) (\<lambda>e. ret (Some e))
      (guarded (startOnPrimary RuntimeYAML st)
         (\<lambda>e. seq (raft_Apply stackID StateRestoring StateFailed EventRestoreFailed) (\<lambda>_. ret (Some (''failover: restore: start on primary: '' @ e))))
      (guarded (raft_Apply stackID StateRestoring StateRunningPrimary EventRestoreDone) (\<lambda>e. ret (Some (''failover: restore: raft RunningPrimary: '' @ e)))
      (seq (notify_Create stackID False ''info'' (''Failback complete: '' @ st_Name st)) (\<lambda>_. ret None))))))))))"


section \<open>What every part of a sequence keeps\<close>

text \<open>
  An invariant of the calls for \<open>sid\<close>: \<open>may_send\<close> holds of the commands, \<open>may_move\<close> of the lifecycle
  states it is stable under.
\<close>

definition entry :: "string \<Rightarrow> state \<Rightarrow> state \<Rightarrow> event \<Rightarrow> int \<Rightarrow> state_changed" where
  "entry sid from to ev t = \<lparr>sc_StackID = sid, sc_From = from, sc_To = to, sc_Event = ev, sc_Timestamp = t, sc_NodeID = []\<rparr>"

locale sequence_invariant =
  fixes I :: "fo_world \<Rightarrow> bool" and sid :: string and may_send :: "sent \<Rightarrow> bool" and may_move :: "state \<Rightarrow> bool"
  assumes arrives: "I w \<Longrightarrow> I (arrive sid w)"
    and tables: "I w \<Longrightarrow> I (w\<lparr>fw_steps := x\<rparr>)" "I w \<Longrightarrow> I (w\<lparr>fw_ipam := y\<rparr>)" "I w \<Longrightarrow> I (w\<lparr>fw_notices := z\<rparr>)"
    and sending: "may_send c \<Longrightarrow> I w \<Longrightarrow> I (w\<lparr>fw_sent := c # fw_sent w\<rparr>)"
    and moving: "may_move to \<Longrightarrow> I w \<Longrightarrow> I (w\<lparr>fw_fsm := snd (fsm_Apply (Inr (entry sid from to ev t)) (fw_fsm w))\<rparr>)"
begin

lemma effect_keeps: "(\<And>w. I w \<Longrightarrow> I (upd w)) \<Longrightarrow> ensures I (effect sid bound sel upd) (\<lambda>_. True)"
  unfolding ensures_def triple_def wp_def effect_def Let_def by (auto simp: arrives split: result.splits)

lemma get_keeps: "ensures I (get f) (\<lambda>_. True)"
  by (rule ensures_get) simp

lemma now_keeps: "ensures I now (\<lambda>_. True)"
  unfolding now_def by (rule get_keeps)

lemma fo_query_keeps: "ensures I (fo_query sid bound f) (\<lambda>_. True)"
  unfolding fo_query_def by (rule ensures_seq [OF effect_keeps get_keeps]) simp

lemma hosts_Execute_keeps:
  "may_send \<lparr>sn_Node = node, sn_Command = command, sn_Payload = payload\<rparr> \<Longrightarrow> ensures I (hosts_Execute sid bound node command payload) (\<lambda>_. True)"
  unfolding hosts_Execute_def by (rule effect_keeps) (rule sending)

lemma raft_Apply_keeps: "may_move to \<Longrightarrow> ensures I (raft_Apply sid from to ev) (\<lambda>_. True)"
  unfolding raft_Apply_def entry_def [symmetric] by (rule ensures_seq [OF now_keeps], rule effect_keeps, rule moving)

lemma insert_step_keeps:
  assumes "sr_stack row = sid"
  shows "ensures I (insert_step row) (\<lambda>_. True)"
  unfolding insert_step_def assms
  by (intro ensures_seq [OF get_keeps] ensures_if ensures_seq [OF effect_keeps] ensures_ret effect_keeps tables TrueI) simp_all

lemma fo_step_keeps:
  assumes "ensures I action (\<lambda>_. True)"
  shows "ensures I (fo_step sid q n name action) (\<lambda>_. True)"
  unfolding fo_step_def Let_def record_step_def step_row.simps
  by (intro ensures_seq [OF now_keeps] ensures_guarded [OF insert_step_keeps] ensures_seq [OF assms] ensures_ret
      ensures_seq [OF effect_keeps] tables TrueI) simp_all

lemma stack_service_keeps: "ensures I (stack_service sid bound) (\<lambda>_. True)"
  unfolding stack_service_def by (rule fo_query_keeps)

lemma check_destination_keeps: "ensures I (check_destination sid bound node) (\<lambda>_. True)"
  unfolding check_destination_def by (rule ensures_seq [OF effect_keeps fo_query_keeps]) simp

lemma setActiveNode_keeps: "ensures I (setActiveNode sid bound node) (\<lambda>_. True)"
  unfolding setActiveNode_def by (rule effect_keeps) (rule tables)

lemma notify_keeps: "ensures I (notify_Create sid bound a b) (\<lambda>_. True)"
  unfolding notify_Create_def by (rule effect_keeps) (rule tables)

lemma GetStack_keeps: "ensures I (GetStack sid bound) (\<lambda>r. case r of Inl _ \<Rightarrow> True | Inr st \<Rightarrow> st_ID st = sid)"
  unfolding GetStack_def fo_query_def
  by (rule ensures_seq [OF effect_keeps], simp, rule ensures_get) (auto split: option.splits list.splits dest: filter_eq_ConsD)

lemma attemptFinalSync_keeps:
  assumes "st_ID st = sid" "\<And>p. may_send \<lparr>sn_Node = st_PrimaryNodeID st, sn_Command = ''fs.snapshot.create'', sn_Payload = p\<rparr>"
    "\<And>d s. may_send \<lparr>sn_Node = st_PrimaryNodeID st, sn_Command = ''fs.repl.send'', sn_Payload = ReplSend d s (st_BackupNodeID st) 9696\<rparr>"
  shows "ensures I (attemptFinalSync bound st) (\<lambda>_. True)"
  unfolding attemptFinalSync_def assms(1)
  by (intro ensures_if ensures_ret ensures_seq [OF now_keeps] ensures_sum ensures_guarded [OF hosts_Execute_keeps] assms(2,3) TrueI)

lemma takeoverIPs_keeps:
  assumes "st_ID st = sid" "\<And>p. may_send \<lparr>sn_Node = st_BackupNodeID st, sn_Command = ''net.service.add'', sn_Payload = p\<rparr>"
    "\<And>p. may_send \<lparr>sn_Node = st_BackupNodeID st, sn_Command = ''net.addr.add'', sn_Payload = p\<rparr>"
  shows "ensures I (takeoverIPs st) (\<lambda>_. True)"
proof -
  have tk: "ensures I (takeover_addresses st addrs) (\<lambda>_. True)" for addrs
    by (induction addrs) (simp_all add: assms(1), auto intro!: ensures_ret ensures_guarded [OF hosts_Execute_keeps] assms(3))
  show ?thesis unfolding takeoverIPs_def assms(1)
    by (intro ensures_if ensures_ret ensures_seq [OF stack_service_keeps] ensures_sum ensures_option ensures_guarded [OF setActiveNode_keeps]
        ensures_guarded [OF hosts_Execute_keeps] assms(2) TrueI ensures_seq [OF fo_query_keeps])
       (auto intro!: tk ensures_ret split: option.splits)
qed

lemma start_on_keeps:
  assumes "st_ID st = sid" "\<And>p. may_send \<lparr>sn_Node = node, sn_Command = ''compose.up'', sn_Payload = p\<rparr>"
  shows "ensures I (start_on rt bound node st) (\<lambda>_. True)"
  unfolding start_on_def runtimeCompose_def assms(1)
  by (intro ensures_seq [OF ensures_seq [OF stack_service_keeps]] ensures_ret ensures_sum hosts_Execute_keeps assms(2) TrueI)

end

lemma lead_seq:
  assumes "ensures I p R" "\<And>w. I w \<Longrightarrow> C w" "\<And>x. R x \<Longrightarrow> triple C I (f x) Q"
  shows "triple C I (seq p f) Q"
proof (rule triple_seq [where R = "\<lambda>x w. I w \<and> R x"])
  show "triple C I p (\<lambda>x w. I w \<and> R x)" using assms(1) unfolding ensures_def by (rule triple_weaken) (use assms(2) in auto)
  show "triple C (\<lambda>w. I w \<and> R x) (f x) Q" for x using assms(3) [of x] by (auto simp: triple_def)
qed

lemma lead_guarded:
  "ensures I p (\<lambda>_. True) \<Longrightarrow> (\<And>w. I w \<Longrightarrow> C w) \<Longrightarrow> (\<And>e. triple C I (h e) Q) \<Longrightarrow> triple C I k Q \<Longrightarrow> triple C I (guarded p h k) Q"
  unfolding guarded_def by (erule lead_seq) (auto split: option.splits)

lemma lead_fetch:
  "ensures I p R \<Longrightarrow> (\<And>w. I w \<Longrightarrow> C w) \<Longrightarrow> (\<And>e. triple C I (h e) Q) \<Longrightarrow> (\<And>x. R (Inr x) \<Longrightarrow> triple C I (k x) Q) \<Longrightarrow> triple C I (fetch p h k) Q"
  unfolding fetch_def by (erule lead_seq) (auto split: sum.splits)

lemma lead_end: "ensures I p R \<Longrightarrow> (\<And>w. I w \<Longrightarrow> C w) \<Longrightarrow> (\<And>x w. R x \<Longrightarrow> I w \<Longrightarrow> Q x w) \<Longrightarrow> triple C I p Q"
  unfolding ensures_def by (erule triple_weaken) auto

section \<open>An accepted abort\<close>

definition syncing :: "sent \<Rightarrow> bool" where
  "syncing c \<longleftrightarrow> sn_Command c = ''fs.snapshot.create'' \<or> sn_Command c = ''fs.repl.send''"

definition quiet :: "fo_world \<Rightarrow> bool" where "quiet w \<longleftrightarrow> list_all syncing (fw_sent w)"

definition unabortable :: "string \<Rightarrow> fo_world \<Rightarrow> bool" where
  "unabortable sid w \<longleftrightarrow> sid \<notin> set (fw_active w) \<and> \<not> fw_cancelled w"

interpretation quiet: sequence_invariant quiet sid syncing "\<lambda>_. True" for sid
  by unfold_locales (auto simp: quiet_def arrive_def Abort_def Let_def)

interpretation unabortable: sequence_invariant "unabortable sid" sid "\<lambda>_. True" "\<lambda>_. True" for sid
  by unfold_locales (auto simp: unabortable_def arrive_def Abort_def Let_def)

definition abort_holds :: "fo_world \<Rightarrow> bool" where "abort_holds w \<longleftrightarrow> (fw_cancelled w \<longrightarrow> quiet w)"

lemma abort_holds: "quiet w \<Longrightarrow> abort_holds w" "unabortable sid w \<Longrightarrow> abort_holds w"
  by (auto simp: abort_holds_def unabortable_def)

lemma takeover_steps_unabortable:
  assumes "st_ID st = sid"
  shows "ensures (unabortable sid) (takeover_steps rt sid q st) (\<lambda>_. True)"
  unfolding takeover_steps_def failed_def startOnSecondary_def
  by (intro ensures_guarded [OF unabortable.fo_step_keeps] unabortable.takeoverIPs_keeps unabortable.start_on_keeps assms
      unabortable.raft_Apply_keeps ensures_seq [OF unabortable.raft_Apply_keeps] ensures_seq [OF unabortable.notify_keeps] ensures_ret TrueI)

lemma failed_quiet: "ensures quiet (failed sid e) (\<lambda>_. True)"
  unfolding failed_def by (intro ensures_seq [OF quiet.raft_Apply_keeps] ensures_ret TrueI)

lemma point_of_no_return:
  assumes "st_ID st = sid"
  shows "triple abort_holds quiet (seq (modify (\<lambda>w. w\<lparr>fw_active := removeAll sid (fw_active w)\<rparr>)) (\<lambda>_. seq (get fw_cancelled) (\<lambda>cancelled.
     if cancelled then failed sid e else takeover_steps rt sid q st))) (\<lambda>_. abort_holds)"
  unfolding triple_def
proof (intro allI impI)
  fix w
  assume w: "quiet w"
  let ?w = "w\<lparr>fw_active := removeAll sid (fw_active w)\<rparr>"
  have 1: "triple abort_holds quiet (failed sid e) (\<lambda>_. abort_holds)" by (rule lead_end [OF failed_quiet]) (auto intro: abort_holds)
  have 2: "triple abort_holds (unabortable sid) (takeover_steps rt sid q st) (\<lambda>_. abort_holds)"
    by (rule lead_end [OF takeover_steps_unabortable [OF assms]]) (auto intro: abort_holds)
  show "wp (seq (modify (\<lambda>w. w\<lparr>fw_active := removeAll sid (fw_active w)\<rparr>)) (\<lambda>_. seq (get fw_cancelled) (\<lambda>cancelled.
     if cancelled then failed sid e else takeover_steps rt sid q st))) (\<lambda>r w'. case r of None \<Rightarrow> abort_holds w' | Some x \<Rightarrow> abort_holds w') w"
    using w 1 2 by (cases "fw_cancelled w") (auto simp: wp_simps triple_def quiet_def unabortable_def)
qed

lemma sequence_body_abort: "triple abort_holds quiet (sequence_body rt sid) (\<lambda>_. abort_holds)"
proof -
  note ah = abort_holds(1)
  have r: "triple abort_holds quiet (ret x) (\<lambda>_. abort_holds)" for x :: error by (auto intro: ah)
  have f: "triple abort_holds quiet (failed sid e) (\<lambda>_. abort_holds)" for e by (rule lead_end [OF failed_quiet]) (auto intro: ah)
  have sync: "ensures quiet (fo_step sid q n name (attemptFinalSync True st)) (\<lambda>_. True)" if "st_ID st = sid" for q n name st
    by (rule quiet.fo_step_keeps, rule quiet.attemptFinalSync_keeps [OF that]) (simp_all add: syncing_def)
  have skip: "ensures quiet (insert_step (skipped_row sid q)) (\<lambda>_. True)" for q
    by (rule quiet.insert_step_keeps) (simp add: skipped_row_def)
  show ?thesis unfolding sequence_body_def
    by (rule lead_fetch [OF quiet.GetStack_keeps ah r], assumption, rule lead_guarded [OF quiet.check_destination_keeps ah r], assumption,
        rule lead_seq [OF quiet.now_keeps ah], assumption, rule lead_guarded [OF quiet.fo_step_keeps [OF quiet.raft_Apply_keeps [OF TrueI]] ah r], assumption,
        rule lead_seq [OF sync ah], simp, assumption, rule lead_guarded [OF skip ah f], assumption, rule point_of_no_return, simp)
qed

text \<open>
  C6. An abort that was accepted is honoured. When a request to abort cancels the sequence, at any point
  and with any failures around it, no address is taken over and nothing is started on the backup:
  the only commands the sequence has sent are the final snapshot and its replication.\<close>

theorem accepted_abort_prevents_takeover:
  assumes "fw_sent w = []" "Execute rt sid w = (r, w')" "fw_cancelled w'" "sid \<notin> set (fw_active w)"
  shows "list_all syncing (fw_sent w')"
proof -
  have "triple abort_holds quiet (seq (sequence_body rt sid) (\<lambda>e. seq (modify (\<lambda>w. w\<lparr>fw_active := removeAll sid (fw_active w)\<rparr>)) (\<lambda>_. ret e))) (\<lambda>_. abort_holds)"
    by (rule triple_seq [OF sequence_body_abort], rule triple_seq [OF triple_modify triple_ret]) (auto simp: abort_holds_def quiet_def)
  from tripleD [OF this, of "w\<lparr>fw_active := sid # fw_active w, fw_cancelled := False\<rparr>" r w']
  have "abort_holds w'" using assms(1,2,4) by (auto simp: Execute_def seq_def get_def modify_def quiet_def split: option.splits)
  then show ?thesis using assms(3) by (simp add: abort_holds_def quiet_def)
qed
section \<open>How a failover ends\<close>

definition state_of :: "string \<Rightarrow> fo_world \<Rightarrow> state option" where
  "state_of sid w = map_option si_State (fsm_stacks (fw_fsm w) sid)"

definition up_on_backup :: "stack_row \<Rightarrow> fo_world \<Rightarrow> bool" where
  "up_on_backup st w \<longleftrightarrow> list_ex (\<lambda>c. sn_Node c = st_BackupNodeID st \<and> sn_Command c = ''compose.up'' \<and>
     (case sn_Payload c of ComposeUp sid ds _ \<Rightarrow> sid = st_ID st \<and> ds = st_ZFSDataset st | _ \<Rightarrow> False)) (fw_sent w)"

text \<open>
  Raft and the records of step outcomes work, \<open>sid\<close> is in state \<open>s\<close>, and the stack \<open>K\<close>, if any, has
  been started on its backup.
\<close>

definition steady :: "string \<Rightarrow> stack_row list \<Rightarrow> stack_row option \<Rightarrow> state option \<Rightarrow> fo_world \<Rightarrow> bool" where
  "steady sid S K s w \<longleftrightarrow> state_of sid w = s \<and> fw_stacks w = S \<and> (case K of None \<Rightarrow> True | Some st \<Rightarrow> up_on_backup st w) \<and>
     (\<forall>n. ft_Raft (fw_fates w n) = Done \<and> ft_Record (fw_fates w n) = Done)"

lemma steady_arrive: "steady sid S K s (arrive i w) \<longleftrightarrow> steady sid S K s w"
  by (simp add: steady_def state_of_def up_on_backup_def arrive_def Abort_def Let_def split: option.splits)

interpretation steady: sequence_invariant "steady sid S K s" sid "\<lambda>_. True" "\<lambda>_. False" for sid S K s
  by unfold_locales (auto simp: steady_arrive, auto simp: steady_def state_of_def up_on_backup_def split: option.splits)

abbreviation "anyhow \<equiv> \<lambda>_ :: fo_world. True"

lemma steady_raft: "triple anyhow (steady sid S K s) (raft_Apply sid from to ev) (\<lambda>e w. e = None \<and> steady sid S K (Some to) w)"
  unfolding triple_def raft_Apply_def now_def wp_simps effect_def Let_def
  by (auto simp: wp_def steady_def state_of_def up_on_backup_def arrive_def Abort_def fsm_Apply_def fanOut_def Let_def split: option.splits)

lemma steady_record:
  assumes "sr_stack row = sid"
  shows "triple anyhow (steady sid S K s) (record_step row err t) (\<lambda>e w. e = None \<and> steady sid S K s w)"
  unfolding triple_def record_step_def effect_def Let_def
  by (auto simp: wp_def steady_def state_of_def up_on_backup_def arrive_def Abort_def Let_def split: option.splits)

lemma steady_step:
  assumes "triple anyhow (steady sid S K s) action (\<lambda>e w. case e of None \<Rightarrow> steady sid S K1 s1 w | Some _ \<Rightarrow> steady sid S K2 s2 w)"
  shows "triple anyhow (steady sid S K s) (fo_step sid q n name action)
    (\<lambda>e w. case e of None \<Rightarrow> steady sid S K1 s1 w | Some _ \<Rightarrow> steady sid S K s w \<or> steady sid S K2 s2 w)"
proof -
  let ?Q = "\<lambda>e w. case e of None \<Rightarrow> steady sid S K1 s1 w | Some _ \<Rightarrow> steady sid S K s w \<or> steady sid S K2 s2 w"
  let ?k = "\<lambda>row err. seq now (\<lambda>t. seq (record_step row err t) (\<lambda>recordErr. ret (case err of Some e \<Rightarrow> Some e | None \<Rightarrow> recordErr)))"
  have rest: "triple anyhow ((\<lambda>e w. case e of None \<Rightarrow> steady sid S K1 s1 w | Some _ \<Rightarrow> steady sid S K2 s2 w) err) (?k row err) ?Q"
    if row: "sr_stack row = sid" for row err
  proof -
    have k: "triple anyhow (steady sid S L u) (?k row err) (\<lambda>e w. e = err \<and> steady sid S L u w)" for L u
      by (rule lead_seq [OF steady.now_keeps TrueI], rule triple_seq [OF steady_record [OF row]]) (auto split: option.splits)
    show ?thesis
    proof (cases err)
      case None
      then show ?thesis using triple_weaken [OF k [of K1 s1], of "steady sid S K1 s1" ?Q anyhow] by simp
    next
      case (Some e)
      then show ?thesis using triple_weaken [OF k [of K2 s2], of "steady sid S K2 s2" ?Q anyhow] by simp
    qed
  qed
  show ?thesis unfolding fo_step_def Let_def
    by (rule lead_seq [OF steady.now_keeps TrueI], rule lead_guarded [OF steady.insert_step_keeps TrueI], simp, rule triple_ret, simp,
        rule triple_seq [OF assms rest], simp)
qed

lemma steady_compose_up:
  assumes "st_ID st = sid"
  shows "triple anyhow (steady sid S None s) (hosts_Execute sid b (st_BackupNodeID st) ''compose.up'' (ComposeUp sid (st_ZFSDataset st) c))
    (\<lambda>e w. case e of None \<Rightarrow> steady sid S (Some st) s w | Some _ \<Rightarrow> steady sid S None s w)"
  using assms unfolding triple_def hosts_Execute_def effect_def Let_def
  by (auto simp: wp_def steady_arrive split: result.splits) (auto simp: steady_def state_of_def up_on_backup_def arrive_def Abort_def Let_def)

lemma steady_GetStack: "ensures (steady sid S K s) (GetStack sid b) (\<lambda>r. case r of Inl _ \<Rightarrow> True | Inr st \<Rightarrow> st_ID st = sid \<and> st \<in> set S)"
  unfolding GetStack_def fo_query_def
  by (rule ensures_seq [OF steady.effect_keeps], simp, rule ensures_get)
     (auto simp: steady_def split: option.splits list.splits dest!: filter_eq_ConsD)

lemma steady_start:
  assumes "st_ID st = sid"
  shows "triple anyhow (steady sid S None s) (startOnSecondary rt st) (\<lambda>e w. case e of None \<Rightarrow> steady sid S (Some st) s w | Some _ \<Rightarrow> steady sid S None s w)"
proof -
  have rc: "ensures (steady sid S None s) (runtimeCompose rt True st) (\<lambda>_. True)"
    unfolding runtimeCompose_def assms by (intro ensures_seq [OF steady.stack_service_keeps] ensures_ret TrueI)
  show ?thesis unfolding startOnSecondary_def start_on_def assms
    by (rule lead_seq [OF rc TrueI]) (auto simp: assms intro!: steady_compose_up split: sum.splits)
qed

lemma steady_failed: "triple anyhow (steady sid S K s) (failed sid e) (\<lambda>r w. r = Some e \<and> steady sid S K (Some StateFailed) w)"
  unfolding failed_def by (rule triple_seq [OF steady_raft]) auto

definition ended :: "string \<Rightarrow> stack_row list \<Rightarrow> state option \<Rightarrow> error \<Rightarrow> fo_world \<Rightarrow> bool" where
  "ended sid S s e w \<longleftrightarrow> (case e of
     None \<Rightarrow> state_of sid w = Some StateRunningBackup \<and> list_ex (\<lambda>st. st_ID st = sid \<and> up_on_backup st w) S
   | Some _ \<Rightarrow> state_of sid w = s \<or> state_of sid w = Some StateFailed)"

lemma steady_takeover:
  assumes "st_ID st = sid" "st \<in> set S"
  shows "triple anyhow (steady sid S None u) (takeover_steps rt sid q st) (ended sid S s)"
proof -
  let ?E = "ended sid S s"
  have f: "triple anyhow (steady sid S K v) (failed sid e) ?E" for K v e
    by (rule triple_weaken [OF steady_failed [of sid S K v e]]) (auto simp: ended_def steady_def)
  have ip: "ensures (steady sid S None u) (fo_step sid q 4 ''ip-takeover'' (takeoverIPs st)) (\<lambda>_. True)"
    by (intro steady.fo_step_keeps steady.takeoverIPs_keeps assms TrueI)
  have done_step: "triple anyhow (steady sid S (Some st) u) (raft_Apply sid StateFailingOver StateRunningBackup EventFailoverDone)
      (\<lambda>e w. case e of None \<Rightarrow> steady sid S (Some st) (Some StateRunningBackup) w | Some _ \<Rightarrow> steady sid S (Some st) u w)"
    by (rule triple_weaken [OF steady_raft]) auto
  have note_step: "triple anyhow (steady sid S (Some st) (Some StateRunningBackup)) (seq (notify_Create sid True a b) (\<lambda>_. ret None)) ?E" for a b
    by (rule lead_seq [OF steady.notify_keeps TrueI], rule triple_ret) (use assms in \<open>auto simp: ended_def steady_def list_ex_iff\<close>)
  have six: "triple anyhow (steady sid S (Some st) u) (guarded (fo_step sid q 6 ''raft-apply''
      (raft_Apply sid StateFailingOver StateRunningBackup EventFailoverDone)) (failed sid) (seq (notify_Create sid True a b) (\<lambda>_. ret None))) ?E" for a b
    by (rule triple_guarded [OF steady_step [OF done_step]]) (simp_all add: f note_step)
  have five: "triple anyhow (steady sid S None u) (guarded (fo_step sid q 5 ''compose-up'' (startOnSecondary rt st)) (failed sid) k) ?E"
    if "triple anyhow (steady sid S (Some st) u) k ?E" for k
    by (rule triple_guarded [OF steady_step [OF steady_start [OF assms(1)]]]) (simp_all add: f that)
  show ?thesis unfolding takeover_steps_def by (rule lead_guarded [OF ip TrueI f], rule five, rule six)
qed

lemma steady_body:
  "triple anyhow (steady sid S None s) (sequence_body rt sid) (ended sid S s)"
proof -
  let ?E = "ended sid S s"
  have r: "triple anyhow (steady sid S None s) (ret (Some e)) ?E" for e by (auto simp: ended_def steady_def)
  have f: "triple anyhow (steady sid S None (Some StateFailingOver)) (failed sid e) ?E" for e
    by (rule triple_weaken [OF steady_failed [of sid S None "Some StateFailingOver" e]]) (auto simp: ended_def steady_def)
  have start: "triple anyhow (steady sid S None s) (raft_Apply sid StateRunningPrimary StateFailingOver EventFailoverStart)
      (\<lambda>e w. case e of None \<Rightarrow> steady sid S None (Some StateFailingOver) w | Some _ \<Rightarrow> steady sid S None s w)"
    by (rule triple_weaken [OF steady_raft]) auto
  have sync: "ensures (steady sid S None u) (fo_step sid q 2 ''zfs-sync'' (attemptFinalSync True st)) (\<lambda>_. True)" if "st_ID st = sid" for u q st
    by (intro steady.fo_step_keeps steady.attemptFinalSync_keeps that TrueI)
  have skip: "ensures (steady sid S None u) (insert_step (skipped_row sid q)) (\<lambda>_. True)" for u q
    by (rule steady.insert_step_keeps) (simp add: skipped_row_def)
  have tail: "triple anyhow (steady sid S None (Some StateFailingOver)) (seq (modify (\<lambda>w. w\<lparr>fw_active := removeAll sid (fw_active w)\<rparr>)) (\<lambda>_.
      seq (get fw_cancelled) (\<lambda>cancelled. if cancelled then failed sid e else takeover_steps rt sid q st))) ?E"
    if "st_ID st = sid" "st \<in> set S" for e q st
    by (rule triple_seq [OF triple_modify [where Q = "\<lambda>_. steady sid S None (Some StateFailingOver)"]],
        simp add: steady_def state_of_def, rule lead_seq [OF steady.get_keeps TrueI]) (auto intro: f steady_takeover that)
  have raft: "triple anyhow (steady sid S None s) (guarded (fo_step sid q 1 ''raft-quorum'' (raft_Apply sid StateRunningPrimary StateFailingOver EventFailoverStart))
      (\<lambda>e. ret (Some e)) k) ?E" if "triple anyhow (steady sid S None (Some StateFailingOver)) k ?E" for q k
    by (rule triple_guarded [OF steady_step [OF start]]) (use that r in simp_all)
  show ?thesis unfolding sequence_body_def
    by (rule lead_fetch [OF steady_GetStack TrueI r], rule lead_guarded [OF steady.check_destination_keeps TrueI r],
        rule lead_seq [OF steady.now_keeps TrueI], rule raft, rule lead_seq [OF sync TrueI], simp,
        rule lead_guarded [OF skip TrueI f], rule tail) simp_all
qed

text \<open>
  C3. How a failover ends. With Raft and the records of the steps' outcomes working, whatever other call
  fails, whether it is aborted or not: when \<open>Execute\<close> reports success the stack is running on the backup
  and was started there; when it reports an error the stack is \<open>Failed\<close>, or in the state it had before
  if the failover never began. It is never left in the transitional state.\<close>

theorem failover_ends_in_a_stable_state:
  assumes "\<forall>n. ft_Raft (fw_fates w n) = Done \<and> ft_Record (fw_fates w n) = Done" "Execute rt sid w = (Some e, w')"
  shows "ended sid (fw_stacks w) (state_of sid w) e w'"
proof (cases "sid \<in> set (fw_active w)")
  case False
  let ?s = "state_of sid w" and ?S = "fw_stacks w"
  have "triple anyhow (steady sid ?S None ?s) (seq (sequence_body rt sid) (\<lambda>e. seq (modify (\<lambda>w. w\<lparr>fw_active := removeAll sid (fw_active w)\<rparr>)) (\<lambda>_. ret e)))
      (ended sid ?S ?s)"
    by (rule triple_seq [OF steady_body], rule triple_seq [OF triple_modify triple_ret])
       (auto simp: ended_def state_of_def up_on_backup_def list_ex_iff split: option.splits)
  from tripleD [OF this, of "w\<lparr>fw_active := sid # fw_active w, fw_cancelled := False\<rparr>" "Some e" w']
  show ?thesis using assms False by (auto simp: Execute_def seq_def get_def modify_def steady_def state_of_def split: option.splits)
next
  case True
  then show ?thesis using assms by (auto simp: Execute_def seq_def get_def ret_def ended_def)
qed

section \<open>What a failback replicates\<close>

definition outward :: "string \<Rightarrow> stack_row list \<Rightarrow> sent \<Rightarrow> bool" where
  "outward sid S c \<longleftrightarrow> sn_Command c = ''fs.repl.send'' \<longrightarrow> list_ex (\<lambda>st. st_ID st = sid \<and> sn_Node c = st_PrimaryNodeID st \<and>
     (case sn_Payload c of ReplSend _ _ dest _ \<Rightarrow> dest = st_BackupNodeID st | _ \<Rightarrow> False)) S"

definition outward_only :: "string \<Rightarrow> stack_row list \<Rightarrow> fo_world \<Rightarrow> bool" where
  "outward_only sid S w \<longleftrightarrow> fw_stacks w = S \<and> list_all (outward sid S) (fw_sent w)"

interpretation outward: sequence_invariant "outward_only sid S" sid "outward sid S" "\<lambda>_. True" for sid S
  by unfold_locales (auto simp: outward_only_def arrive_def Abort_def Let_def)

lemma outward_GetStack: "ensures (outward_only sid S) (GetStack sid b) (\<lambda>r. case r of Inl _ \<Rightarrow> True | Inr st \<Rightarrow> st_ID st = sid \<and> st \<in> set S)"
  unfolding GetStack_def fo_query_def
  by (rule ensures_seq [OF outward.effect_keeps], simp, rule ensures_get)
     (auto simp: outward_only_def split: option.splits list.splits dest!: filter_eq_ConsD)

lemma outward_failback: "ensures (outward_only sid S) (failback rt sid) (\<lambda>_. True)"
proof -
  let ?I = "outward_only sid S"
  have other: "sn_Command c \<noteq> ''fs.repl.send'' \<Longrightarrow> outward sid S c" for c by (simp add: outward_def)
  have addr: "ensures ?I (restore_address st sv) (\<lambda>_. True)" if "st_ID st = sid" for st sv
    unfolding restore_address_def that
    by (intro ensures_guarded [OF outward.setActiveNode_keeps] ensures_guarded [OF outward.hosts_Execute_keeps [OF other]] ensures_ret TrueI) simp_all
  have sync: "ensures ?I (attemptFinalSync False st) (\<lambda>_. True)" if "st_ID st = sid" "st \<in> set S" for st
    by (rule outward.attemptFinalSync_keeps [OF that(1)]) (use that in \<open>auto simp: outward_def list_ex_iff\<close>)
  have up: "ensures ?I (startOnPrimary rt st) (\<lambda>_. True)" if "st_ID st = sid" for st
    unfolding startOnPrimary_def by (rule outward.start_on_keeps [OF that], rule other) simp
  have opt: "ensures ?I (case service of Some sv \<Rightarrow> restore_address st sv | None \<Rightarrow> ret None) (\<lambda>_. True)" if "st_ID st = sid" for st service
    by (cases service) (auto intro: addr [OF that] ensures_ret)
  show ?thesis unfolding failback_def
    by (rule ensures_fetch [OF outward_GetStack], rule ensures_ret, rule TrueI, simp only: sum.case, elim conjE,
        intro ensures_guarded [OF outward.check_destination_keeps] ensures_guarded [OF outward.raft_Apply_keeps] ensures_seq [OF outward.hosts_Execute_keeps [OF other]]
          ensures_seq [OF sync] ensures_fetch [OF outward.stack_service_keeps] ensures_guarded [OF opt] ensures_guarded [OF up]
          ensures_seq [OF outward.raft_Apply_keeps] ensures_seq [OF outward.notify_keeps] ensures_ret TrueI) simp_all
qed

text \<open>
  C36. Failback does not bring the backup's data home. Every replication a failback sends goes from the
  primary to the backup, the same direction as before the failover; nothing written while the stack
  ran on the backup is sent to the primary on which it is started again.\<close>

theorem failback_replicates_outward_only:
  assumes "fw_sent w = []"
  shows "list_all (outward sid (fw_stacks w)) (fw_sent (snd (failback rt sid w)))"
  using ensures_inv [OF outward_failback, of sid "fw_stacks w" w rt] assms by (simp add: outward_only_def)

section \<open>The properties on a concrete stack\<close>

definition demo_stack :: stack_row where
  "demo_stack = \<lparr>st_ID = ''s1'', st_Name = ''web'', st_Icon = [], st_PrimaryNodeID = ''a'', st_BackupNodeID = ''b'', st_ComposeYAML = ''services'',
     st_ZFSDataset = ''floatlab/s1'', st_SnapshotSchedule = [], st_ReplicationSchedule = [], st_BackupSchedule = [], st_BackupTarget = [],
     st_FailoverMode = ''auto'', st_AutoTriggerAfter = ''120s'', st_CreatedAt = 0, st_UpdatedAt = 0\<rparr>"

definition demo_fate :: fate where "demo_fate = \<lparr>ft_Abort = False, ft_Call = Done, ft_Raft = Done, ft_Record = Done\<rparr>"

definition demo_fo :: "(nat \<Rightarrow> fate) \<Rightarrow> state \<Rightarrow> fo_world" where
  "demo_fo fates s = \<lparr>fw_stacks = [demo_stack], fw_ipam = \<lparr>db_pools = [], db_scope = Map.empty, db_members = [], db_ranges = [], db_allocations = [],
       db_runtime = [], db_dns_outbox = [], db_reservations = []\<rparr>, fw_reservations = [(''s1'', ''10.0.0.5/24'')], fw_steps = [],
     fw_fsm = NewFSM\<lparr>fsm_stacks := [''s1'' \<mapsto> (new_instance ''s1'')\<lparr>si_State := s\<rparr>]\<rparr>, fw_active = [], fw_cancelled = False, fw_sent = [],
     fw_notices = [], fw_count = 0, fw_fates = fates, fw_wall = (\<lambda>_. 1800000000000000000), fw_hosts = (\<lambda>_. Inl [])\<rparr>"

definition demo_yaml :: runtime_yaml where "demo_yaml y name ip = Inr y"

text \<open>Running a sequence call by call.\<close>

lemma seq_run: "seq m f w = (case m w of (None, w') \<Rightarrow> (None, w') | (Some x, w') \<Rightarrow> f x w')"
  by (simp add: seq_def split: prod.splits option.splits)

lemma effect_run: "effect sid b sel upd w = (if b \<and> fw_cancelled (arrive sid w) then (Some (Some ''context canceled''), arrive sid w)
  else case sel (fw_fates w (fw_count w)) of Done \<Rightarrow> (Some None, upd (arrive sid w)) | Refused e \<Rightarrow> (Some (Some e), arrive sid w)
   | Doubtful e \<Rightarrow> (Some (Some e), upd (arrive sid w)) | Crash \<Rightarrow> (None, arrive sid w))"
  by (simp add: effect_def Let_def)

lemma demo_name: "AutomatedSnapshotName 1800000000000000000 = Inr ''fl-0ME6C0''"
  by code_simp

lemmas run_simps = seq_run get_def modify_def ret_def guarded_def fetch_def effect_run arrive_def Abort_def Let_def now_def fo_query_def GetStack_def stack_service_def
  check_destination_def hosts_Execute_def raft_Apply_def insert_step_def record_step_def fo_step_def same_step_def skipped_row_def
  attemptFinalSync_def takeoverIPs_def setActiveNode_def notify_Create_def runtimeCompose_def start_on_def startOnSecondary_def startOnPrimary_def
  failed_def takeover_steps_def sequence_body_def Execute_def failback_def restore_address_def StackService_def CheckStackDestination_def
  demo_fo_def demo_stack_def demo_fate_def demo_yaml_def state_of_def fsm_Apply_def fanOut_def new_instance_def NewFSM_def

lemma demo_execute: "fst (Execute demo_yaml ''s1'' (demo_fo (\<lambda>_. demo_fate) StateRunningPrimary)) = Some None"
  by (simp add: run_simps demo_name)

theorem failover_ends_in_a_stable_state_witness:
  "state_of ''s1'' (snd (Execute demo_yaml ''s1'' (demo_fo (\<lambda>_. demo_fate) StateRunningPrimary))) = Some StateRunningBackup"
proof -
  let ?w = "demo_fo (\<lambda>_. demo_fate) StateRunningPrimary"
  have "ended ''s1'' (fw_stacks ?w) (state_of ''s1'' ?w) None (snd (Execute demo_yaml ''s1'' ?w))"
  proof (rule failover_ends_in_a_stable_state)
    show "\<forall>n. ft_Raft (fw_fates ?w n) = Done \<and> ft_Record (fw_fates ?w n) = Done" by (simp add: demo_fo_def demo_fate_def)
    show "Execute demo_yaml ''s1'' ?w = (Some None, snd (Execute demo_yaml ''s1'' ?w))" by (subst demo_execute [symmetric]) simp
  qed
  then show ?thesis by (simp add: ended_def)
qed

definition demo_abort :: "nat \<Rightarrow> fate" where "demo_abort n = demo_fate\<lparr>ft_Abort := (n = 6)\<rparr>"

lemma demo_aborted: "fw_cancelled (snd (Execute demo_yaml ''s1'' (demo_fo demo_abort StateRunningPrimary)))"
  by (simp add: run_simps demo_name demo_abort_def)

theorem accepted_abort_prevents_takeover_witness:
  "list_all syncing (fw_sent (snd (Execute demo_yaml ''s1'' (demo_fo demo_abort StateRunningPrimary))))"
  by (rule accepted_abort_prevents_takeover [OF _ surjective_pairing demo_aborted]) (simp_all add: demo_fo_def)

theorem failback_replicates_outward_only_witness:
  "list_all (outward ''s1'' [demo_stack]) (fw_sent (snd (failback demo_yaml ''s1'' (demo_fo (\<lambda>_. demo_fate) StateRunningBackup)))) \<and>
   fst (failback demo_yaml ''s1'' (demo_fo (\<lambda>_. demo_fate) StateRunningBackup)) = Some None"
proof
  show "list_all (outward ''s1'' [demo_stack]) (fw_sent (snd (failback demo_yaml ''s1'' (demo_fo (\<lambda>_. demo_fate) StateRunningBackup))))"
    using failback_replicates_outward_only [of "demo_fo (\<lambda>_. demo_fate) StateRunningBackup" "''s1''" demo_yaml] by (simp add: demo_fo_def)
  show "fst (failback demo_yaml ''s1'' (demo_fo (\<lambda>_. demo_fate) StateRunningBackup)) = Some None" by (simp add: run_simps demo_name)
qed

text \<open>
  When only the record of step 1's outcome fails, the failover returns its error without moving the
  stack to \<open>Failed\<close>: it stays in \<open>FailingOver\<close>, which no other operation leaves.
\<close>

theorem unrecorded_start_strands_failover:
  "(let r = Execute demo_yaml ''s1'' (demo_fo (\<lambda>_. demo_fate\<lparr>ft_Record := Refused ''no leader''\<rparr>) StateRunningPrimary) in
     fst r = Some (Some ''no leader'') \<and> state_of ''s1'' (snd r) = Some StateFailingOver)"
  by (simp add: run_simps demo_name)

text \<open>When the lookup of the stack's address fails, a failback returns its error with the stack still \<open>Restoring\<close>.\<close>

theorem unread_address_strands_failback:
  "(let r = failback demo_yaml ''s1'' (demo_fo (\<lambda>n. if n = 7 then demo_fate\<lparr>ft_Call := Refused ''no leader''\<rparr> else demo_fate) StateRunningBackup) in
     fst r = Some (Some ''no leader'') \<and> state_of ''s1'' (snd r) = Some StateRestoring)"
  by (simp add: run_simps demo_name)

end
