(* ===== verification/Failover_Detector.thy ===== *)
theory Failover_Detector
  imports Failover
begin

text \<open>
  The failover detector (\<open>internal/failover/detector.go\<close>): every ten seconds it asks the primary of each
  running stack, remembers since when it has been unreachable, and triggers the failover of a stack in
  automatic mode after its threshold. \<open>ParseDuration\<close> is an argument.
\<close>

section \<open>A tick\<close>

text \<open>
  What a tick reads: the stacks, or an error; the state map; the answer of each stack's primary; and the
  clock at the point of the loop where the stack is handled.
\<close>

record tick_input =
  ti_stacks :: "string + stack_row list"
  ti_fsm :: fsm
  ti_ping :: "stack_row \<Rightarrow> bool"
  ti_now :: "stack_row \<Rightarrow> int"

record detector =
  d_downSince :: "string \<rightharpoonup> int"
  d_triggered :: "string list"

definition running_primary :: "fsm \<Rightarrow> string \<Rightarrow> bool" where
  "running_primary f sid = (case fsm_State f sid of None \<Rightarrow> False | Some inst \<Rightarrow> si_State inst = StateRunningPrimary)"

definition tick_stack :: "(string \<Rightarrow> string + int) \<Rightarrow> tick_input \<Rightarrow> stack_row \<Rightarrow> detector \<Rightarrow> detector" where
  "tick_stack ParseDuration i st d =
     (if \<not> running_primary (ti_fsm i) (st_ID st) then d\<lparr>d_downSince := (d_downSince d)(st_ID st := None)\<rparr>
      else if ti_ping i st then d\<lparr>d_downSince := (d_downSince d)(st_ID st := None)\<rparr>
      else case d_downSince d (st_ID st) of
        None \<Rightarrow> d\<lparr>d_downSince := (d_downSince d)(st_ID st \<mapsto> ti_now i st)\<rparr>
      | Some since \<Rightarrow>
          if st_FailoverMode st \<noteq> ''auto'' \<or> st_AutoTriggerAfter st = [] then d
          else case ParseDuration (st_AutoTriggerAfter st) of Inl _ \<Rightarrow> d
            | Inr threshold \<Rightarrow>
                if threshold \<le> ti_now i st - since
                then d\<lparr>d_downSince := (d_downSince d)(st_ID st := None), d_triggered := d_triggered d @ [st_ID st]\<rparr>
                else d)"

primrec tick_stacks :: "(string \<Rightarrow> string + int) \<Rightarrow> tick_input \<Rightarrow> stack_row list \<Rightarrow> detector \<Rightarrow> detector" where
  "tick_stacks ParseDuration i [] d = d"
| "tick_stacks ParseDuration i (st # sts) d = tick_stacks ParseDuration i sts (tick_stack ParseDuration i st d)"

definition activeIDs :: "tick_input \<Rightarrow> stack_row list \<Rightarrow> string list" where
  "activeIDs i stacks = map st_ID (filter (\<lambda>st. running_primary (ti_fsm i) (st_ID st)) stacks)"

definition detector_tick :: "(string \<Rightarrow> string + int) \<Rightarrow> tick_input \<Rightarrow> detector \<Rightarrow> detector" where
  "detector_tick ParseDuration i d = (case ti_stacks i of Inl _ \<Rightarrow> d\<lparr>d_triggered := []\<rparr>
     | Inr stacks \<Rightarrow> (let d1 = tick_stacks ParseDuration i stacks (d\<lparr>d_triggered := []\<rparr>) in
         d1\<lparr>d_downSince := (\<lambda>sid. if sid \<in> set (activeIDs i stacks) then d_downSince d1 sid else None)\<rparr>))"

definition NewDetector :: detector where "NewDetector = \<lparr>d_downSince = Map.empty, d_triggered = []\<rparr>"

section \<open>What a trigger means\<close>

text \<open>The tick found the primary of \<open>st\<close> unreachable.\<close>

definition missed :: "tick_input \<Rightarrow> stack_row \<Rightarrow> bool" where
  "missed i st \<longleftrightarrow> (case ti_stacks i of Inl _ \<Rightarrow> False | Inr stacks \<Rightarrow> st \<in> set stacks) \<and>
     running_primary (ti_fsm i) (st_ID st) \<and> \<not> ti_ping i st"

text \<open>A readable list of stacks has one row for every ID.\<close>

definition keyed :: "tick_input \<Rightarrow> bool" where
  "keyed i \<longleftrightarrow> (case ti_stacks i of Inl _ \<Rightarrow> True | Inr stacks \<Rightarrow> distinct (map st_ID stacks))"

lemma tick_stack_other: "st_ID st \<noteq> sid \<Longrightarrow> d_downSince (tick_stack P i st d) sid = d_downSince d sid"
  by (auto simp: tick_stack_def split: option.splits sum.splits)

lemma tick_stack_triggers: "set (d_triggered (tick_stack P i st d)) \<subseteq> insert (st_ID st) (set (d_triggered d))"
  by (auto simp: tick_stack_def split: option.splits sum.splits)

lemma tick_stacks_other:
  "sid \<notin> st_ID ` set sts \<Longrightarrow> d_downSince (tick_stacks P i sts d) sid = d_downSince d sid \<and>
     (sid \<in> set (d_triggered (tick_stacks P i sts d)) \<longleftrightarrow> sid \<in> set (d_triggered d))"
proof (induction sts arbitrary: d)
  case (Cons st sts)
  have "sid \<in> set (d_triggered (tick_stack P i st d)) \<longleftrightarrow> sid \<in> set (d_triggered d)"
    using Cons.prems by (auto simp: tick_stack_def split: option.splits sum.splits)
  then show ?case using Cons by (auto simp: tick_stack_other)
qed simp

lemma tick_stacks_entry:
  assumes "distinct (map st_ID sts)" "st \<in> set sts" "st_ID st \<notin> set (d_triggered d)"
  shows "d_downSince (tick_stacks P i sts d) (st_ID st) = d_downSince (tick_stack P i st d) (st_ID st) \<and>
    (st_ID st \<in> set (d_triggered (tick_stacks P i sts d)) \<longleftrightarrow> st_ID st \<in> set (d_triggered (tick_stack P i st d)))"
  using assms
proof (induction sts arbitrary: d)
  case (Cons x sts)
  show ?case
  proof (cases "x = st")
    case True
    then have "st_ID st \<notin> st_ID ` set sts" using Cons.prems(1) by auto
    from tick_stacks_other [OF this, of P i "tick_stack P i st d"] show ?thesis using True by simp
  next
    case False
    then have ne: "st_ID x \<noteq> st_ID st" and st: "st \<in> set sts" using Cons.prems(1,2) by auto
    have nt: "st_ID st \<notin> set (d_triggered (tick_stack P i x d))" using tick_stack_triggers [of P i x d] ne Cons.prems(3) by auto
    have e: "d_downSince (tick_stack P i x d) (st_ID st) = d_downSince d (st_ID st)" by (rule tick_stack_other [OF ne])
    have "d_downSince (tick_stack P i st (tick_stack P i x d)) (st_ID st) = d_downSince (tick_stack P i st d) (st_ID st) \<and>
      (st_ID st \<in> set (d_triggered (tick_stack P i st (tick_stack P i x d))) \<longleftrightarrow> st_ID st \<in> set (d_triggered (tick_stack P i st d)))"
      using nt Cons.prems(3) unfolding tick_stack_def [of P i st] e by (auto simp: e split: option.splits sum.splits)
    then show ?thesis using Cons.IH [OF _ st nt] Cons.prems(1) by simp
  qed
qed simp

text \<open>The evidence behind an entry of \<open>downSince\<close> after the ticks \<open>hist\<close>.\<close>

definition evidence :: "tick_input list \<Rightarrow> string \<Rightarrow> int \<Rightarrow> bool" where
  "evidence hist sid t \<longleftrightarrow> (\<exists>before i after st. hist = before @ i # after \<and> missed i st \<and> st_ID st = sid \<and> ti_now i st = t \<and>
     (\<forall>j \<in> set after. (\<exists>e. ti_stacks j = Inl e) \<or> (\<exists>st'. missed j st' \<and> st_ID st' = sid)))"

lemma evidence_extend:
  assumes "evidence hist sid t" "(\<exists>e. ti_stacks j = Inl e) \<or> (\<exists>st'. missed j st' \<and> st_ID st' = sid)"
  shows "evidence (hist @ [j]) sid t"
proof -
  obtain before i after st where h: "hist = before @ i # after" "missed i st" "st_ID st = sid" "ti_now i st = t"
    "\<forall>j \<in> set after. (\<exists>e. ti_stacks j = Inl e) \<or> (\<exists>st'. missed j st' \<and> st_ID st' = sid)" using assms(1) unfolding evidence_def by blast
  show ?thesis unfolding evidence_def
    by (rule exI [of _ before], rule exI [of _ i], rule exI [of _ "after @ [j]"], rule exI [of _ st]) (use h assms(2) in auto)
qed


lemma evidence_new: "missed i st \<Longrightarrow> evidence (hist @ [i]) (st_ID st) (ti_now i st)"
  unfolding evidence_def by (rule exI [of _ hist], rule exI [of _ i], rule exI [of _ "[]"], rule exI [of _ st]) simp

text \<open>One tick, seen from one stack.\<close>

lemma tick_entry:
  assumes "keyed i" "d_downSince (detector_tick P i d) sid = Some t"
  shows "(d_downSince d sid = Some t \<and> ((\<exists>e. ti_stacks i = Inl e) \<or> (\<exists>st. missed i st \<and> st_ID st = sid))) \<or>
    (\<exists>st. missed i st \<and> st_ID st = sid \<and> ti_now i st = t)"
proof (cases "ti_stacks i")
  case (Inr stacks)
  let ?d = "d\<lparr>d_triggered := []\<rparr>"
  have a: "sid \<in> set (activeIDs i stacks)" and t: "d_downSince (tick_stacks P i stacks ?d) sid = Some t"
    using assms(2) Inr by (auto simp: detector_tick_def Let_def split: if_splits)
  then obtain st where st: "st \<in> set stacks" "st_ID st = sid" "running_primary (ti_fsm i) sid" by (auto simp: activeIDs_def)
  have "d_downSince (tick_stack P i st ?d) sid = Some t"
    using tick_stacks_entry [of stacks st ?d P i] assms(1) Inr st t by (simp add: keyed_def)
  then show ?thesis using st Inr by (auto simp: tick_stack_def missed_def split: if_splits option.splits sum.splits)
qed (use assms in \<open>auto simp: detector_tick_def\<close>)

lemma tick_trigger:
  assumes "keyed i" "sid \<in> set (d_triggered (detector_tick P i d))"
  shows "\<exists>st since threshold. missed i st \<and> st_ID st = sid \<and> st_FailoverMode st = ''auto'' \<and> d_downSince d sid = Some since \<and>
    P (st_AutoTriggerAfter st) = Inr threshold \<and> threshold \<le> ti_now i st - since"
proof (cases "ti_stacks i")
  case (Inr stacks)
  let ?d = "d\<lparr>d_triggered := []\<rparr>"
  have t: "sid \<in> set (d_triggered (tick_stacks P i stacks ?d))" using assms(2) Inr by (auto simp: detector_tick_def Let_def)
  then obtain st where st: "st \<in> set stacks" "st_ID st = sid" using tick_stacks_other [of sid stacks P i ?d] by auto
  have "sid \<in> set (d_triggered (tick_stack P i st ?d))"
    using tick_stacks_entry [of stacks st ?d P i] assms(1) Inr st t by (simp add: keyed_def)
  then show ?thesis using st Inr by (auto simp: tick_stack_def missed_def split: if_splits option.splits sum.splits)
qed (use assms in \<open>auto simp: detector_tick_def\<close>)

lemma entries_have_evidence:
  "list_all keyed hist \<Longrightarrow> d_downSince (runs (detector_tick P) hist NewDetector) sid = Some t \<Longrightarrow> evidence hist sid t"
proof (induction hist arbitrary: sid t rule: rev_induct)
  case (snoc i hist)
  let ?d = "runs (detector_tick P) hist NewDetector"
  have k: "keyed i" "list_all keyed hist" using snoc.prems(1) by auto
  have "d_downSince (detector_tick P i ?d) sid = Some t" using snoc.prems(2) by (simp add: runs_append)
  from tick_entry [OF k(1) this] show ?case using snoc.IH [OF k(2)] by (auto intro: evidence_extend evidence_new)
qed (simp add: NewDetector_def)

text \<open>
  C17. A failover is triggered only after an unbroken outage. When a tick triggers the failover of a stack,
  the stack is in automatic mode, it was seen running on an unreachable primary at an earlier tick at
  least its threshold ago, and every tick since then that could read the stacks found it so again.\<close>

theorem trigger_follows_unbroken_outage:
  assumes "list_all keyed (hist @ [i])" "sid \<in> set (d_triggered (runs (detector_tick P) (hist @ [i]) NewDetector))"
  shows "\<exists>st since threshold. missed i st \<and> st_ID st = sid \<and> st_FailoverMode st = ''auto'' \<and>
    P (st_AutoTriggerAfter st) = Inr threshold \<and> threshold \<le> ti_now i st - since \<and> evidence hist sid since"
proof -
  have k: "keyed i" "list_all keyed hist" using assms(1) by auto
  have "sid \<in> set (d_triggered (detector_tick P i (runs (detector_tick P) hist NewDetector)))" using assms(2) by (simp add: runs_append)
  from tick_trigger [OF k(1) this] show ?thesis using entries_have_evidence [OF k(2)] by blast
qed

definition demo_tick :: "int \<Rightarrow> tick_input" where
  "demo_tick t = \<lparr>ti_stacks = Inr [demo_stack], ti_fsm = fw_fsm (demo_fo (\<lambda>_. demo_fate) StateRunningPrimary), ti_ping = (\<lambda>_. False), ti_now = (\<lambda>_. t)\<rparr>"

theorem trigger_follows_unbroken_outage_witness:
  "\<exists>since. evidence [demo_tick 0, demo_tick 60] ''s1'' since \<and> 120 \<le> 130 - since"
proof -
  let ?P = "\<lambda>_. Inr 120 :: string + int"
  have k: "list_all keyed ([demo_tick 0, demo_tick 60] @ [demo_tick 130])" by (simp add: keyed_def demo_tick_def)
  have "''s1'' \<in> set (d_triggered (runs (detector_tick ?P) ([demo_tick 0, demo_tick 60] @ [demo_tick 130]) NewDetector))"
    by (simp add: demo_tick_def detector_tick_def tick_stack_def activeIDs_def running_primary_def fsm_State_def NewDetector_def Let_def
        demo_fo_def demo_stack_def NewFSM_def)
  from trigger_follows_unbroken_outage [OF k this] show ?thesis by (auto simp: demo_tick_def)
qed

end
