(* ===== verification/Task_Queue.thy ===== *)
theory Task_Queue
  imports Stack_Lifecycle
begin

text \<open>
  The task queue (\<open>internal/worker/queue.go\<close>): the \<open>tasks\<close> table, the claim of the oldest due task, and
  the retries of a task whose handler fails. A handler is an argument: it takes the payload and the
  rows of the table, changes the state of the hosts, and may save payloads (as the handler of a restore from backup does for its own
  task, \<open>saveBackupRestore\<close> in \<open>backup_restore.go\<close>); it does not touch the other columns. Times are seconds, as SQLite's
  \<open>datetime('now')\<close>; rows with equal keys keep the order of the table.
\<close>

section \<open>Tasks\<close>

text \<open>What \<open>json.Unmarshal\<close> finds in a payload: the fields that the worker itself reads, and the rest.\<close>

datatype 'p payload_text = NotJSON | Payload (pt_operation: "string option") (pt_stack: string) (pt_restore: "(string \<times> string) option") (pt_body: 'p)

record 'p task =
  t_id :: string
  t_type :: string
  t_stack :: string
  t_payload :: "'p payload_text"
  t_state :: string
  t_attempts :: int
  t_locked_by :: "string option"
  t_error :: string
  t_created :: int
  t_updated :: int

definition maxAttempts :: int where "maxAttempts = 5"

definition backoffFactor :: int where "backoffFactor = 60"

definition due :: "int \<Rightarrow> 'p task \<Rightarrow> bool" where
  "due now t \<longleftrightarrow> t_state t = ''pending'' \<and> t_attempts t < maxAttempts \<and>
     (t_attempts t = 0 \<or> t_updated t \<le> now - t_attempts t * backoffFactor)"

definition oldest_due :: "int \<Rightarrow> 'p task list \<Rightarrow> 'p task option" where
  "oldest_due now tasks = (case sort_key t_created (filter (due now) tasks) of [] \<Rightarrow> None | t # _ \<Rightarrow> Some t)"

definition update_task :: "string \<Rightarrow> ('p task \<Rightarrow> 'p task) \<Rightarrow> 'p task list \<Rightarrow> 'p task list" where
  "update_task i f tasks = map (\<lambda>t. if t_id t = i then f t else t) tasks"

definition claim :: "string \<Rightarrow> int \<Rightarrow> 'p task list \<Rightarrow> nat \<times> 'p task list" where
  "claim worker now tasks = (case oldest_due now tasks of None \<Rightarrow> (0, tasks)
     | Some t \<Rightarrow> (1, update_task (t_id t) (\<lambda>t. t\<lparr>t_state := ''running'', t_locked_by := Some worker, t_updated := now\<rparr>) tasks))"

definition claimed :: "string \<Rightarrow> 'p task list \<Rightarrow> 'p task option" where
  "claimed worker tasks =
     (case sort_key (\<lambda>t. - t_updated t) (filter (\<lambda>t. t_state t = ''running'' \<and> t_locked_by t = Some worker) tasks) of
        [] \<Rightarrow> None | t # _ \<Rightarrow> Some t)"

definition done_task :: "int \<Rightarrow> 'p task \<Rightarrow> 'p task" where
  "done_task now t = t\<lparr>t_state := ''done'', t_error := [], t_updated := now, t_locked_by := None\<rparr>"

definition retry_task :: "string \<Rightarrow> int \<Rightarrow> 'p task \<Rightarrow> 'p task" where
  "retry_task e now t = t\<lparr>t_state := ''pending'', t_attempts := t_attempts t + 1, t_error := e, t_updated := now, t_locked_by := None\<rparr>"

definition give_up_task :: "string \<Rightarrow> int \<Rightarrow> 'p task \<Rightarrow> 'p task" where
  "give_up_task e now t = t\<lparr>t_state := ''failed'', t_attempts := t_attempts t + 1, t_error := e, t_updated := now, t_locked_by := None\<rparr>"

section \<open>The worker\<close>

record lifecycle_event =
  le_ID :: string
  le_OccurredAt :: int
  le_StackID :: string
  le_Type :: string
  le_Outcome :: string
  le_Actor :: string
  le_OperationID :: string
  le_Containers :: string
  le_Details :: string
  le_Error :: string

text \<open>Operations are rows of ID, state, checkpoint, error and time of update; \<open>q_uuid\<close> supplies fresh identifiers.\<close>

record ('p, 'h) worker_world =
  q_tasks :: "'p task list"
  q_ops :: "(string \<times> string \<times> string \<times> string \<times> int) list"
  q_events :: "lifecycle_event list"
  q_fsm :: fsm
  q_hosts :: 'h
  q_executed :: "string list"
  q_count :: nat
  q_fates :: "nat \<Rightarrow> result"
  q_now :: "nat \<Rightarrow> int"
  q_uuid :: "nat \<Rightarrow> string"

type_synonym ('p, 'h) handler = "'p payload_text \<Rightarrow> 'p task list \<Rightarrow> 'h \<Rightarrow> error \<times> 'h \<times> (string \<times> 'p payload_text) list"

text \<open>A statement that the database executes at its own time.\<close>

definition statement :: "(int \<Rightarrow> ('p, 'h) worker_world \<Rightarrow> 'a \<times> ('p, 'h) worker_world) \<Rightarrow> (('p, 'h) worker_world, string + 'a) prog" where
  "statement f w = (let w1 = w\<lparr>q_count := Suc (q_count w)\<rparr>; now = q_now w (q_count w) in
     case q_fates w (q_count w) of
       Done \<Rightarrow> (case f now w1 of (x, w2) \<Rightarrow> (Some (Inr x), w2))
     | Refused e \<Rightarrow> (Some (Inl e), w1)
     | Doubtful e \<Rightarrow> (Some (Inl e), snd (f now w1))
     | Crash \<Rightarrow> (None, w1))"

definition on_tasks :: "(int \<Rightarrow> 'p task list \<Rightarrow> 'p task list) \<Rightarrow> (('p, 'h) worker_world, error) prog" where
  "on_tasks f = seq (statement (\<lambda>now w. ((), w\<lparr>q_tasks := f now (q_tasks w)\<rparr>))) (\<lambda>r. ret (case r of Inl e \<Rightarrow> Some e | Inr _ \<Rightarrow> None))"

definition failTask :: "string \<Rightarrow> string \<Rightarrow> (('p, 'h) worker_world, unit) prog" where
  "failTask i e = seq (on_tasks (\<lambda>now. update_task i (retry_task e now))) (\<lambda>_. ret ())"

definition ops_Update :: "string \<Rightarrow> string \<Rightarrow> string \<Rightarrow> string \<Rightarrow> (('p, 'h) worker_world, unit) prog" where
  "ops_Update i state checkpoint e = seq (statement (\<lambda>now w. ((), w\<lparr>q_ops :=
     map (\<lambda>(j, old). (j, if j = i then (state, checkpoint, e, now) else old)) (q_ops w)\<rparr>))) (\<lambda>_. ret ())"

definition RecordEvent :: "lifecycle_event \<Rightarrow> (('p, 'h) worker_world, unit) prog" where
  "RecordEvent event = seq (statement (\<lambda>now w. ((), w\<lparr>q_events := event\<lparr>
       le_ID := (if le_ID event = [] then q_uuid w (q_count w) else le_ID event),
       le_OccurredAt := (if le_OccurredAt event = 0 then now else le_OccurredAt event),
       le_Actor := (if le_Actor event = [] then ''system'' else le_Actor event),
       le_Containers := (if le_Containers event = [] then ''[]'' else le_Containers event),
       le_Details := (if le_Details event = [] then ''{}'' else le_Details event)\<rparr> # q_events w\<rparr>))) (\<lambda>_. ret ())"

definition new_event :: lifecycle_event where
  "new_event = \<lparr>le_ID = [], le_OccurredAt = 0, le_StackID = [], le_Type = [], le_Outcome = [], le_Actor = [], le_OperationID = [],
     le_Containers = [], le_Details = [], le_Error = []\<rparr>"

definition TaskBackupRestore :: string where "TaskBackupRestore = ''backup.restore''"

definition restore_failed :: "string \<Rightarrow> string \<Rightarrow> (('p, 'h) worker_world, unit) prog" where
  "restore_failed stackID node = seq (statement (\<lambda>now w. ((), w\<lparr>q_fsm := snd (fsm_Apply (Inr \<lparr>sc_StackID = stackID, sc_From = StateRestoring,
     sc_To = StateFailed, sc_Event = EventRestoreFailed, sc_Timestamp = now, sc_NodeID = node\<rparr>) (q_fsm w))\<rparr>))) (\<lambda>_. ret ())"

definition report_failure :: "'p task \<Rightarrow> string \<Rightarrow> (('p, 'h) worker_world, unit) prog" where
  "report_failure t e = (case t_payload t of NotJSON \<Rightarrow> ret ()
     | Payload operation stackID restoring _ \<Rightarrow>
       seq (case (t_type t = TaskBackupRestore, restoring) of (True, Some (sid, node)) \<Rightarrow> restore_failed sid node | _ \<Rightarrow> ret ()) (\<lambda>_.
       case operation of None \<Rightarrow> ret ()
       | Some i \<Rightarrow> seq (ops_Update i ''failed'' ''failed'' e) (\<lambda>_. RecordEvent (new_event\<lparr>le_StackID := stackID,
           le_Type := t_type t, le_Outcome := ''failed'', le_OperationID := i, le_Error := e\<rparr>))))"

definition saveBackupRestore :: "string \<Rightarrow> 'p payload_text \<Rightarrow> 'p task list \<Rightarrow> 'p task list" where
  "saveBackupRestore i p = update_task i (\<lambda>t. t\<lparr>t_payload := p\<rparr>)"

primrec save_payloads :: "(string \<times> 'p payload_text) list \<Rightarrow> 'p task list \<Rightarrow> 'p task list" where
  "save_payloads [] tasks = tasks"
| "save_payloads (ip # saves) tasks = save_payloads saves (saveBackupRestore (fst ip) (snd ip) tasks)"

definition run_handler :: "('p, 'h) handler \<Rightarrow> 'p task \<Rightarrow> (('p, 'h) worker_world, error) prog" where
  "run_handler h t = (\<lambda>w. case h (t_payload t) (q_tasks w) (q_hosts w) of (e, hosts, saves) \<Rightarrow>
     (Some e, w\<lparr>q_hosts := hosts, q_tasks := save_payloads saves (q_tasks w), q_executed := t_id t # q_executed w\<rparr>))"

definition settle :: "'p task \<Rightarrow> error \<Rightarrow> (('p, 'h) worker_world, error) prog" where
  "settle t result = (case result of
     Some e \<Rightarrow>
       seq (if t_attempts t + 1 \<ge> maxAttempts
            then seq (on_tasks (\<lambda>now. update_task (t_id t) (give_up_task e now))) (\<lambda>_. report_failure t e)
            else failTask (t_id t) e) (\<lambda>_. ret None)
   | None \<Rightarrow> on_tasks (\<lambda>now. update_task (t_id t) (done_task now)))"

definition poll :: "string \<Rightarrow> (string \<rightharpoonup> ('p, 'h) handler) \<Rightarrow> (('p, 'h) worker_world, error) prog" where
  "poll worker handlers =
     fetch (statement (\<lambda>now w. case claim worker now (q_tasks w) of (n, tasks) \<Rightarrow> (n, w\<lparr>q_tasks := tasks\<rparr>)))
       (\<lambda>e. ret (Some (''worker: claim query: '' @ e))) (\<lambda>rows.
     if rows = 0 then ret None
     else fetch (statement (\<lambda>now w. (claimed worker (q_tasks w), w))) (\<lambda>e. ret (Some (''worker: read claimed task: '' @ e))) (\<lambda>row.
       case row of None \<Rightarrow> ret (Some ''worker: claimed task is missing'')
       | Some t \<Rightarrow>
         (case handlers (t_type t) of
            None \<Rightarrow> seq (failTask (t_id t) (''no handler for task type '' @ t_type t)) (\<lambda>_. ret None)
          | Some h \<Rightarrow> seq (run_handler h t) (settle t))))"

definition EnqueueTask :: "string \<Rightarrow> string \<Rightarrow> string \<Rightarrow> 'p payload_text \<Rightarrow> (('p, 'h) worker_world, error) prog" where
  "EnqueueTask i type stackID payload = on_tasks (\<lambda>now tasks. if i \<in> t_id ` set tasks then tasks
     else tasks @ [\<lparr>t_id = i, t_type = type, t_stack = stackID, t_payload = payload, t_state = ''pending'', t_attempts = 0,
                    t_locked_by = None, t_error = [], t_created = now, t_updated = now\<rparr>])"

text \<open>The first statement of \<open>Run\<close>, on every start of the worker.\<close>

definition recover_running :: "(('p, 'h) worker_world, error) prog" where
  "recover_running = on_tasks (\<lambda>now. map (\<lambda>t. if t_state t = ''running'' then t\<lparr>t_state := ''pending'', t_locked_by := None\<rparr> else t))"

section \<open>Well-formed tables\<close>

definition wf_task :: "'p task \<Rightarrow> bool" where
  "wf_task t \<longleftrightarrow> t_state t \<in> {''pending'', ''running'', ''done'', ''failed''} \<and> (t_locked_by t \<noteq> None \<longleftrightarrow> t_state t = ''running'') \<and>
     0 \<le> t_attempts t \<and> t_attempts t \<le> maxAttempts \<and> (t_state t = ''running'' \<longrightarrow> t_attempts t < maxAttempts) \<and>
     (t_state t = ''failed'' \<longrightarrow> t_attempts t = maxAttempts)"

definition wf_tasks :: "'p task list \<Rightarrow> bool" where
  "wf_tasks tasks \<longleftrightarrow> distinct (map t_id tasks) \<and> list_all wf_task tasks"

text \<open>How many executions the tasks of a table still have, when no worker starts over.\<close>

definition budget :: "'p task \<Rightarrow> nat" where
  "budget t = (if t_state t = ''pending'' then nat (maxAttempts - t_attempts t)
     else if t_state t = ''running'' then nat (maxAttempts - 1 - t_attempts t) else 0)"

definition budgets :: "'p task list \<Rightarrow> nat" where "budgets tasks = sum_list (map budget tasks)"

lemma update_task_ids: "(\<And>t. t_id (f t) = t_id t) \<Longrightarrow> map t_id (update_task i f tasks) = map t_id tasks"
  by (simp add: update_task_def)

lemma wf_update:
  assumes "wf_tasks tasks" "\<And>t. t_id (f t) = t_id t" "\<And>t. t \<in> set tasks \<Longrightarrow> t_id t = i \<Longrightarrow> wf_task (f t)"
  shows "wf_tasks (update_task i f tasks)"
proof -
  have "list_all wf_task (update_task i f tasks)" using assms(1,3) by (auto simp: wf_tasks_def update_task_def list_all_iff)
  then show ?thesis using assms(1) update_task_ids [of f i tasks, OF assms(2)] by (simp add: wf_tasks_def)
qed

lemma the_row: "wf_tasks tasks \<Longrightarrow> t \<in> set tasks \<Longrightarrow> u \<in> set tasks \<Longrightarrow> t_id u = t_id t \<Longrightarrow> u = t"
  by (auto simp: wf_tasks_def distinct_map inj_on_def)

lemma budgets_update:
  assumes "wf_tasks tasks" "t \<in> set tasks"
  shows "budgets (update_task (t_id t) f tasks) + budget t = budgets tasks + budget (f t)"
proof -
  obtain xs ys where s: "tasks = xs @ t # ys" using split_list [OF assms(2)] by blast
  then have n: "t_id t \<notin> t_id ` set xs" "t_id t \<notin> t_id ` set ys" using assms(1) by (simp_all add: wf_tasks_def)
  have "map (\<lambda>u. if t_id u = t_id t then f u else u) xs = xs" "map (\<lambda>u. if t_id u = t_id t then f u else u) ys = ys"
    using n by (intro map_idI, metis imageI)+
  then have "update_task (t_id t) f tasks = xs @ f t # ys" by (simp add: s update_task_def)
  then show ?thesis by (simp add: s budgets_def)
qed

lemma first_of_sorted: "(case sort_key k (filter P xs) of [] \<Rightarrow> None | x # _ \<Rightarrow> Some x) = Some y \<Longrightarrow> y \<in> set xs \<and> P y"
proof -
  assume a: "(case sort_key k (filter P xs) of [] \<Rightarrow> None | x # _ \<Rightarrow> Some x) = Some y"
  then have "y \<in> set (sort_key k (filter P xs))" by (cases "sort_key k (filter P xs)") auto
  then show ?thesis by simp
qed

lemma oldest_due_in: "oldest_due now tasks = Some t \<Longrightarrow> t \<in> set tasks \<and> due now t"
  unfolding oldest_due_def by (rule first_of_sorted)

lemma oldest_due_least:
  assumes "t \<in> set tasks" "due now t" "\<And>u. u \<in> set tasks \<Longrightarrow> due now u \<Longrightarrow> u \<noteq> t \<Longrightarrow> t_created t < t_created u"
  shows "oldest_due now tasks = Some t"
proof -
  let ?s = "sort_key t_created (filter (due now) tasks)"
  have t: "t \<in> set ?s" using assms(1,2) by simp
  then obtain u us where s: "?s = u # us" by (cases ?s) auto
  have "sorted (map t_created ?s)" by simp
  then have "t_created u \<le> t_created t" using t unfolding s by auto
  moreover have "u \<in> set ?s" unfolding s by simp
  ultimately have "u = t" using assms(3) [of u] by fastforce
  then show ?thesis by (simp add: oldest_due_def s)
qed

lemma claimed_in: "claimed worker tasks = Some t \<Longrightarrow> t \<in> set tasks \<and> t_state t = ''running''"
  unfolding claimed_def by (drule first_of_sorted) simp

lemma claim_cases:
  assumes "wf_tasks tasks" "claim worker now tasks = (n, tasks')"
  shows "wf_tasks tasks' \<and> ((n = 0 \<and> tasks' = tasks) \<or> (n = 1 \<and> Suc (budgets tasks') = budgets tasks))"
proof (cases "oldest_due now tasks")
  case None
  then show ?thesis using assms by (simp add: claim_def)
next
  case (Some t)
  let ?f = "\<lambda>t :: 'a task. t\<lparr>t_state := ''running'', t_locked_by := Some worker, t_updated := now\<rparr>"
  have t: "t \<in> set tasks" "due now t" using oldest_due_in [OF Some] by auto
  have r: "n = 1" "tasks' = update_task (t_id t) ?f tasks" using assms(2) Some by (auto simp: claim_def)
  have "wf_task t" using assms(1) t(1) by (auto simp: wf_tasks_def list_all_iff)
  then have "wf_task (?f t)" "budget t = Suc (budget (?f t))" using t(2) by (auto simp: wf_task_def due_def budget_def maxAttempts_def)
  then show ?thesis using budgets_update [OF assms(1) t(1), of ?f] wf_update [OF assms(1), of ?f "t_id t"] the_row [OF assms(1) t(1)] r by auto
qed

lemma saved_payloads: "\<exists>pf. \<forall>tasks. save_payloads saves tasks = map (\<lambda>t. t\<lparr>t_payload := pf (t_id t) (t_payload t)\<rparr>) tasks"
proof (induction saves)
  case Nil
  show ?case by (intro exI [of _ "\<lambda>_ p. p"]) simp
next
  case (Cons ip saves)
  then obtain pf where pf: "\<And>tasks. save_payloads saves tasks = map (\<lambda>t. t\<lparr>t_payload := pf (t_id t) (t_payload t)\<rparr>) tasks" by blast
  show ?case
    by (intro exI [of _ "\<lambda>i p. pf i (if i = fst ip then snd ip else p)"]) (simp add: pf saveBackupRestore_def update_task_def)
qed

lemma payload_wf: "wf_task (t\<lparr>t_payload := p\<rparr>) = wf_task t" "budget (t\<lparr>t_payload := p\<rparr>) = budget t"
  by (simp_all add: wf_task_def budget_def)

lemma save_payloads_keeps:
  "wf_tasks (save_payloads saves tasks) = wf_tasks tasks" "budgets (save_payloads saves tasks) = budgets tasks"
  using saved_payloads [of saves] by (auto simp: wf_tasks_def budgets_def comp_def list_all_iff payload_wf)

section \<open>What a poll keeps\<close>

definition within :: "nat \<Rightarrow> ('p, 'h) worker_world \<Rightarrow> bool" where
  "within N w \<longleftrightarrow> wf_tasks (q_tasks w) \<and> length (q_executed w) + budgets (q_tasks w) \<le> N"

definition holds_task :: "'p task \<Rightarrow> nat \<Rightarrow> ('p, 'h) worker_world \<Rightarrow> bool" where
  "holds_task t N w \<longleftrightarrow> within N w \<and> (\<exists>p. t\<lparr>t_payload := p\<rparr> \<in> set (q_tasks w)) \<and> t_state t = ''running''"

lemma within_mono: "within M w \<Longrightarrow> M \<le> N \<Longrightarrow> within N w"
  by (simp add: within_def)

lemma statement_triple:
  assumes "\<And>w n. P w \<Longrightarrow> P (w\<lparr>q_count := n\<rparr>)" "\<And>w now. P w \<Longrightarrow> Q (fst (f now w)) (snd (f now w))" "\<And>w. P w \<Longrightarrow> C w"
  shows "triple C P (statement f) (\<lambda>r w. case r of Inl _ \<Rightarrow> P w \<or> (\<exists>x. Q x w) | Inr x \<Rightarrow> Q x w)"
  unfolding triple_def wp_def statement_def Let_def
  by (auto split: result.splits prod.splits) (metis assms fst_conv snd_conv)+

lemma on_tasks_triple:
  assumes "\<And>w n. P w \<Longrightarrow> P (w\<lparr>q_count := n\<rparr>)" "\<And>w now. P w \<Longrightarrow> Q (w\<lparr>q_tasks := f now (q_tasks w)\<rparr>)" "\<And>w. P w \<Longrightarrow> C w"
  shows "triple C P (on_tasks f) (\<lambda>_ w. P w \<or> Q w)"
proof -
  let ?g = "\<lambda>now w. ((), w\<lparr>q_tasks := f now (q_tasks w)\<rparr>)"
  have "triple C P (statement ?g) (\<lambda>r w. case r of Inl _ \<Rightarrow> P w \<or> (\<exists>x :: unit. Q w) | Inr x \<Rightarrow> Q w)"
    by (rule statement_triple) (use assms in simp_all)
  then show ?thesis unfolding on_tasks_def
    by (rule triple_seq) (auto split: sum.splits)
qed

lemma within_count: "within N (w\<lparr>q_count := n\<rparr>) = within N w" "holds_task t N (w\<lparr>q_count := n\<rparr>) = holds_task t N w"
  by (simp_all add: within_def holds_task_def)

lemma within_silent:
  assumes "\<And>now w. q_tasks (snd (f now w)) = q_tasks w" "\<And>now w. q_executed (snd (f now w)) = q_executed w"
  shows "ensures (within N) (seq (statement f) (\<lambda>_. ret ())) (\<lambda>_. True)"
proof -
  have "triple (within N) (within N) (statement f) (\<lambda>_. within N)"
    by (rule triple_weaken [OF statement_triple [where Q = "\<lambda>_. within N" and P = "within N" and C = "within N"]])
       (use assms in \<open>auto simp: within_def split: sum.splits\<close>)
  then show ?thesis unfolding ensures_def by (rule triple_seq) auto
qed

lemma report_within: "ensures (within N) (report_failure t e) (\<lambda>_. True)"
proof -
  have 1: "ensures (within N) (restore_failed a b) (\<lambda>_. True)" "ensures (within N) (ops_Update a b c d) (\<lambda>_. True)"
    "ensures (within N) (RecordEvent ev) (\<lambda>_. True)" for a b c d ev
    unfolding restore_failed_def ops_Update_def RecordEvent_def by (rule within_silent; simp)+
  have 2: "ensures (within N) (ret ()) (\<lambda>_. True)" by (rule ensures_ret) simp
  show ?thesis unfolding report_failure_def
    by (auto split: payload_text.splits option.splits bool.splits intro!: ensures_seq [OF 1(1)] ensures_seq [OF 2] ensures_seq [OF 1(2)] 1 2)
qed

lemma holds_update:
  assumes "holds_task t N w" "\<And>t. t_id (f t) = t_id t"
    "\<And>p. wf_task (t\<lparr>t_payload := p\<rparr>) \<Longrightarrow> wf_task (f (t\<lparr>t_payload := p\<rparr>)) \<and> budget (f (t\<lparr>t_payload := p\<rparr>)) \<le> budget t"
  shows "within N (w\<lparr>q_tasks := update_task (t_id t) f (q_tasks w)\<rparr>)"
proof -
  have wf: "wf_tasks (q_tasks w)" using assms(1) by (auto simp: holds_task_def within_def)
  obtain p where t: "t\<lparr>t_payload := p\<rparr> \<in> set (q_tasks w)" using assms(1) by (auto simp: holds_task_def)
  let ?u = "t\<lparr>t_payload := p\<rparr>"
  have u: "wf_task ?u" using wf t by (auto simp: wf_tasks_def list_all_iff)
  have "wf_tasks (update_task (t_id ?u) f (q_tasks w))"
    by (rule wf_update [OF wf assms(2)]) (use the_row [OF wf t] assms(3) [OF u] in auto)
  then show ?thesis using budgets_update [OF wf t, of f] assms(1) assms(3) [OF u] by (auto simp: within_def holds_task_def payload_wf)
qed

lemma update_within:
  assumes "\<And>now u. t_id (g now u) = t_id u"
    "\<And>now p. t_state t = ''running'' \<Longrightarrow> wf_task (t\<lparr>t_payload := p\<rparr>) \<Longrightarrow> wf_task (g now (t\<lparr>t_payload := p\<rparr>)) \<and> budget (g now (t\<lparr>t_payload := p\<rparr>)) \<le> budget t"
  shows "triple (within N) (holds_task t N) (on_tasks (\<lambda>now. update_task (t_id t) (g now)) :: (('p, 'h) worker_world, error) prog) (\<lambda>_. within N)"
proof -
  have C: "holds_task t N w \<Longrightarrow> within N w" for w :: "('p, 'h) worker_world" by (simp add: holds_task_def)
  have "triple (within N) (holds_task t N) (on_tasks (\<lambda>now. update_task (t_id t) (g now)))
      (\<lambda>_ w. holds_task t N w \<or> within N (w :: ('p, 'h) worker_world))"
  proof (rule on_tasks_triple)
    show "within N (w\<lparr>q_tasks := update_task (t_id t) (g now) (q_tasks w)\<rparr>)" if "holds_task t N w" for w :: "('p, 'h) worker_world" and now
      using that assms by (intro holds_update [OF that]) (auto simp: holds_task_def)
  qed (simp_all add: within_count C)
  then show ?thesis by (rule triple_weaken) (auto intro: C)
qed

lemma failTask_within: "triple (within N) (holds_task t N) (failTask (t_id t) e :: (('p, 'h) worker_world, unit) prog) (\<lambda>_. within N)"
  unfolding failTask_def by (rule triple_seq [OF update_within]) (auto simp: retry_task_def wf_task_def budget_def maxAttempts_def)

lemma settle_within: "triple (within N) (holds_task t N) (settle t r :: (('p, 'h) worker_world, error) prog) (\<lambda>_. within N)"
proof -
  have quit: "triple (within N) (holds_task t N) (seq (on_tasks (\<lambda>now. update_task (t_id t) (give_up_task e now)))
      (\<lambda>_. report_failure t e :: (('p, 'h) worker_world, unit) prog)) (\<lambda>_. within N)" if "t_attempts t + 1 \<ge> maxAttempts" for e
    by (rule triple_seq [OF update_within]) (use that report_within [of N t e] in \<open>auto simp: give_up_task_def wf_task_def budget_def maxAttempts_def ensures_def elim!: triple_weaken\<close>)
  have fin: "triple (within N) (holds_task t N) (on_tasks (\<lambda>now. update_task (t_id t) (done_task now)) :: (('p, 'h) worker_world, error) prog) (\<lambda>_. within N)"
    by (rule update_within) (auto simp: done_task_def wf_task_def budget_def)
  show ?thesis unfolding settle_def
    by (cases r) (auto intro!: fin triple_seq [OF failTask_within] triple_seq [OF quit])
qed

lemma claim_within:
  "triple (within N) (within N) (statement (\<lambda>now w. case claim worker now (q_tasks w) of (n, tasks) \<Rightarrow> (n, w\<lparr>q_tasks := tasks\<rparr>)))
     (\<lambda>r w. case r of Inl _ \<Rightarrow> within N w | Inr n \<Rightarrow> if n = 0 then within N w else 0 < N \<and> within (N - 1) w)"
proof -
  let ?Q = "\<lambda>n w. if n = 0 then within N w else 0 < N \<and> within (N - 1) w"
  have q: "?Q n (w\<lparr>q_tasks := tasks\<rparr>)" if "within N w" "claim worker now (q_tasks w) = (n, tasks)" for w :: "('a, 'b) worker_world" and now n tasks
    using claim_cases [OF _ that(2)] that(1) by (auto simp: within_def)
  show ?thesis
  proof (rule triple_weaken [OF statement_triple [where Q = ?Q and P = "within N" and C = "within N"]], goal_cases)
    case (2 w now)
    then show ?case using q [of w now] by (cases "claim worker now (q_tasks w)") (simp del: One_nat_def)
  qed (auto simp: within_count split: sum.splits if_splits intro: within_mono)
qed

lemma claimed_holds: "within M w \<Longrightarrow> claimed worker (q_tasks w) = Some t \<Longrightarrow> holds_task t M w"
  using claimed_in [of worker "q_tasks w" t] by (auto simp: holds_task_def intro!: exI [of _ "t_payload t"])

lemma claimed_within:
  "triple (within N) (within M) (statement (\<lambda>now w. (claimed worker (q_tasks w), w)))
     (\<lambda>r w. within M w \<and> (case r of Inr (Some t) \<Rightarrow> holds_task t M w | _ \<Rightarrow> True))" if "M \<le> N"
  by (rule triple_weaken [OF statement_triple [where Q = "\<lambda>r w. within M w \<and> (case r of Some t \<Rightarrow> holds_task t M w | _ \<Rightarrow> True)" and P = "within M" and C = "within N"]])
     (use that in \<open>auto simp: within_count split: sum.splits option.splits intro: within_mono claimed_holds\<close>)

lemma run_handler_holds:
  assumes "holds_task t M w" and "run_handler h t w = (r, w')"
  shows "wf_tasks (q_tasks w') \<and> budgets (q_tasks w') = budgets (q_tasks w) \<and> q_executed w' = t_id t # q_executed w \<and> r \<noteq> None \<and>
    (\<exists>p. t\<lparr>t_payload := p\<rparr> \<in> set (q_tasks w'))"
proof -
  obtain e hosts saves where h: "h (t_payload t) (q_tasks w) (q_hosts w) = (e, hosts, saves)" by (cases "h (t_payload t) (q_tasks w) (q_hosts w)")
  obtain pf where pf: "save_payloads saves (q_tasks w) = map (\<lambda>t. t\<lparr>t_payload := pf (t_id t) (t_payload t)\<rparr>) (q_tasks w)" using saved_payloads [of saves] by blast
  obtain p where "t\<lparr>t_payload := p\<rparr> \<in> set (q_tasks w)" using assms(1) by (auto simp: holds_task_def)
  then have "t\<lparr>t_payload := pf (t_id t) p\<rparr> \<in> set (save_payloads saves (q_tasks w))" unfolding pf set_map by (rule image_eqI [rotated]) simp
  then have m: "\<exists>p. t\<lparr>t_payload := p\<rparr> \<in> set (save_payloads saves (q_tasks w))" by blast
  have "wf_tasks (q_tasks w)" using assms(1) by (simp add: holds_task_def within_def)
  moreover have "r = Some e" "w' = w\<lparr>q_hosts := hosts, q_tasks := save_payloads saves (q_tasks w), q_executed := t_id t # q_executed w\<rparr>"
    using assms(2) by (simp_all add: run_handler_def h)
  ultimately show ?thesis using m by (simp add: save_payloads_keeps)
qed

lemma poll_within: "triple (within N) (within N) (poll worker handlers) (\<lambda>_. within N)"
proof -
  let ?I = "within N" and ?P = "\<lambda>w. 0 < N \<and> within (N - 1) w"
  have sub: "triple (within N) P m (\<lambda>_. within N)" if "triple (within (N - 1)) P m (\<lambda>_. within (N - 1))" for P m
    using that by (rule triple_weaken) (auto intro: within_mono)
  have exec: "triple ?I (holds_task t (N - 1)) (seq (run_handler h t) (settle t)) (\<lambda>_. ?I)" if "0 < N" for h t
  proof (rule triple_seq [OF _ settle_within])
    show "triple ?I (holds_task t (N - 1)) (run_handler h t) (\<lambda>_. holds_task t N)"
      unfolding triple_def
    proof (intro allI impI wpI)
      fix w w' r
      assume w: "holds_task t (N - 1) w" and r: "run_handler h t w = (r, w')"
      show "case r of None \<Rightarrow> ?I w' | Some x \<Rightarrow> holds_task t N w'"
        using run_handler_holds [OF w r] w that by (cases r) (auto simp: holds_task_def within_def)
    qed
  qed
  have miss: "triple ?I (holds_task t (N - 1)) (seq (failTask (t_id t) e) (\<lambda>_. ret None)) (\<lambda>_. ?I)" for t e
    by (rule sub, rule triple_seq [OF failTask_within]) auto
  have row: "triple ?I (\<lambda>w. within (N - 1) w \<and> (case r of Inr (Some t) \<Rightarrow> holds_task t (N - 1) w | _ \<Rightarrow> True))
      (case r of Inl e \<Rightarrow> ret (Some (x e)) | Inr row \<Rightarrow> (case row of None \<Rightarrow> ret (Some y)
       | Some t \<Rightarrow> (case handlers (t_type t) of None \<Rightarrow> seq (failTask (t_id t) (z t)) (\<lambda>_. ret None)
          | Some h \<Rightarrow> seq (run_handler h t) (settle t)))) (\<lambda>_. ?I)" if "0 < N" for r x y z
  proof (cases r)
    case (Inl e)
    then show ?thesis by (auto intro!: triple_ret intro: within_mono)
  next
    case (Inr row)
    show ?thesis
    proof (cases row)
      case None
      then show ?thesis using Inr by (auto intro!: triple_ret intro: within_mono)
    next
      case (Some t)
      have "triple ?I (holds_task t (N - 1)) (case handlers (t_type t) of None \<Rightarrow> seq (failTask (t_id t) (z t)) (\<lambda>_. ret None)
          | Some h \<Rightarrow> seq (run_handler h t) (settle t)) (\<lambda>_. ?I)"
        by (cases "handlers (t_type t)") (simp_all add: miss exec that del: One_nat_def)
      then show ?thesis using Some Inr by (auto elim: triple_weaken)
    qed
  qed
  have got: "triple ?I (\<lambda>w. case r of Inl _ \<Rightarrow> ?I w | Inr n \<Rightarrow> if n = 0 then ?I w else ?P w)
      (case r of Inl e \<Rightarrow> ret (Some (x e)) | Inr rows \<Rightarrow> if rows = 0 then ret None
       else fetch (statement (\<lambda>now w. (claimed worker (q_tasks w), w))) (\<lambda>e. ret (Some (x' e))) (\<lambda>row. case row of None \<Rightarrow> ret (Some y)
         | Some t \<Rightarrow> (case handlers (t_type t) of None \<Rightarrow> seq (failTask (t_id t) (z t)) (\<lambda>_. ret None)
            | Some h \<Rightarrow> seq (run_handler h t) (settle t)))) (\<lambda>_. ?I)" for r :: "string + nat" and x x' y z
  proof (cases "0 < N")
    case True
    have "triple ?I (within (N - 1)) (fetch (statement (\<lambda>now w. (claimed worker (q_tasks w), w))) (\<lambda>e. ret (Some (x' e))) (\<lambda>row. case row of None \<Rightarrow> ret (Some y)
         | Some t \<Rightarrow> (case handlers (t_type t) of None \<Rightarrow> seq (failTask (t_id t) (z t)) (\<lambda>_. ret None)
            | Some h \<Rightarrow> seq (run_handler h t) (settle t)))) (\<lambda>_. ?I)"
      unfolding fetch_def by (rule triple_seq [OF claimed_within row [OF True]]) simp
    then show ?thesis using True by (cases r) (auto intro!: triple_ret)
  qed (cases r; auto simp: triple_def wp_ret)
  show ?thesis unfolding poll_def fetch_def [where m = "statement (\<lambda>now w. case claim worker now (q_tasks w) of (n, tasks) \<Rightarrow> (n, w\<lparr>q_tasks := tasks\<rparr>))"]
    by (rule triple_seq [OF claim_within got])
qed

section \<open>Runs of the queue\<close>

datatype 'p queue_op = QEnqueue string string string "'p payload_text" | QPoll string | QRestart

fun queue_step :: "(string \<rightharpoonup> ('p, 'h) handler) \<Rightarrow> 'p queue_op \<Rightarrow> ('p, 'h) worker_world \<Rightarrow> ('p, 'h) worker_world" where
  "queue_step handlers (QEnqueue i type stackID payload) w = snd (EnqueueTask i type stackID payload w)"
| "queue_step handlers (QPoll worker) w = snd (poll worker handlers w)"
| "queue_step handlers QRestart w = snd (recover_running w)"

definition wf_world :: "('p, 'h) worker_world \<Rightarrow> bool" where "wf_world w \<longleftrightarrow> wf_tasks (q_tasks w)"

lemma triple_snd_inv: "triple I P m (\<lambda>_. I) \<Longrightarrow> P w \<Longrightarrow> I (snd (m w))"
  using tripleD [of I P m "\<lambda>_. I" w "fst (m w)" "snd (m w)"] by (auto split: option.splits)

lemma wf_on_tasks:
  assumes "\<And>now tasks. wf_tasks tasks \<Longrightarrow> wf_tasks (f now tasks)" "wf_world w"
  shows "wf_world (snd (on_tasks f w))"
proof -
  have "triple wf_world wf_world (on_tasks f) (\<lambda>_ w. wf_world w \<or> wf_world w)"
    by (rule on_tasks_triple) (auto simp: wf_world_def assms(1))
  then show ?thesis using assms(2) by (intro triple_snd_inv [of wf_world wf_world]) simp_all
qed

lemma queue_step_wf: "wf_world w \<Longrightarrow> wf_world (queue_step handlers opn w)"
proof (cases opn)
  case (QPoll worker)
  assume "wf_world w"
  then have "within (length (q_executed w) + budgets (q_tasks w)) w" by (simp add: within_def wf_world_def)
  from triple_snd_inv [OF poll_within this] show ?thesis using QPoll by (simp add: wf_world_def within_def)
next
  case (QEnqueue i type stackID payload)
  assume "wf_world w"
  then show ?thesis unfolding QEnqueue queue_step.simps EnqueueTask_def
    by (rule wf_on_tasks [rotated]) (auto simp: wf_tasks_def wf_task_def maxAttempts_def)
next
  case QRestart
  assume "wf_world w"
  then show ?thesis unfolding QRestart queue_step.simps recover_running_def
  proof (rule wf_on_tasks [rotated])
    fix tasks :: "'a task list"
    assume wf: "wf_tasks tasks"
    let ?f = "\<lambda>t. if t_state t = ''running'' then t\<lparr>t_state := ''pending'', t_locked_by := None\<rparr> else t"
    have "map t_id (map ?f tasks) = map t_id tasks" by simp
    moreover have "list_all wf_task (map ?f tasks)" using wf by (auto simp: wf_tasks_def wf_task_def list_all_iff)
    ultimately show "wf_tasks (map ?f tasks)" using wf by (simp only: wf_tasks_def)
  qed
qed

interpretation queue: machine "queue_step handlers" wf_world for handlers :: "string \<rightharpoonup> ('p, 'h) handler"
  by unfold_locales (rule queue_step_wf)

text \<open>
  C16. The task table stays well formed. Under any enqueues, polls and worker restarts, with any handlers
  and with statements that fail, take effect unnoticed, or kill the worker: IDs are unique, a task is
  locked exactly while it is running, a running task has an attempt left, no task has more than
  five, and a failed one has used all five.\<close>

theorem task_table_stays_well_formed:
  assumes "wf_tasks (q_tasks w)"
  shows "wf_tasks (q_tasks (runs (queue_step handlers) ops w))"
  using queue.runs_inv [of w handlers ops] assms by (simp add: wf_world_def)

lemma budgets_bound: "wf_tasks tasks \<Longrightarrow> budgets tasks \<le> 5 * length tasks"
proof (induction tasks)
  case (Cons t tasks)
  then have "budget t \<le> 5" by (auto simp: wf_tasks_def wf_task_def budget_def maxAttempts_def)
  moreover have "wf_tasks tasks" using Cons.prems by (simp add: wf_tasks_def)
  ultimately show ?case using Cons.IH by (simp add: budgets_def)
qed (simp add: budgets_def)

lemma polls_within: "within N w \<Longrightarrow> within N (runs (queue_step handlers) (map QPoll workers) w)"
proof (induction workers arbitrary: w)
  case (Cons worker workers)
  have "within N (snd (poll worker handlers w))" by (rule triple_snd_inv [OF poll_within Cons.prems])
  then show ?case using Cons.IH by simp
qed simp

text \<open>
  C15. Retrying ends. However often the workers poll, and whatever their handlers and the database do, a
  table of \<open>n\<close> tasks leads to at most \<open>5 n\<close> executions as long as nothing is enqueued and no worker is
  started anew.\<close>

theorem retries_terminate:
  assumes "wf_tasks (q_tasks w)"
  shows "length (q_executed (runs (queue_step handlers) (map QPoll workers) w)) \<le> length (q_executed w) + 5 * length (q_tasks w)"
proof -
  have "within (length (q_executed w) + budgets (q_tasks w)) w" using assms by (simp add: within_def)
  from polls_within [OF this, of handlers workers] show ?thesis using budgets_bound [OF assms] by (simp add: within_def)
qed

section \<open>One poll\<close>

text \<open>The row of a task after it was claimed at \<open>now\<close> and its handler returned \<open>e\<close>, recorded at \<open>later\<close>.\<close>

definition settled :: "string \<Rightarrow> error \<Rightarrow> int \<Rightarrow> int \<Rightarrow> 'p task \<Rightarrow> 'p task" where
  "settled worker e now later t = (let r = t\<lparr>t_state := ''running'', t_locked_by := Some worker, t_updated := now\<rparr> in
     case e of None \<Rightarrow> done_task later r
     | Some x \<Rightarrow> if t_attempts t + 1 \<ge> maxAttempts then give_up_task x later r else retry_task x later r)"

lemma statement_done: "q_fates w = (\<lambda>_. Done) \<Longrightarrow> statement f w =
  (case f (q_now w (q_count w)) (w\<lparr>q_count := Suc (q_count w)\<rparr>) of (x, w2) \<Rightarrow> (Some (Inr x), w2))"
  by (simp add: statement_def Let_def)

lemma on_tasks_done: "q_fates w = (\<lambda>_. Done) \<Longrightarrow> on_tasks f w =
  (Some None, w\<lparr>q_count := Suc (q_count w), q_tasks := f (q_now w (q_count w)) (q_tasks w)\<rparr>)"
  by (simp add: on_tasks_def seq_def statement_done ret_def)

text \<open>Statements on other tables.\<close>

definition aside :: "(('p, 'h) worker_world, unit) prog \<Rightarrow> bool" where
  "aside m \<longleftrightarrow> (\<forall>w. q_tasks (snd (m w)) = q_tasks w \<and> q_executed (snd (m w)) = q_executed w \<and> q_fates (snd (m w)) = q_fates w \<and>
     (q_fates w = (\<lambda>_. Done) \<longrightarrow> fst (m w) = Some ()))"

lemma aside_statement:
  assumes "\<And>now w. q_tasks (snd (f now w)) = q_tasks w \<and> q_executed (snd (f now w)) = q_executed w \<and> q_fates (snd (f now w)) = q_fates w"
  shows "aside (seq (statement f) (\<lambda>_. ret ()))"
  unfolding aside_def
proof (intro allI)
  fix w :: "('a, 'b) worker_world"
  let ?w = "w\<lparr>q_count := Suc (q_count w)\<rparr>"
  obtain x w2 where f: "f (q_now w (q_count w)) ?w = (x, w2)" by (cases "f (q_now w (q_count w)) ?w")
  then have "q_tasks w2 = q_tasks w" "q_executed w2 = q_executed w" "q_fates w2 = q_fates w" using assms [of "q_now w (q_count w)" ?w] by simp_all
  then show "q_tasks (snd (seq (statement f) (\<lambda>_. ret ()) w)) = q_tasks w \<and> q_executed (snd (seq (statement f) (\<lambda>_. ret ()) w)) = q_executed w \<and>
      q_fates (snd (seq (statement f) (\<lambda>_. ret ()) w)) = q_fates w \<and>
      (q_fates w = (\<lambda>_. Done) \<longrightarrow> fst (seq (statement f) (\<lambda>_. ret ()) w) = Some ())"
    using f by (cases "q_fates w (q_count w)") (simp_all add: seq_def statement_def ret_def Let_def)
qed

lemma aside_ret: "aside (ret ())"
  by (simp add: aside_def ret_def)

lemma aside_seq:
  assumes "aside m" "aside n"
  shows "aside (seq m (\<lambda>_. n))"
  unfolding aside_def
proof (intro allI)
  fix w
  obtain r w1 where m: "m w = (r, w1)" by (cases "m w")
  then show "q_tasks (snd (seq m (\<lambda>_. n) w)) = q_tasks w \<and> q_executed (snd (seq m (\<lambda>_. n) w)) = q_executed w \<and>
      q_fates (snd (seq m (\<lambda>_. n) w)) = q_fates w \<and> (q_fates w = (\<lambda>_. Done) \<longrightarrow> fst (seq m (\<lambda>_. n) w) = Some ())"
    using assms(1) [unfolded aside_def, rule_format, of w] assms(2) [unfolded aside_def, rule_format, of w1] by (cases r) (simp_all add: seq_def)
qed

lemma aside_report: "aside (report_failure t e)"
proof -
  have 1: "aside (restore_failed a b)" "aside (ops_Update a b c d)" "aside (RecordEvent ev)" for a b c d ev
    unfolding restore_failed_def ops_Update_def RecordEvent_def by (rule aside_statement; simp)+
  have 2: "aside (case (b, restoring) of (True, Some (sid, node)) \<Rightarrow> restore_failed sid node | _ \<Rightarrow> ret ())" for b restoring
    by (auto split: option.splits bool.splits intro: 1 aside_ret)
  have 3: "aside (case operation of None \<Rightarrow> ret () | Some i \<Rightarrow> seq (ops_Update i a b c) (\<lambda>_. RecordEvent (g i)))" for operation a b c g
    by (cases operation) (simp_all add: aside_seq 1 aside_ret)
  show ?thesis unfolding report_failure_def by (cases "t_payload t") (simp_all only: payload_text.case aside_ret aside_seq [OF 2 3])
qed

lemma report_tasks: "q_tasks (snd (report_failure t e w)) = q_tasks w \<and> q_executed (snd (report_failure t e w)) = q_executed w \<and>
  (q_fates w = (\<lambda>_. Done) \<longrightarrow> fst (report_failure t e w) = Some ())"
  using aside_report [unfolded aside_def, rule_format, of t e w] by simp

lemma update_task_twice: "(\<And>t. t_id (f t) = t_id t) \<Longrightarrow> update_task i g (update_task i f tasks) = update_task i (\<lambda>t. g (f t)) tasks"
  by (auto simp: update_task_def)

lemma claimed_after_claim:
  assumes "wf_tasks tasks" "t \<in> set tasks" "\<And>u. u \<in> set tasks \<Longrightarrow> \<not> (t_state u = ''running'' \<and> t_locked_by u = Some worker)"
  shows "claimed worker (update_task (t_id t) (\<lambda>t. t\<lparr>t_state := ''running'', t_locked_by := Some worker, t_updated := now\<rparr>) tasks) =
    Some (t\<lparr>t_state := ''running'', t_locked_by := Some worker, t_updated := now\<rparr>)"
proof -
  let ?f = "\<lambda>t :: 'a task. t\<lparr>t_state := ''running'', t_locked_by := Some worker, t_updated := now\<rparr>"
  let ?P = "\<lambda>t :: 'a task. t_state t = ''running'' \<and> t_locked_by t = Some worker"
  obtain xs ys where s: "tasks = xs @ t # ys" using split_list [OF assms(2)] by blast
  then have n: "t_id t \<notin> t_id ` set xs" "t_id t \<notin> t_id ` set ys" using assms(1) by (simp_all add: wf_tasks_def)
  have "map (\<lambda>u. if t_id u = t_id t then ?f u else u) xs = xs" "map (\<lambda>u. if t_id u = t_id t then ?f u else u) ys = ys"
    using n by (intro map_idI, metis imageI)+
  then have u: "update_task (t_id t) ?f tasks = xs @ ?f t # ys" by (simp add: s update_task_def)
  have "filter ?P xs = []" "filter ?P ys = []" using assms(3) s by (auto simp: filter_empty_conv)
  then show ?thesis unfolding claimed_def u by simp
qed

text \<open>What \<open>settle\<close> leaves of a claimed task when the database works.\<close>

lemma settle_done:
  assumes "q_fates w = (\<lambda>_. Done)"
  defines "later \<equiv> q_now w (q_count w)"
  shows "fst (settle t e w) = Some None \<and> q_executed (snd (settle t e w)) = q_executed w \<and>
    q_tasks (snd (settle t e w)) = update_task (t_id t) (case e of None \<Rightarrow> done_task later
      | Some x \<Rightarrow> if t_attempts t + 1 \<ge> maxAttempts then give_up_task x later else retry_task x later) (q_tasks w)"
proof (cases e)
  case None
  then show ?thesis using assms by (simp add: settle_def on_tasks_done)
next
  case (Some x)
  show ?thesis
  proof (cases "t_attempts t + 1 \<ge> maxAttempts")
    case True
    let ?v = "w\<lparr>q_count := Suc (q_count w), q_tasks := update_task (t_id t) (give_up_task x later) (q_tasks w)\<rparr>"
    obtain r v where v: "report_failure t x ?v = (r, v)" by (cases "report_failure t x ?v")
    have "r = Some ()" "q_tasks v = q_tasks ?v" "q_executed v = q_executed ?v" using report_tasks [of t x ?v] assms v by simp_all
    then show ?thesis using Some True assms v by (simp add: settle_def seq_def on_tasks_done ret_def)
  next
    case False
    then show ?thesis using Some assms by (simp add: settle_def failTask_def seq_def on_tasks_done ret_def)
  qed
qed

text \<open>
  C14. A poll executes the oldest due task. When every statement of the poll succeeds, nobody else writes the table meanwhile, no lock of the same worker
  is left over, and one due task was created before all others: its handler runs, and the task is marked done when the handler
  succeeds, made pending again with one more attempt when it fails, or failed at the fifth. No other row changes, apart from payloads
  that the handler saves.\<close>

theorem poll_settles_the_oldest_due_task:
  assumes "wf_tasks (q_tasks w)" "q_fates w = (\<lambda>_. Done)" "\<forall>u \<in> set (q_tasks w). t_locked_by u \<noteq> Some worker"
    "t \<in> set (q_tasks w)" "due (q_now w (q_count w)) t"
    "\<forall>u \<in> set (q_tasks w). due (q_now w (q_count w)) u \<and> u \<noteq> t \<longrightarrow> t_created t < t_created u" "handlers (t_type t) = Some h"
    "h (t_payload t) (snd (claim worker (q_now w (q_count w)) (q_tasks w))) (q_hosts w) = (e, hosts, saves)"
  shows "fst (poll worker handlers w) = Some None \<and> q_executed (snd (poll worker handlers w)) = t_id t # q_executed w \<and>
    q_tasks (snd (poll worker handlers w)) =
      update_task (t_id t) (settled worker e (q_now w (q_count w)) (q_now w (q_count w + 2))) (save_payloads saves (q_tasks w))"
proof -
  let ?now = "q_now w (q_count w)"
  let ?f = "\<lambda>t :: 'a task. t\<lparr>t_state := ''running'', t_locked_by := Some worker, t_updated := ?now\<rparr>"
  let ?claimed = "update_task (t_id t) ?f (q_tasks w)"
  let ?tasks = "save_payloads saves ?claimed"
  note t = assms(4)
  have "oldest_due ?now (q_tasks w) = Some t" by (rule oldest_due_least [OF t assms(5)]) (use assms(6) in blast)
  then have cl: "claim worker ?now (q_tasks w) = (1, ?claimed)" by (simp add: claim_def)
  have cd: "claimed worker ?claimed = Some (?f t)" by (rule claimed_after_claim [OF assms(1) t]) (use assms(3) in auto)
  let ?w = "w\<lparr>q_count := Suc (Suc (q_count w)), q_hosts := hosts, q_tasks := ?tasks, q_executed := t_id t # q_executed w\<rparr>"
  have p: "poll worker handlers w = settle (?f t) e ?w"
    using assms(2,7,8) cl cd by (simp add: poll_def fetch_def seq_def statement_done run_handler_def)
  let ?later = "q_now w (q_count w + 2)"
  let ?g = "case e of None \<Rightarrow> done_task ?later | Some x \<Rightarrow> if t_attempts t + 1 \<ge> maxAttempts then give_up_task x ?later else retry_task x ?later"
  have settled: "fst (settle (?f t) e ?w) = Some None \<and> q_executed (snd (settle (?f t) e ?w)) = t_id t # q_executed w \<and>
      q_tasks (snd (settle (?f t) e ?w)) = update_task (t_id t) ?g ?tasks"
    using settle_done [of ?w "?f t" e] assms(2) by (cases e) simp_all
  obtain pf where pf: "\<And>tasks :: 'a task list. save_payloads saves tasks = map (\<lambda>t. t\<lparr>t_payload := pf (t_id t) (t_payload t)\<rparr>) tasks"
    using saved_payloads [of saves] by blast
  have sw: "(?f u)\<lparr>t_payload := p\<rparr> = ?f (u\<lparr>t_payload := p\<rparr>)" for u p by (cases u) simp
  have s: "?g ((?f t)\<lparr>t_payload := p\<rparr>) = settled worker e ?now ?later (t\<lparr>t_payload := p\<rparr>)" for p
    unfolding sw by (cases e) (simp_all add: settled_def Let_def)
  have i: "t_id (?f u) = t_id u" "t_payload (?f u) = t_payload u" for u by simp_all
  have "update_task (t_id t) ?g ?tasks = update_task (t_id t) (settled worker e ?now ?later) (save_payloads saves (q_tasks w))"
    unfolding update_task_def pf map_map comp_def
  proof (rule map_cong [OF refl])
    fix u
    assume "u \<in> set (q_tasks w)"
    then show "(if t_id ((if t_id u = t_id t then ?f u else u)\<lparr>t_payload := pf (t_id (if t_id u = t_id t then ?f u else u)) (t_payload (if t_id u = t_id t then ?f u else u))\<rparr>) = t_id t
        then ?g ((if t_id u = t_id t then ?f u else u)\<lparr>t_payload := pf (t_id (if t_id u = t_id t then ?f u else u)) (t_payload (if t_id u = t_id t then ?f u else u))\<rparr>)
        else (if t_id u = t_id t then ?f u else u)\<lparr>t_payload := pf (t_id (if t_id u = t_id t then ?f u else u)) (t_payload (if t_id u = t_id t then ?f u else u))\<rparr>) =
      (if t_id (u\<lparr>t_payload := pf (t_id u) (t_payload u)\<rparr>) = t_id t then settled worker e ?now ?later (u\<lparr>t_payload := pf (t_id u) (t_payload u)\<rparr>)
        else u\<lparr>t_payload := pf (t_id u) (t_payload u)\<rparr>)"
      using the_row [OF assms(1) t, of u] s [of "pf (t_id t) (t_payload t)"] by (cases "u = t") (auto simp del: One_nat_def add_2_eq_Suc')
  qed
  then show ?thesis unfolding p using settled by simp
qed

section \<open>The properties on a concrete table\<close>

definition demo_task :: "string \<Rightarrow> int \<Rightarrow> unit task" where
  "demo_task i created = \<lparr>t_id = i, t_type = ''snapshot.create'', t_stack = ''s1'', t_payload = Payload (Some ''op1'') ''s1'' None (), t_state = ''pending'',
     t_attempts = 0, t_locked_by = None, t_error = [], t_created = created, t_updated = created\<rparr>"

definition demo_queue :: "(unit, nat) worker_world" where
  "demo_queue = \<lparr>q_tasks = [demo_task ''late'' 20, demo_task ''early'' 10], q_ops = [(''op1'', ''running'', [], [], 0)], q_events = [], q_fsm = NewFSM,
     q_hosts = 0, q_executed = [], q_count = 0, q_fates = (\<lambda>_. Done), q_now = (\<lambda>n. 100 + int n), q_uuid = (\<lambda>_. ''u'')\<rparr>"

definition demo_handlers :: "string \<rightharpoonup> (unit, nat) handler" where
  "demo_handlers = [''snapshot.create'' \<mapsto> (\<lambda>p tasks h. (Some ''dataset is busy'', Suc h, [(''early'', NotJSON)]))]"

lemma demo_queue_wf: "wf_tasks (q_tasks demo_queue)"
  by (simp add: wf_tasks_def wf_task_def demo_queue_def demo_task_def maxAttempts_def)

theorem task_table_stays_well_formed_witness:
  "wf_tasks (q_tasks (runs (queue_step demo_handlers) [QPoll ''w1'', QRestart, QPoll ''w2''] demo_queue))"
  by (rule task_table_stays_well_formed [OF demo_queue_wf])

theorem retries_terminate_witness:
  "length (q_executed (runs (queue_step demo_handlers) (map QPoll (replicate 100 ''w1'')) demo_queue)) \<le> 10"
  using retries_terminate [OF demo_queue_wf, of demo_handlers "replicate 100 ''w1''"] by (simp add: demo_queue_def)

theorem poll_settles_the_oldest_due_task_witness:
  "q_executed (snd (poll ''w1'' demo_handlers demo_queue)) = [''early'']"
proof -
  have h: "demo_handlers (t_type (demo_task ''early'' 10)) = Some (\<lambda>p tasks h. (Some ''dataset is busy'', Suc h, [(''early'', NotJSON)]))"
    by (simp add: demo_handlers_def demo_task_def)
  have "q_executed (snd (poll ''w1'' demo_handlers demo_queue)) = t_id (demo_task ''early'' 10) # q_executed demo_queue"
    using poll_settles_the_oldest_due_task [of demo_queue "''w1''" "demo_task ''early'' 10" demo_handlers
        "\<lambda>p tasks h. (Some ''dataset is busy'', Suc h, [(''early'', NotJSON)])" "Some ''dataset is busy''" "Suc (q_hosts demo_queue)" "[(''early'', NotJSON)]"] demo_queue_wf h
    by (simp add: demo_queue_def demo_task_def due_def maxAttempts_def)
  then show ?thesis by (simp add: demo_task_def demo_queue_def)
qed

end
