(* ===== verification/Dataset_Restore.thy ===== *)
theory Dataset_Restore
  imports Prelude "HOL-Library.List_Lexorder" "HOL-Library.Product_Lexorder" "HOL-Library.Char_ord"
begin

text \<open>
  The swap of a stack's dataset tree for a clone of one of its snapshots: \<open>restoreDatasets\<close>,
  \<open>restoreMountpoints\<close> and \<open>promoteTree\<close> of \<open>internal/worker/queue.go\<close>, over the dataset commands of
  \<open>internal/hostd/dispatcher.go\<close>. The worker may die or see an error at any command and then starts over.

  ZFS is a parameter: a record of its commands, with what their documentation promises in \<open>zfs_laws\<close>.
\<close>

section \<open>ZFS\<close>

record ('z, 'c) zfs =
  z_list :: "'z \<Rightarrow> string list"
  z_clone :: "string \<Rightarrow> string \<Rightarrow> 'z \<Rightarrow> error \<times> 'z"
  z_rename :: "string \<Rightarrow> string \<Rightarrow> 'z \<Rightarrow> error \<times> 'z"
  z_set :: "string \<Rightarrow> string \<Rightarrow> string \<Rightarrow> 'z \<Rightarrow> error \<times> 'z"
  z_origin :: "'z \<Rightarrow> string \<Rightarrow> string"
  z_promote :: "string \<Rightarrow> 'z \<Rightarrow> error \<times> 'z"
  z_content :: "'z \<Rightarrow> string \<rightharpoonup> 'c"
  z_snapshot :: "'z \<Rightarrow> string \<rightharpoonup> 'c"

definition in_tree :: "string \<Rightarrow> string \<Rightarrow> bool" where
  "in_tree root name \<longleftrightarrow> name = root \<or> take (length root + 1) name = root @ ''/''"

text \<open>Renaming a dataset takes its descendants along.\<close>

definition moved :: "string \<Rightarrow> string \<Rightarrow> (string \<rightharpoonup> 'c) \<Rightarrow> (string \<rightharpoonup> 'c)" where
  "moved source target c = (\<lambda>name. if in_tree target name then c (source @ drop (length target) name)
     else if in_tree source name then None else c name)"

text \<open>
  The documented effects: a command that fails changes no dataset, a clone holds what its snapshot holds
  and is a new dataset, properties and promotion leave the data alone.
\<close>

definition zfs_laws :: "('z, 'c) zfs \<Rightarrow> bool" where
  "zfs_laws Z \<longleftrightarrow>
     (\<forall>z. set (z_list Z z) = dom (z_content Z z)) \<and>
     (\<forall>s t z e z'. z_clone Z s t z = (e, z') \<longrightarrow> z_snapshot Z z' = z_snapshot Z z \<and>
        (if e = None then z_snapshot Z z s \<noteq> None \<and> z_content Z z' = (z_content Z z)(t := z_snapshot Z z s)
         else z_content Z z' = z_content Z z)) \<and>
     (\<forall>s t z e z'. z_rename Z s t z = (e, z') \<longrightarrow>
        (if e = None then z_content Z z' = moved s t (z_content Z z)
         else z_content Z z' = z_content Z z \<and> z_snapshot Z z' = z_snapshot Z z)) \<and>
     (\<forall>d k v z. z_content Z (snd (z_set Z d k v z)) = z_content Z z \<and> z_snapshot Z (snd (z_set Z d k v z)) = z_snapshot Z z) \<and>
     (\<forall>d z. z_content Z (snd (z_promote Z d z)) = z_content Z z)"

section \<open>The dataset commands of a host\<close>

fun split_on :: "char \<Rightarrow> string \<Rightarrow> string list" where
  "split_on c [] = [[]]"
| "split_on c (x # xs) = (if x = c then [] # split_on c xs
     else case split_on c xs of [] \<Rightarrow> [[x]] | y # ys \<Rightarrow> (x # y) # ys)"

definition ascii_alnum :: "char \<Rightarrow> bool" where
  "ascii_alnum c \<longleftrightarrow> (CHR ''a'' \<le> c \<and> c \<le> CHR ''z'') \<or> (CHR ''A'' \<le> c \<and> c \<le> CHR ''Z'') \<or> (CHR ''0'' \<le> c \<and> c \<le> CHR ''9'')"

fun datasetPart :: "string \<Rightarrow> bool" where
  "datasetPart [] = False"
| "datasetPart (c # cs) \<longleftrightarrow> ascii_alnum c \<and> list_all (\<lambda>d. ascii_alnum d \<or> d \<in> {CHR ''_'', CHR ''.'', CHR '':'', CHR ''-''}) cs"

definition validDataset :: "string \<Rightarrow> bool" where
  "validDataset v \<longleftrightarrow> v \<noteq> [] \<and> list_all datasetPart (split_on (CHR ''/'') v)"

definition validSnapshot :: "string \<Rightarrow> bool" where
  "validSnapshot v = (case split_on (CHR ''@'') v of [d, s] \<Rightarrow> validDataset d \<and> datasetPart s | _ \<Rightarrow> False)"

definition datasetList :: "('z, 'c) zfs \<Rightarrow> string \<Rightarrow> 'z \<Rightarrow> string + string list" where
  "datasetList Z parent z = (if parent \<in> set (z_list Z z) then Inr (filter (in_tree parent) (z_list Z z))
     else Inl ''fs.dataset.list: dataset does not exist'')"

definition datasetClone :: "('z, 'c) zfs \<Rightarrow> string \<Rightarrow> string \<Rightarrow> 'z \<Rightarrow> error \<times> 'z" where
  "datasetClone Z snapshot target z =
     (if \<not> validSnapshot snapshot \<or> \<not> validDataset target then (Some ''invalid clone target'', z)
      else if target \<in> set (z_list Z z) then (None, z)
      else z_clone Z snapshot target z)"

definition datasetRename :: "('z, 'c) zfs \<Rightarrow> string \<Rightarrow> string \<Rightarrow> 'z \<Rightarrow> error \<times> 'z" where
  "datasetRename Z source target z =
     (if \<not> validDataset source \<or> \<not> validDataset target then (Some ''invalid rename target'', z)
      else if source \<notin> set (z_list Z z) \<and> target \<in> set (z_list Z z) then (None, z)
      else z_rename Z source target z)"

definition datasetSet :: "('z, 'c) zfs \<Rightarrow> string \<Rightarrow> string \<Rightarrow> string \<Rightarrow> 'z \<Rightarrow> error \<times> 'z" where
  "datasetSet Z dataset property value z =
     (if \<not> validDataset dataset then (Some ''invalid dataset'', z)
      else if property \<notin> {''recordsize'', ''compression'', ''quota'', ''mountpoint'', ''readonly''} \<or> value = [] \<or>
              list_ex (\<lambda>c. c \<in> {CHR 0x00, CHR 0x0A, CHR 0x0D}) value then (Some ''invalid ZFS property'', z)
      else z_set Z dataset property value z)"

definition datasetPromote :: "('z, 'c) zfs \<Rightarrow> string \<Rightarrow> 'z \<Rightarrow> error \<times> 'z" where
  "datasetPromote Z dataset z =
     (if \<not> validDataset dataset then (Some ''invalid dataset'', z)
      else if dataset \<in> set (z_list Z z) \<and> z_origin Z z dataset = ''-'' then (None, z)
      else z_promote Z dataset z)"

section \<open>The worker\<close>

record 'z swap_world =
  sw_zfs :: 'z
  sw_count :: nat
  sw_fates :: "nat \<Rightarrow> result"

definition pool_Execute :: "('z \<Rightarrow> error \<times> 'z) \<Rightarrow> ('z swap_world, error) prog" where
  "pool_Execute f = (\<lambda>w. let w1 = w\<lparr>sw_count := Suc (sw_count w)\<rparr> in case sw_fates w (sw_count w) of
       Done \<Rightarrow> (case f (sw_zfs w) of (e, z) \<Rightarrow> (Some e, w1\<lparr>sw_zfs := z\<rparr>))
     | Refused e \<Rightarrow> (Some (Some e), w1)
     | Doubtful e \<Rightarrow> (Some (Some e), w1\<lparr>sw_zfs := snd (f (sw_zfs w))\<rparr>)
     | Crash \<Rightarrow> (None, w1))"

definition list_datasets :: "('z, 'c) zfs \<Rightarrow> string \<Rightarrow> ('z swap_world, string + string list) prog" where
  "list_datasets Z parent = seq (pool_Execute (\<lambda>z. (None, z))) (\<lambda>e. case e of Some x \<Rightarrow> ret (Inl x)
     | None \<Rightarrow> get (\<lambda>w. datasetList Z parent (sw_zfs w)))"

primrec each :: "('a \<Rightarrow> ('w, error) prog) \<Rightarrow> 'a list \<Rightarrow> ('w, error) prog" where
  "each f [] = ret None"
| "each f (x # xs) = guarded (f x) (\<lambda>e. ret (Some e)) (each f xs)"

definition annotate :: "string \<Rightarrow> ('w, error) prog \<Rightarrow> ('w, error) prog" where
  "annotate p m = guarded m (\<lambda>e. ret (Some (p @ e))) (ret None)"

definition restoreMountpoints :: "('z, 'c) zfs \<Rightarrow> string \<Rightarrow> string \<Rightarrow> string list \<Rightarrow> ('z swap_world, error) prog" where
  "restoreMountpoints Z source target datasets =
     (let names = sort_key (\<lambda>n. (count_list n (CHR ''/''), n)) (map (\<lambda>d. target @ drop (length source) d) (filter (in_tree source) datasets)) in
      guarded (each (\<lambda>n. annotate (''restore: unmount '' @ n @ '': '') (pool_Execute (datasetSet Z n ''mountpoint'' ''none''))) (rev names)) (\<lambda>e. ret (Some e))
        (each (\<lambda>n. annotate (''restore: mount '' @ n @ '' at /'' @ n @ '': '') (pool_Execute (datasetSet Z n ''mountpoint'' (''/'' @ n)))) names))"

definition promoted_name :: "string \<Rightarrow> string \<Rightarrow> string" where
  "promoted_name root name = (let p = root @ ''-restore-'' in
     if name \<noteq> root \<and> take (length p) name = p then root @ dropWhile (\<lambda>c. c \<noteq> CHR ''/'') (drop (length p) name) else name)"

definition promoteTree :: "('z, 'c) zfs \<Rightarrow> string \<Rightarrow> string list \<Rightarrow> ('z swap_world, error) prog" where
  "promoteTree Z root datasets = each (\<lambda>d. let name = promoted_name root d in
     if \<not> in_tree root name then ret None else pool_Execute (datasetPromote Z name)) datasets"

definition parent_of :: "string \<Rightarrow> string" where
  "parent_of root = (let n = length (takeWhile (\<lambda>c. c \<noteq> CHR ''/'') (rev root)) in
     if n < length root \<and> length root - n - 1 > 0 then take (length root - n - 1) root else root)"

definition temporary_name :: "string \<Rightarrow> string \<Rightarrow> string" where
  "temporary_name root operationID = root @ ''-restore-'' @ operationID"

definition recovery_name :: "string \<Rightarrow> string \<Rightarrow> string" where
  "recovery_name root operationID = root @ ''-recovery-'' @ operationID"

text \<open>What the function does once it knows the datasets.\<close>

definition restore_listed :: "('z, 'c) zfs \<Rightarrow> string \<Rightarrow> string \<Rightarrow> string \<Rightarrow> string list \<Rightarrow> ('z swap_world, error) prog" where
  "restore_listed Z root snapshot operationID datasets =
     (let temporary = temporary_name root operationID; recovery = recovery_name root operationID;
          current = filter (in_tree root) datasets;
          hasRoot = list_ex (in_tree root) datasets;
          hasTemporary = list_ex (\<lambda>d. \<not> in_tree root d \<and> in_tree temporary d) datasets;
          hasRecovery = list_ex (\<lambda>d. \<not> in_tree root d \<and> \<not> in_tree temporary d \<and> in_tree recovery d) datasets;
          stop = (\<lambda>e. ret (Some e))
      in
      if hasRoot \<and> hasRecovery
      then guarded (restoreMountpoints Z recovery recovery datasets) stop
        (guarded (restoreMountpoints Z root root datasets) stop (promoteTree Z root datasets))
      else if \<not> hasRoot \<and> hasRecovery \<and> hasTemporary
      then guarded (restoreMountpoints Z recovery recovery datasets) stop
        (guarded (pool_Execute (datasetRename Z temporary root)) stop
        (guarded (restoreMountpoints Z temporary root datasets) stop (promoteTree Z root datasets)))
      else if \<not> hasRoot then ret (Some (''restore: source dataset '' @ root @ '' is missing''))
      else guarded (each (\<lambda>d. pool_Execute (datasetClone Z (d @ ''@'' @ snapshot) (temporary @ drop (length root) d))) current) stop
        (guarded (pool_Execute (datasetRename Z root recovery)) stop
        (guarded (restoreMountpoints Z root recovery current) stop
        (guarded (pool_Execute (datasetRename Z temporary root)) stop
        (guarded (restoreMountpoints Z root root current) stop (promoteTree Z root current))))))"

definition restoreDatasets :: "('z, 'c) zfs \<Rightarrow> string \<Rightarrow> string \<Rightarrow> string \<Rightarrow> ('z swap_world, error) prog" where
  "restoreDatasets Z root snapshot operationID =
     fetch (list_datasets Z (parent_of root)) (\<lambda>e. ret (Some e)) (restore_listed Z root snapshot operationID)"

section \<open>Trees of datasets\<close>

definition tree :: "(string \<rightharpoonup> 'c) \<Rightarrow> string \<Rightarrow> (string \<rightharpoonup> 'c)" where
  "tree c root = (\<lambda>s. if s = [] \<or> hd s = CHR ''/'' then c (root @ s) else None)"

definition apart :: "string \<Rightarrow> string \<Rightarrow> bool" where
  "apart a b \<longleftrightarrow> (\<forall>n. \<not> (in_tree a n \<and> in_tree b n))"

lemma in_tree_iff: "in_tree root n \<longleftrightarrow> (\<exists>s. n = root @ s \<and> (s = [] \<or> hd s = CHR ''/''))"
proof
  assume "in_tree root n"
  then show "\<exists>s. n = root @ s \<and> (s = [] \<or> hd s = CHR ''/'')" unfolding in_tree_def
  proof
    assume "take (length root + 1) n = root @ ''/''"
    then have "n = root @ CHR ''/'' # drop (length root + 1) n"
      by (metis append.assoc append_Cons append_Nil append_take_drop_id)
    then show ?thesis by (metis list.sel(1))
  qed simp
next
  assume "\<exists>s. n = root @ s \<and> (s = [] \<or> hd s = CHR ''/'')"
  then obtain s where "n = root @ s" "s = [] \<or> hd s = CHR ''/''" by blast
  then show "in_tree root n" unfolding in_tree_def by (cases s) auto
qed

lemma tree_outside: "\<not> in_tree root n \<Longrightarrow> tree (c(n := v)) root = tree c root"
  by (auto simp: tree_def in_tree_iff fun_eq_iff)

lemma tree_inside: "s = [] \<or> hd s = CHR ''/'' \<Longrightarrow> tree (c(root @ s := v)) root = (tree c root)(s := v)"
  by (auto simp: tree_def fun_eq_iff)

lemma tree_moved_target: "tree (moved a b c) b = tree c a"
  by (auto simp: tree_def moved_def in_tree_iff fun_eq_iff)

lemma tree_moved_source: "apart a b \<Longrightarrow> tree (moved a b c) a = Map.empty"
  by (auto simp: tree_def moved_def in_tree_iff fun_eq_iff apart_def)

lemma tree_moved_other: "apart a d \<Longrightarrow> apart b d \<Longrightarrow> tree (moved a b c) d = tree c d"
  by (auto simp: tree_def moved_def in_tree_iff fun_eq_iff apart_def)

lemma apart_diff: "apart (r @ CHR ''-'' # u) r"
  by (auto simp: apart_def in_tree_iff)

lemma apart_sym: "apart a b \<Longrightarrow> apart b a"
  by (auto simp: apart_def)

section \<open>The abstract swap\<close>

text \<open>
  What the swap promises, without commands and mountpoints: the old tree is set aside in one step and the
  snapshot's tree takes its place in another. \<open>in_phase\<close> relates the phases to the datasets of the pool, for
  an old tree \<open>T\<close> and a snapshot tree \<open>S\<close>.
\<close>

datatype swap_phase = Untouched | Set_aside | Swapped

inductive swap_step :: "swap_phase \<Rightarrow> swap_phase \<Rightarrow> bool" where
  set_aside: "swap_step Untouched Set_aside"
| activate: "swap_step Set_aside Swapped"

fun in_phase :: "('z, 'c) zfs \<Rightarrow> string \<Rightarrow> string \<Rightarrow> string \<Rightarrow> (string \<rightharpoonup> 'c) \<Rightarrow> (string \<rightharpoonup> 'c) \<Rightarrow> swap_phase \<Rightarrow> 'z \<Rightarrow> bool" where
  "in_phase Z root snapshot operationID T S Untouched z \<longleftrightarrow> T [] \<noteq> None \<and>
     tree (z_content Z z) root = T \<and>
     tree (z_content Z z) (temporary_name root operationID) \<subseteq>\<^sub>m S |` dom T \<and>
     tree (z_content Z z) (recovery_name root operationID) = Map.empty \<and>
     (\<forall>s\<in>dom T. z_snapshot Z z (root @ s @ ''@'' @ snapshot) = S s)"
| "in_phase Z root snapshot operationID T S Set_aside z \<longleftrightarrow> T [] \<noteq> None \<and> dom T \<subseteq> dom S \<and>
     tree (z_content Z z) root = Map.empty \<and>
     tree (z_content Z z) (temporary_name root operationID) = S |` dom T \<and>
     tree (z_content Z z) (recovery_name root operationID) = T"
| "in_phase Z root snapshot operationID T S Swapped z \<longleftrightarrow> T [] \<noteq> None \<and> dom T \<subseteq> dom S \<and>
     tree (z_content Z z) root = S |` dom T \<and>
     tree (z_content Z z) (temporary_name root operationID) = Map.empty \<and>
     tree (z_content Z z) (recovery_name root operationID) = T"

section \<open>Rules for calls and loops\<close>

lemma triple_pool_Execute:
  assumes "\<And>z. P z \<Longrightarrow> C z \<and> (\<forall>x. Q (Some x) z)"
    and "\<And>z e z'. P z \<Longrightarrow> f z = (e, z') \<Longrightarrow> Q e z' \<and> (\<forall>x. Q (Some x) z')"
  shows "triple (\<lambda>w. C (sw_zfs w)) (\<lambda>w. P (sw_zfs w)) (pool_Execute f) (\<lambda>e w. Q e (sw_zfs w))"
  unfolding triple_def wp_def pool_Execute_def Let_def
  using assms by (auto split: result.splits prod.splits)

lemma triple_stop:
  assumes "triple C P m R" "\<And>e w. R (Some e) w \<Longrightarrow> Q (Some e) w" "triple C (R None) k Q"
  shows "triple C P (guarded m (\<lambda>e. ret (Some e)) k) Q"
  by (rule triple_guarded [OF assms(1) _ assms(3)]) (auto intro: assms(2))

lemma triple_each:
  assumes "\<And>x D. x \<in> set xs \<Longrightarrow>
      triple C (\<lambda>w. I w \<and> (\<forall>d\<in>D. R d w)) (f x) (\<lambda>e w. if e = None then I w \<and> (\<forall>d\<in>insert x D. R d w) else I w)"
  shows "triple C (\<lambda>w. I w \<and> (\<forall>d\<in>D. R d w)) (each f xs) (\<lambda>e w. if e = None then I w \<and> (\<forall>d\<in>D \<union> set xs. R d w) else I w)"
  using assms
proof (induction xs arbitrary: D)
  case Nil
  then show ?case by auto
next
  case (Cons x xs)
  have "D \<union> set (x # xs) = insert x D \<union> set xs" by auto
  moreover have "triple C (\<lambda>w. I w \<and> (\<forall>d\<in>insert x D. R d w)) (each f xs)
      (\<lambda>e w. if e = None then I w \<and> (\<forall>d\<in>insert x D \<union> set xs. R d w) else I w)"
    by (rule Cons.IH) (use Cons.prems in simp)
  ultimately have "triple C (\<lambda>w. I w \<and> (\<forall>d\<in>insert x D. R d w)) (each f xs)
      (\<lambda>e w. if e = None then I w \<and> (\<forall>d\<in>D \<union> set (x # xs). R d w) else I w)" by (simp only:)
  then show ?case unfolding each.simps
    by (intro triple_guarded [OF Cons.prems]) auto
qed

lemma triple_each_keeps:
  "(\<And>x. x \<in> set xs \<Longrightarrow> triple I I (f x) (\<lambda>_. I)) \<Longrightarrow> triple I I (each f xs) (\<lambda>_. I)"
proof (induction xs)
  case Nil
  then show ?case by auto
next
  case (Cons x xs)
  then show ?case unfolding each.simps by (intro triple_guarded [where R = "\<lambda>_. I"]) auto
qed

lemma triple_annotate: "triple I I m (\<lambda>_. I) \<Longrightarrow> triple I I (annotate p m) (\<lambda>_. I)"
  unfolding annotate_def by (rule triple_guarded [where R = "\<lambda>_. I"]) auto

text \<open>Mountpoints and promotion touch no data.\<close>

lemma restoreMountpoints_keeps:
  assumes "zfs_laws Z"
  shows "triple (\<lambda>w. F (z_content Z (sw_zfs w))) (\<lambda>w. F (z_content Z (sw_zfs w))) (restoreMountpoints Z a b ds) (\<lambda>_ w. F (z_content Z (sw_zfs w)))"
proof -
  have set: "triple (\<lambda>w. F (z_content Z (sw_zfs w))) (\<lambda>w. F (z_content Z (sw_zfs w))) (pool_Execute (datasetSet Z d k v)) (\<lambda>_ w. F (z_content Z (sw_zfs w)))" for d k v
    by (rule triple_pool_Execute) (use assms in \<open>auto simp: datasetSet_def zfs_laws_def split: if_splits; metis snd_conv\<close>)+
  show ?thesis unfolding restoreMountpoints_def Let_def
    by (rule triple_guarded [where R = "\<lambda>_ w. F (z_content Z (sw_zfs w))"]) (auto intro!: triple_each_keeps triple_annotate set)
qed

lemma promoteTree_keeps:
  assumes "zfs_laws Z"
  shows "triple (\<lambda>w. F (z_content Z (sw_zfs w))) (\<lambda>w. F (z_content Z (sw_zfs w))) (promoteTree Z root ds) (\<lambda>_ w. F (z_content Z (sw_zfs w)))"
proof -
  have promote: "triple (\<lambda>w. F (z_content Z (sw_zfs w))) (\<lambda>w. F (z_content Z (sw_zfs w))) (pool_Execute (datasetPromote Z d)) (\<lambda>_ w. F (z_content Z (sw_zfs w)))" for d
    by (rule triple_pool_Execute) (use assms in \<open>auto simp: datasetPromote_def zfs_laws_def split: if_splits; metis snd_conv\<close>)+
  show ?thesis unfolding promoteTree_def Let_def
    by (rule triple_each_keeps) (auto intro!: promote)
qed


section \<open>The commands that move data\<close>

lemma tree_dom: "s \<in> dom (tree c root) \<Longrightarrow> s = [] \<or> hd s = CHR ''/''"
  by (auto simp: tree_def split: if_splits)

lemma in_tree_dom: "s = [] \<or> hd s = CHR ''/'' \<Longrightarrow> s \<in> dom (tree c root) \<longleftrightarrow> root @ s \<in> dom c"
  by (auto simp: tree_def dom_def)

lemma tree_root: "tree c root [] = c root"
  by (simp add: tree_def)

lemma apart_temporary: "apart (temporary_name root op) root"
  using apart_diff [of root "''restore-'' @ op"] by (simp add: temporary_name_def)

lemma apart_recovery: "apart (recovery_name root op) root"
  using apart_diff [of root "''recovery-'' @ op"] by (simp add: recovery_name_def)

lemma apart_restore_recovery: "apart (temporary_name root op) (recovery_name root op)"
  by (auto simp: apart_def in_tree_iff temporary_name_def recovery_name_def)

lemmas apart_facts = apart_temporary apart_recovery apart_restore_recovery
  apart_sym [OF apart_temporary] apart_sym [OF apart_recovery] apart_sym [OF apart_restore_recovery]

lemma apart_append: "apart a b \<Longrightarrow> s = [] \<or> hd s = CHR ''/'' \<Longrightarrow> \<not> in_tree b (a @ s)"
  by (auto simp: apart_def in_tree_iff)

lemma datasetClone_step:
  assumes "zfs_laws Z" and u: "in_phase Z root sn op T S Untouched z" and s: "s \<in> dom T"
    and run: "datasetClone Z (root @ s @ ''@'' @ sn) (temporary_name root op @ s) z = (e, z')"
  shows "in_phase Z root sn op T S Untouched z' \<and>
    dom (tree (z_content Z z) (temporary_name root op)) \<subseteq> dom (tree (z_content Z z') (temporary_name root op)) \<and>
    (e = None \<longrightarrow> s \<in> dom (tree (z_content Z z') (temporary_name root op)))"
proof -
  let ?t = "temporary_name root op"
  have sep: "s = [] \<or> hd s = CHR ''/''" using u s tree_dom by fastforce
  consider "z' = z" "e \<noteq> None" | "z' = z" "?t @ s \<in> dom (z_content Z z)"
    | "?t @ s \<notin> dom (z_content Z z)" "z_clone Z (root @ s @ ''@'' @ sn) (?t @ s) z = (e, z')"
    using run assms(1) unfolding datasetClone_def by (auto simp: zfs_laws_def split: if_splits)
  then show ?thesis
  proof cases
    case 1
    then show ?thesis using u by (cases e) simp_all
  next
    case 2
    then have "s \<in> dom (tree (z_content Z z) ?t)" unfolding in_tree_dom [OF sep] by blast
    then show ?thesis using u 2 by simp
  next
    case 3
    then have "z_snapshot Z z' = z_snapshot Z z \<and> (if e = None then z_snapshot Z z (root @ s @ ''@'' @ sn) \<noteq> None \<and>
        z_content Z z' = (z_content Z z)(?t @ s := z_snapshot Z z (root @ s @ ''@'' @ sn)) else z_content Z z' = z_content Z z)"
      using assms(1) unfolding zfs_laws_def by metis
    moreover have "z_snapshot Z z (root @ s @ ''@'' @ sn) = S s" using u s by simp
    moreover have "tree ((z_content Z z)(?t @ s := v)) ?t = (tree (z_content Z z) ?t)(s := v)" for v by (rule tree_inside [OF sep])
    moreover have "tree ((z_content Z z)(?t @ s := v)) root = tree (z_content Z z) root" for v
      by (rule tree_outside, rule apart_append [OF apart_temporary sep])
    moreover have "tree ((z_content Z z)(?t @ s := v)) (recovery_name root op) = tree (z_content Z z) (recovery_name root op)" for v
      by (rule tree_outside, rule apart_append [OF apart_restore_recovery sep])
    ultimately show ?thesis using u s by (cases e) (auto simp: map_le_def)
  qed
qed

lemma rename_cases:
  assumes "zfs_laws Z" "source \<in> dom (z_content Z z)" "datasetRename Z source target z = (e, z')"
  shows "if e = None then z_content Z z' = moved source target (z_content Z z)
    else z_content Z z' = z_content Z z \<and> z_snapshot Z z' = z_snapshot Z z"
proof -
  consider "z' = z" "e \<noteq> None" | "z_rename Z source target z = (e, z')"
    using assms unfolding datasetRename_def by (auto simp: zfs_laws_def split: if_splits)
  then show ?thesis
  proof cases
    case 1
    then show ?thesis by (cases e) simp_all
  next
    case 2
    then show ?thesis using assms(1) unfolding zfs_laws_def by metis
  qed
qed

lemma set_aside_step:
  assumes "zfs_laws Z" and u: "in_phase Z root sn op T S Untouched z"
    and all: "dom T \<subseteq> dom (tree (z_content Z z) (temporary_name root op))"
    and run: "datasetRename Z root (recovery_name root op) z = (e, z')"
  shows "in_phase Z root sn op T S (if e = None then Set_aside else Untouched) z'"
proof -
  have le: "tree (z_content Z z) (temporary_name root op) \<subseteq>\<^sub>m S |` dom T" using u by simp
  have "s \<in> dom T \<Longrightarrow> tree (z_content Z z) (temporary_name root op) s = (S |` dom T) s" for s
    using le all unfolding map_le_def by blast
  moreover have "s \<notin> dom T \<Longrightarrow> tree (z_content Z z) (temporary_name root op) s = (S |` dom T) s" for s
    using le unfolding map_le_def by (metis domIff restrict_out)
  ultimately have eq: "tree (z_content Z z) (temporary_name root op) = S |` dom T" by blast
  then have "dom T \<subseteq> dom S" using all by auto
  have "root \<in> dom (z_content Z z)" using u by (auto simp: tree_def dom_def)
  from rename_cases [OF assms(1) this run] show ?thesis
  proof (cases "e = None")
    case True
    then have "z_content Z z' = moved root (recovery_name root op) (z_content Z z)"
      using rename_cases [OF assms(1) \<open>root \<in> dom (z_content Z z)\<close> run] by simp
    with True eq u \<open>dom T \<subseteq> dom S\<close> show ?thesis
      by (simp add: tree_moved_target tree_moved_source tree_moved_other apart_facts)
  qed (use u in \<open>cases e; simp\<close>)
qed

lemma activate_step:
  assumes "zfs_laws Z" and u: "in_phase Z root sn op T S Set_aside z"
    and run: "datasetRename Z (temporary_name root op) root z = (e, z')"
  shows "in_phase Z root sn op T S (if e = None then Swapped else Set_aside) z'"
proof -
  have t: "temporary_name root op \<in> dom (z_content Z z)"
  proof -
    have "tree (z_content Z z) (temporary_name root op) [] = (S |` dom T) []" using u by simp
    moreover have "[] \<in> dom S \<inter> dom T" using u by auto
    ultimately show ?thesis by (auto simp: tree_def)
  qed
  show ?thesis using rename_cases [OF assms(1) t run] u
    by (cases e) (simp_all add: tree_moved_target tree_moved_source tree_moved_other apart_facts)
qed


declare in_phase.simps [simp del]

section \<open>The swap follows its abstraction\<close>

definition since :: "('z, 'c) zfs \<Rightarrow> string \<Rightarrow> string \<Rightarrow> string \<Rightarrow> (string \<rightharpoonup> 'c) \<Rightarrow> (string \<rightharpoonup> 'c) \<Rightarrow> swap_phase \<Rightarrow> 'z \<Rightarrow> bool" where
  "since Z root snapshot operationID T S p z \<longleftrightarrow> (\<exists>q. swap_step\<^sup>*\<^sup>* p q \<and> in_phase Z root snapshot operationID T S q z)"

lemma swap_step_facts [simp, intro]:
  "swap_step\<^sup>*\<^sup>* Untouched Set_aside" "swap_step\<^sup>*\<^sup>* Set_aside Swapped" "swap_step\<^sup>*\<^sup>* Untouched Swapped"
  by (auto intro: set_aside activate rtranclp_trans)

lemma sinceI: "in_phase Z root sn op T S q z \<Longrightarrow> swap_step\<^sup>*\<^sup>* p q \<Longrightarrow> since Z root sn op T S p z"
  by (auto simp: since_def)

lemma mountpoints_keep_phase:
  assumes "zfs_laws Z" "p \<noteq> Untouched"
  shows "triple (\<lambda>w. in_phase Z root sn op T S p (sw_zfs w)) (\<lambda>w. in_phase Z root sn op T S p (sw_zfs w))
    (restoreMountpoints Z a b ds) (\<lambda>_ w. in_phase Z root sn op T S p (sw_zfs w))"
  using assms(2) restoreMountpoints_keeps [OF assms(1)] by (cases p) (simp_all add: in_phase.simps)

lemma promotion_keeps_phase:
  assumes "zfs_laws Z" "p \<noteq> Untouched"
  shows "triple (\<lambda>w. in_phase Z root sn op T S p (sw_zfs w)) (\<lambda>w. in_phase Z root sn op T S p (sw_zfs w))
    (promoteTree Z a ds) (\<lambda>_ w. in_phase Z root sn op T S p (sw_zfs w))"
  using assms(2) promoteTree_keeps [OF assms(1)] by (cases p) (simp_all add: in_phase.simps)


text \<open>The three ways an attempt can continue.\<close>

lemma finish_swapped:
  assumes "zfs_laws Z"
  shows "triple (\<lambda>w. since Z root sn op T S Swapped (sw_zfs w)) (\<lambda>w. in_phase Z root sn op T S Swapped (sw_zfs w))
    (guarded (restoreMountpoints Z a b ds) (\<lambda>e. ret (Some e)) (promoteTree Z c ds'))
    (\<lambda>e w. in_phase Z root sn op T S Swapped (sw_zfs w))"
proof -
  have "triple (\<lambda>w. in_phase Z root sn op T S Swapped (sw_zfs w)) (\<lambda>w. in_phase Z root sn op T S Swapped (sw_zfs w))
    (guarded (restoreMountpoints Z a b ds) (\<lambda>e. ret (Some e)) (promoteTree Z c ds')) (\<lambda>e w. in_phase Z root sn op T S Swapped (sw_zfs w))"
    by (rule triple_guarded, rule mountpoints_keep_phase [OF assms]) (auto intro!: promotion_keeps_phase [OF assms])
  then show ?thesis by (rule triple_weaken) (auto intro: sinceI)
qed

lemma activate_temporary:
  assumes "zfs_laws Z"
  shows "triple (\<lambda>w. since Z root sn op T S Set_aside (sw_zfs w)) (\<lambda>w. in_phase Z root sn op T S Set_aside (sw_zfs w))
    (guarded (restoreMountpoints Z a b ds) (\<lambda>e. ret (Some e))
       (guarded (pool_Execute (datasetRename Z (temporary_name root op) root)) (\<lambda>e. ret (Some e))
         (guarded (restoreMountpoints Z a' b' ds') (\<lambda>e. ret (Some e)) (promoteTree Z c ds''))))
    (\<lambda>e w. if e = None then in_phase Z root sn op T S Swapped (sw_zfs w) else since Z root sn op T S Set_aside (sw_zfs w))"
    (is "triple ?C ?P (guarded ?m _ (guarded ?r _ ?k)) ?Q")
proof -
  have m: "triple ?C ?P ?m (\<lambda>_. ?P)"
    by (rule triple_weaken [OF mountpoints_keep_phase [OF assms, of Set_aside]]) (auto intro: sinceI)
  have r: "triple ?C ?P ?r (\<lambda>e w. if e = None then in_phase Z root sn op T S Swapped (sw_zfs w) else ?C w)"
    by (rule triple_pool_Execute) (auto dest: activate_step [OF assms] intro: sinceI split: if_splits)
  have k: "triple ?C (\<lambda>w. in_phase Z root sn op T S Swapped (sw_zfs w)) ?k ?Q"
    by (rule triple_weaken [OF finish_swapped [OF assms]]) (auto simp: since_def intro: converse_rtranclp_into_rtranclp activate)
  have "triple ?C ?P (guarded ?r (\<lambda>e. ret (Some e)) ?k) ?Q" by (rule triple_stop [OF r]) (use k in simp_all)
  then show ?thesis by (intro triple_stop [OF m]) (auto intro: sinceI)
qed

lemma clone_tree:
  assumes "zfs_laws Z"
  shows "triple (\<lambda>w. in_phase Z root sn op T S Untouched (sw_zfs w))
    (\<lambda>w. in_phase Z root sn op T S Untouched (sw_zfs w) \<and> set ds = (\<lambda>s. root @ s) ` dom T)
    (each (\<lambda>d. pool_Execute (datasetClone Z (d @ ''@'' @ sn) (temporary_name root op @ drop (length root) d))) ds)
    (\<lambda>e w. in_phase Z root sn op T S Untouched (sw_zfs w) \<and>
       (e = None \<longrightarrow> dom T \<subseteq> dom (tree (z_content Z (sw_zfs w)) (temporary_name root op))))"
proof (rule triple_pre [where b = "set ds = (\<lambda>s. root @ s) ` dom T"], simp)
  assume ds: "set ds = (\<lambda>s. root @ s) ` dom T"
  let ?I = "\<lambda>w. in_phase Z root sn op T S Untouched (sw_zfs w)"
  let ?R = "\<lambda>d w. drop (length root) d \<in> dom (tree (z_content Z (sw_zfs w)) (temporary_name root op))"
  have "triple ?I (\<lambda>w. ?I w \<and> (\<forall>d\<in>{}. ?R d w))
    (each (\<lambda>d. pool_Execute (datasetClone Z (d @ ''@'' @ sn) (temporary_name root op @ drop (length root) d))) ds)
    (\<lambda>e w. if e = None then ?I w \<and> (\<forall>d\<in>{} \<union> set ds. ?R d w) else ?I w)"
  proof (rule triple_each)
    fix d D
    assume "d \<in> set ds"
    then obtain s where s: "d = root @ s" "s \<in> dom T" using ds by auto
    show "triple ?I (\<lambda>w. ?I w \<and> (\<forall>d\<in>D. ?R d w))
      (pool_Execute (datasetClone Z (d @ ''@'' @ sn) (temporary_name root op @ drop (length root) d)))
      (\<lambda>e w. if e = None then ?I w \<and> (\<forall>d\<in>insert d D. ?R d w) else ?I w)"
    proof (rule triple_pool_Execute)
      fix z e z'
      assume pre: "in_phase Z root sn op T S Untouched z \<and> (\<forall>d\<in>D. drop (length root) d \<in> dom (tree (z_content Z z) (temporary_name root op)))"
        and run: "datasetClone Z (d @ ''@'' @ sn) (temporary_name root op @ drop (length root) d) z = (e, z')"
      have "in_phase Z root sn op T S Untouched z' \<and>
        dom (tree (z_content Z z) (temporary_name root op)) \<subseteq> dom (tree (z_content Z z') (temporary_name root op)) \<and>
        (e = None \<longrightarrow> s \<in> dom (tree (z_content Z z') (temporary_name root op)))"
        by (rule datasetClone_step [OF assms _ s(2)]) (use pre run s(1) in simp_all)
      moreover have "drop (length root) d = s" using s by simp
      ultimately show "(if e = None then in_phase Z root sn op T S Untouched z' \<and>
          (\<forall>d\<in>insert d D. drop (length root) d \<in> dom (tree (z_content Z z') (temporary_name root op))) else in_phase Z root sn op T S Untouched z') \<and>
        (\<forall>x. if Some x = None then in_phase Z root sn op T S Untouched z' \<and>
          (\<forall>d\<in>insert d D. drop (length root) d \<in> dom (tree (z_content Z z') (temporary_name root op))) else in_phase Z root sn op T S Untouched z')"
        using pre by auto
    qed simp
  qed
  then show "triple ?I (\<lambda>w. ?I w \<and> set ds = (\<lambda>s. root @ s) ` dom T)
    (each (\<lambda>d. pool_Execute (datasetClone Z (d @ ''@'' @ sn) (temporary_name root op @ drop (length root) d))) ds)
    (\<lambda>e w. ?I w \<and> (e = None \<longrightarrow> dom T \<subseteq> dom (tree (z_content Z (sw_zfs w)) (temporary_name root op))))"
    by (rule triple_weaken) (use ds in \<open>auto split: if_splits\<close>)
qed


lemma set_aside_and_activate:
  assumes "zfs_laws Z"
  shows "triple (\<lambda>w. since Z root sn op T S Untouched (sw_zfs w))
    (\<lambda>w. in_phase Z root sn op T S Untouched (sw_zfs w) \<and> dom T \<subseteq> dom (tree (z_content Z (sw_zfs w)) (temporary_name root op)))
    (guarded (pool_Execute (datasetRename Z root (recovery_name root op))) (\<lambda>e. ret (Some e))
      (guarded (restoreMountpoints Z a b ds) (\<lambda>e. ret (Some e))
        (guarded (pool_Execute (datasetRename Z (temporary_name root op) root)) (\<lambda>e. ret (Some e))
          (guarded (restoreMountpoints Z a' b' ds') (\<lambda>e. ret (Some e)) (promoteTree Z c ds'')))))
    (\<lambda>e w. if e = None then in_phase Z root sn op T S Swapped (sw_zfs w) else since Z root sn op T S Untouched (sw_zfs w))"
    (is "triple ?C ?P (guarded ?m _ ?k) ?Q")
proof -
  have m: "triple ?C ?P ?m (\<lambda>e w. if e = None then in_phase Z root sn op T S Set_aside (sw_zfs w) else ?C w)"
    by (rule triple_pool_Execute) (auto dest: set_aside_step [OF assms] intro: sinceI split: if_splits)
  have k: "triple ?C (\<lambda>w. in_phase Z root sn op T S Set_aside (sw_zfs w)) ?k ?Q"
    by (rule triple_weaken [OF activate_temporary [OF assms]])
      (auto simp: since_def split: if_splits intro: converse_rtranclp_into_rtranclp set_aside)
  show ?thesis by (rule triple_stop [OF m]) (use k in simp_all)
qed

lemma parent_of_child: "p \<noteq> [] \<Longrightarrow> CHR ''/'' \<notin> set l \<Longrightarrow> parent_of (p @ CHR ''/'' # l) = p"
proof -
  assume "p \<noteq> []" "CHR ''/'' \<notin> set l"
  then have "takeWhile (\<lambda>c. c \<noteq> CHR ''/'') (rev (p @ CHR ''/'' # l)) = rev l" by (auto simp: takeWhile_append)
  then show ?thesis using \<open>p \<noteq> []\<close> by (simp add: parent_of_def)
qed

lemma listed_tree:
  assumes "set ds = {n \<in> dom c. in_tree p n}" "r = p @ CHR ''/'' # l"
  shows "list_ex (in_tree r) ds \<longleftrightarrow> tree c r \<noteq> Map.empty"
    and "set (filter (in_tree r) ds) = (\<lambda>s. r @ s) ` dom (tree c r)"
proof -
  have p: "in_tree p (r @ s)" for s unfolding in_tree_iff assms(2) by (rule exI [of _ "CHR ''/'' # l @ s"]) simp
  show f: "set (filter (in_tree r) ds) = (\<lambda>s. r @ s) ` dom (tree c r)"
  proof
    show "set (filter (in_tree r) ds) \<subseteq> (\<lambda>s. r @ s) ` dom (tree c r)"
      using assms(1) by (auto simp: in_tree_iff [of r] in_tree_dom) (simp_all add: image_iff, metis in_tree_dom domI append_Nil2, metis in_tree_dom domI)
    show "(\<lambda>s. r @ s) ` dom (tree c r) \<subseteq> set (filter (in_tree r) ds)"
    proof
      fix n
      assume "n \<in> (\<lambda>s. r @ s) ` dom (tree c r)"
      then obtain s where s: "n = r @ s" "s \<in> dom (tree c r)" by blast
      then have sep: "s = [] \<or> hd s = CHR ''/''" using tree_dom by metis
      then have "n \<in> dom c" using in_tree_dom [of s c r] s by simp
      moreover have "in_tree r n" using s(1) sep unfolding in_tree_iff by blast
      ultimately show "n \<in> set (filter (in_tree r) ds)" using assms(1) p s(1) by simp
    qed
  qed
  have "list_ex (in_tree r) ds \<longleftrightarrow> set (filter (in_tree r) ds) \<noteq> {}" by (auto simp: list_ex_iff)
  then show "list_ex (in_tree r) ds \<longleftrightarrow> tree c r \<noteq> Map.empty" unfolding f by auto
qed


lemma swap_flags:
  assumes "set ds = {n \<in> dom c. in_tree p n}" "root = p @ CHR ''/'' # l"
  shows "list_ex (in_tree root) ds \<longleftrightarrow> tree c root \<noteq> Map.empty"
    and "list_ex (\<lambda>d. \<not> in_tree root d \<and> in_tree (temporary_name root op) d) ds \<longleftrightarrow> tree c (temporary_name root op) \<noteq> Map.empty"
    and "list_ex (\<lambda>d. \<not> in_tree root d \<and> \<not> in_tree (temporary_name root op) d \<and> in_tree (recovery_name root op) d) ds \<longleftrightarrow>
      tree c (recovery_name root op) \<noteq> Map.empty"
proof -
  have t: "temporary_name root op = p @ CHR ''/'' # (l @ ''-restore-'' @ op)"
    and r: "recovery_name root op = p @ CHR ''/'' # (l @ ''-recovery-'' @ op)"
    using assms(2) by (simp_all add: temporary_name_def recovery_name_def)
  show "list_ex (in_tree root) ds \<longleftrightarrow> tree c root \<noteq> Map.empty" by (rule listed_tree(1) [OF assms])
  have "(\<lambda>d. \<not> in_tree root d \<and> in_tree (temporary_name root op) d) = in_tree (temporary_name root op)"
    using apart_temporary [of root op] by (auto simp: apart_def fun_eq_iff)
  then show "list_ex (\<lambda>d. \<not> in_tree root d \<and> in_tree (temporary_name root op) d) ds \<longleftrightarrow> tree c (temporary_name root op) \<noteq> Map.empty"
    using listed_tree(1) [OF assms(1) t] by simp
  have "(\<lambda>d. \<not> in_tree root d \<and> \<not> in_tree (temporary_name root op) d \<and> in_tree (recovery_name root op) d) = in_tree (recovery_name root op)"
    using apart_recovery [of root op] apart_restore_recovery [of root op] by (auto simp: apart_def fun_eq_iff)
  then show "list_ex (\<lambda>d. \<not> in_tree root d \<and> \<not> in_tree (temporary_name root op) d \<and> in_tree (recovery_name root op) d) ds \<longleftrightarrow>
      tree c (recovery_name root op) \<noteq> Map.empty"
    using listed_tree(1) [OF assms(1) r] by simp
qed

lemma restrict_nonempty: "T [] \<noteq> None \<Longrightarrow> dom T \<subseteq> dom S \<Longrightarrow> S |` dom T \<noteq> Map.empty \<and> T \<noteq> Map.empty"
  by (metis domIff dom_empty empty_iff inf.absorb2 restrict_map_def dom_restrict subsetD)

lemma restore_listed_follows:
  assumes "zfs_laws Z" and root: "root = p @ CHR ''/'' # l"
  shows "triple (\<lambda>w. since Z root sn op T S q (sw_zfs w))
    (\<lambda>w. in_phase Z root sn op T S q (sw_zfs w) \<and> set ds = {n \<in> dom (z_content Z (sw_zfs w)). in_tree p n})
    (restore_listed Z root sn op ds)
    (\<lambda>e w. if e = None then in_phase Z root sn op T S Swapped (sw_zfs w) else since Z root sn op T S q (sw_zfs w))"
    (is "triple ?C (\<lambda>w. ?P w \<and> ?L w) _ ?Q")
proof (cases q)
  case Untouched
  let ?b = "list_ex (in_tree root) ds \<and>
    \<not> list_ex (\<lambda>d. \<not> in_tree root d \<and> \<not> in_tree (temporary_name root op) d \<and> in_tree (recovery_name root op) d) ds \<and>
    set (filter (in_tree root) ds) = (\<lambda>s. root @ s) ` dom T"
  have b: "?b" if "?P w \<and> ?L w" for w
    using that listed_tree(2) [OF _ root, of ds "z_content Z (sw_zfs w)"] swap_flags(1) [OF _ root, of ds "z_content Z (sw_zfs w)"]
      swap_flags(2,3) [OF _ root, of ds "z_content Z (sw_zfs w)" op]
    unfolding Untouched in_phase.simps by auto
  show ?thesis
  proof (rule triple_pre [where b = ?b], erule b)
    assume b: ?b
    have clones: "triple ?C (\<lambda>w. ?P w \<and> ?L w)
      (each (\<lambda>d. pool_Execute (datasetClone Z (d @ ''@'' @ sn) (temporary_name root op @ drop (length root) d))) (filter (in_tree root) ds))
      (\<lambda>e w. ?P w \<and> (e = None \<longrightarrow> dom T \<subseteq> dom (tree (z_content Z (sw_zfs w)) (temporary_name root op))))"
      unfolding Untouched by (rule triple_weaken [OF clone_tree [OF assms(1)]]) (use b in \<open>auto intro: sinceI\<close>)
    show "triple ?C (\<lambda>w. ?P w \<and> ?L w) (restore_listed Z root sn op ds) ?Q"
      unfolding restore_listed_def Let_def using b
      by (simp only: simp_thms if_True if_False, intro triple_stop [OF clones], simp add: sinceI Untouched)
        (simp only: Untouched simp_thms, rule set_aside_and_activate [OF assms(1)])
  qed
next
  case Set_aside
  let ?b = "\<not> list_ex (in_tree root) ds \<and>
    list_ex (\<lambda>d. \<not> in_tree root d \<and> in_tree (temporary_name root op) d) ds \<and>
    list_ex (\<lambda>d. \<not> in_tree root d \<and> \<not> in_tree (temporary_name root op) d \<and> in_tree (recovery_name root op) d) ds"
  have b: "?b" if "?P w \<and> ?L w" for w
    using that swap_flags(1) [OF _ root, of ds "z_content Z (sw_zfs w)"]
      swap_flags(2,3) [OF _ root, of ds "z_content Z (sw_zfs w)" op] restrict_nonempty [of T S]
    unfolding Set_aside in_phase.simps by simp
  show ?thesis
  proof (rule triple_pre [where b = ?b], erule b)
    assume ?b
    then show "triple ?C (\<lambda>w. ?P w \<and> ?L w) (restore_listed Z root sn op ds) ?Q"
      unfolding restore_listed_def Let_def Set_aside
      by (simp only: simp_thms if_True if_False) (rule triple_weaken [OF activate_temporary [OF assms(1)]], auto)
  qed
next
  case Swapped
  let ?b = "list_ex (in_tree root) ds \<and>
    list_ex (\<lambda>d. \<not> in_tree root d \<and> \<not> in_tree (temporary_name root op) d \<and> in_tree (recovery_name root op) d) ds"
  have b: "?b" if "?P w \<and> ?L w" for w
    using that swap_flags(1) [OF _ root, of ds "z_content Z (sw_zfs w)"]
      swap_flags(2,3) [OF _ root, of ds "z_content Z (sw_zfs w)" op] restrict_nonempty [of T S]
    unfolding Swapped in_phase.simps by simp
  show ?thesis
  proof (rule triple_pre [where b = ?b], erule b)
    assume b: ?b
    have "triple ?C ?P (restoreMountpoints Z (recovery_name root op) (recovery_name root op) ds) (\<lambda>_. ?P)"
      unfolding Swapped by (rule triple_weaken [OF mountpoints_keep_phase [OF assms(1)]]) (auto intro: sinceI)
    then have "triple ?C ?P (guarded (restoreMountpoints Z (recovery_name root op) (recovery_name root op) ds) (\<lambda>e. ret (Some e))
        (guarded (restoreMountpoints Z root root ds) (\<lambda>e. ret (Some e)) (promoteTree Z root ds))) (\<lambda>_. ?P)"
      by (rule triple_stop) (use finish_swapped [OF assms(1)] in \<open>auto simp: Swapped\<close>)
    then show "triple ?C (\<lambda>w. ?P w \<and> ?L w) (restore_listed Z root sn op ds) ?Q"
      unfolding restore_listed_def Let_def Swapped using b
      by (simp only: simp_thms if_True if_False) (erule triple_weaken, auto intro: sinceI)
  qed
qed

lemma restoreDatasets_follows:
  assumes "zfs_laws Z" and root: "root = p @ CHR ''/'' # l" "p \<noteq> []" "CHR ''/'' \<notin> set l"
  shows "triple (\<lambda>w. since Z root sn op T S q (sw_zfs w)) (\<lambda>w. in_phase Z root sn op T S q (sw_zfs w))
    (restoreDatasets Z root sn op)
    (\<lambda>e w. if e = None then in_phase Z root sn op T S Swapped (sw_zfs w) else since Z root sn op T S q (sw_zfs w))"
    (is "triple ?C ?P _ ?Q")
proof -
  have listing: "set (z_list Z z) = dom (z_content Z z)" for z using assms(1) by (simp add: zfs_laws_def)
  have call: "triple ?C ?P (pool_Execute (\<lambda>z. (None, z))) (\<lambda>_. ?P)"
    by (rule triple_pool_Execute) (auto intro: sinceI)
  have list: "triple ?C ?P (list_datasets Z p)
      (\<lambda>r w. ?P w \<and> (\<forall>ds. r = Inr ds \<longrightarrow> set ds = {n \<in> dom (z_content Z (sw_zfs w)). in_tree p n}))"
    unfolding list_datasets_def
    by (rule triple_seq [OF call]) (auto simp: datasetList_def listing intro!: triple_get split: option.splits if_splits)
  show ?thesis unfolding restoreDatasets_def fetch_def parent_of_child [OF root(2,3), folded root(1)]
  proof (rule triple_seq [OF list])
    fix r :: "string + string list"
    show "triple ?C (\<lambda>w. ?P w \<and> (\<forall>ds. r = Inr ds \<longrightarrow> set ds = {n \<in> dom (z_content Z (sw_zfs w)). in_tree p n}))
      (case r of Inl e \<Rightarrow> ret (Some e) | Inr x \<Rightarrow> restore_listed Z root sn op x) ?Q"
      using restore_listed_follows [OF assms(1) root(1)] by (cases r) (auto intro: sinceI)
  qed
qed


text \<open>An attempt of the task queue: the same function from the start, with its own faults.\<close>

definition attempt :: "('z, 'c) zfs \<Rightarrow> string \<Rightarrow> string \<Rightarrow> string \<Rightarrow> (nat \<Rightarrow> result) \<Rightarrow> 'z swap_world \<Rightarrow> 'z swap_world" where
  "attempt Z root snapshot operationID fates w = snd (restoreDatasets Z root snapshot operationID (w\<lparr>sw_count := 0, sw_fates := fates\<rparr>))"

lemma attempt_simulated:
  assumes "zfs_laws Z" "root = p @ CHR ''/'' # l" "p \<noteq> []" "CHR ''/'' \<notin> set l"
    and "in_phase Z root sn op T S q (sw_zfs w)" "restoreDatasets Z root sn op w = (r, w')"
  shows "\<exists>q'. swap_step\<^sup>*\<^sup>* q q' \<and> in_phase Z root sn op T S q' (sw_zfs w') \<and> (r = Some None \<longrightarrow> q' = Swapped)"
proof -
  have reach: "swap_step\<^sup>*\<^sup>* q Swapped" by (cases q) simp_all
  from tripleD [OF restoreDatasets_follows [OF assms(1-4)] assms(5,6)] reach show ?thesis
    by (auto simp: since_def split: option.splits if_splits)
qed

interpretation swap: machine "attempt Z root sn op" "\<lambda>w. zfs_laws Z \<and> (\<exists>p l. root = p @ CHR ''/'' # l \<and> p \<noteq> [] \<and> CHR ''/'' \<notin> set l) \<and>
    since Z root sn op T S q (sw_zfs w)" for Z root sn op T S q
proof
  fix fates and w :: "'a swap_world"
  assume a: "zfs_laws Z \<and> (\<exists>p l. root = p @ CHR ''/'' # l \<and> p \<noteq> [] \<and> CHR ''/'' \<notin> set l) \<and> since Z root sn op T S q (sw_zfs w)"
  then obtain q' where q': "swap_step\<^sup>*\<^sup>* q q'" "in_phase Z root sn op T S q' (sw_zfs (w\<lparr>sw_count := 0, sw_fates := fates\<rparr>))"
    by (auto simp: since_def)
  obtain r w' where run: "restoreDatasets Z root sn op (w\<lparr>sw_count := 0, sw_fates := fates\<rparr>) = (r, w')" by fastforce
  from a q' attempt_simulated [OF _ _ _ _ q'(2) run]
  show "zfs_laws Z \<and> (\<exists>p l. root = p @ CHR ''/'' # l \<and> p \<noteq> [] \<and> CHR ''/'' \<notin> set l) \<and>
      since Z root sn op T S q (sw_zfs (attempt Z root sn op fates w))"
    unfolding attempt_def since_def run by (simp, meson rtranclp_trans)
qed

section \<open>Properties\<close>

text \<open>
  C9. Restoring a stack's snapshot refines the two-step swap: whatever number of attempts died, were refused
  or returned an error after taking effect, at whatever command, the pool is in one of the three phases (the
  old tree in place with at most clones of the snapshot beside it, the old tree whole under the recovery
  name, or the snapshot's tree in place and the old tree whole under the recovery name); the next attempt
  only moves forward, and returns success only when the snapshot's tree is in place and the old one kept.
\<close>
theorem restore_refines_the_swap:
  assumes "zfs_laws Z" "root = p @ CHR ''/'' # l" "p \<noteq> []" "CHR ''/'' \<notin> set l"
    and "in_phase Z root sn op T S Untouched (sw_zfs w)"
    and "restoreDatasets Z root sn op (runs (attempt Z root sn op) fs w) = (r, w')"
  shows "\<exists>q q'. swap_step\<^sup>*\<^sup>* Untouched q \<and> in_phase Z root sn op T S q (sw_zfs (runs (attempt Z root sn op) fs w)) \<and>
    swap_step\<^sup>*\<^sup>* q q' \<and> in_phase Z root sn op T S q' (sw_zfs w') \<and> (r = Some None \<longrightarrow> q' = Swapped)"
proof -
  have "since Z root sn op T S Untouched (sw_zfs w)" using assms(5) by (rule sinceI) simp
  then have "since Z root sn op T S Untouched (sw_zfs (runs (attempt Z root sn op) fs w))"
    using swap.runs_inv [of Z root sn op T S Untouched w fs] assms(1-4) by blast
  then obtain q where q: "swap_step\<^sup>*\<^sup>* Untouched q" "in_phase Z root sn op T S q (sw_zfs (runs (attempt Z root sn op) fs w))"
    by (auto simp: since_def)
  with attempt_simulated [OF assms(1-4) q(2) assms(6)] show ?thesis by blast
qed

section \<open>A concrete pool\<close>

type_synonym pool = "string list \<times> (string \<rightharpoonup> nat) \<times> (string \<rightharpoonup> nat)"

definition demo_zfs :: "(pool, nat) zfs" where
  "demo_zfs = \<lparr>
     z_list = (\<lambda>(U, f, _). filter (\<lambda>n. f n \<noteq> None) U),
     z_clone = (\<lambda>s t (U, f, g). case g s of None \<Rightarrow> (Some ''no snapshot'', (U, f, g)) | Some v \<Rightarrow> (None, (t # U, (f |` set U)(t \<mapsto> v), g))),
     z_rename = (\<lambda>s t (U, f, g). (None, (U @ map (\<lambda>n. t @ drop (length s) n) U, moved s t (f |` set U), g))),
     z_set = (\<lambda>_ _ _ z. (None, z)),
     z_origin = (\<lambda>_ _. ''-''),
     z_promote = (\<lambda>_ z. (None, z)),
     z_content = (\<lambda>(U, f, _). f |` set U),
     z_snapshot = (\<lambda>(_, _, g). g)\<rparr>"

lemma moved_restrict: "moved s t (f |` set U) |` set (U @ map (\<lambda>n. t @ drop (length s) n) U) = moved s t (f |` set U)"
proof
  fix n
  show "(moved s t (f |` set U) |` set (U @ map (\<lambda>n. t @ drop (length s) n) U)) n = moved s t (f |` set U) n"
  proof (cases "in_tree t n")
    case True
    then obtain u where "n = t @ u" by (auto simp: in_tree_iff)
    then show ?thesis by (auto simp: moved_def restrict_map_def image_iff in_tree_iff)
  next
    case False
    then show ?thesis by (auto simp: moved_def restrict_map_def)
  qed
qed

lemma demo_zfs_laws: "zfs_laws demo_zfs"
  unfolding zfs_laws_def
proof (intro conjI allI impI)
  show "set (z_list demo_zfs z) = dom (z_content demo_zfs z)" for z
    by (cases z) (auto simp: demo_zfs_def restrict_map_def split: if_splits)
next
  fix s t e and z z' :: pool
  obtain U f g where z: "z = (U, f, g)" by (cases z)
  assume "z_rename demo_zfs s t z = (e, z')"
  then show "if e = None then z_content demo_zfs z' = moved s t (z_content demo_zfs z)
      else z_content demo_zfs z' = z_content demo_zfs z \<and> z_snapshot demo_zfs z' = z_snapshot demo_zfs z"
    using moved_restrict [of s t f U] by (auto simp: z demo_zfs_def)
qed (auto simp: demo_zfs_def restrict_map_def fun_eq_iff split: option.splits if_splits prod.splits)


definition demo_world :: "pool swap_world" where
  "demo_world = \<lparr>sw_zfs = ([''p'', ''p/x''], [''p'' \<mapsto> 0, ''p/x'' \<mapsto> 1], [''p/x@s'' \<mapsto> 2]), sw_count = 0, sw_fates = (\<lambda>_. Done)\<rparr>"

definition demo_faults :: "(nat \<Rightarrow> result) list" where
  "demo_faults = [(\<lambda>n. if n = 1 then Doubtful ''timeout'' else Done), (\<lambda>n. if n = 3 then Crash else Done), (\<lambda>_. Done)]"

lemma demo_result: "fst (restoreDatasets demo_zfs ''p/x'' ''s'' ''7'' (runs (attempt demo_zfs ''p/x'' ''s'' ''7'') demo_faults demo_world)) = Some None"
  by code_simp

lemma demo_untouched: "in_phase demo_zfs ''p/x'' ''s'' ''7'' [[] \<mapsto> 1] [[] \<mapsto> 2] Untouched (sw_zfs demo_world)"
  by (auto simp: in_phase.simps demo_zfs_def demo_world_def tree_def temporary_name_def recovery_name_def fun_eq_iff map_le_def restrict_map_def)

theorem restore_refines_the_swap_witness:
  "in_phase demo_zfs ''p/x'' ''s'' ''7'' [[] \<mapsto> 1] [[] \<mapsto> 2] Swapped
     (sw_zfs (snd (restoreDatasets demo_zfs ''p/x'' ''s'' ''7'' (runs (attempt demo_zfs ''p/x'' ''s'' ''7'') demo_faults demo_world))))"
proof -
  obtain r w' where run: "restoreDatasets demo_zfs ''p/x'' ''s'' ''7'' (runs (attempt demo_zfs ''p/x'' ''s'' ''7'') demo_faults demo_world) = (r, w')"
    by fastforce
  have "r = Some None" using demo_result unfolding run by simp
  with restore_refines_the_swap [OF demo_zfs_laws _ _ _ demo_untouched run, of "''p''" "''x''"] show ?thesis unfolding run by auto
qed

end
