(* ===== verification/Host_Network.thy ===== *)
theory Host_Network
  imports Update_World Ipam
begin

unbundle bit_operations_syntax

text \<open>
  The network settings of a host (\<open>internal/hostnetwork/config.go\<close> and \<open>manager.go\<close>): validation of a
  configuration, and the transaction that applies one, waits for a confirmation and rolls back. The lock
  file serialises the operations; \<open>apply\<close> runs in a goroutine of the process that accepted the change.

  The backend is an interface of the code: a call succeeds, is refused, takes effect although it fails, or
  never returns, with or without a trace. Texts that \<open>net/netip\<close> parses are modelled by the parse, as in
  \<open>Ipam\<close>; the configuration's hash (\<open>Revision\<close>) is an argument.
\<close>

section \<open>Configurations\<close>

datatype 'a field = Blank | Garbled | Parsed 'a

record ipv4 =
  ip_Mode :: string
  ip_Address :: "addr field"
  ip_Netmask :: "32 word field"
  ip_Gateway :: "addr field"

record bond =
  b_Name :: string
  b_Mode :: string
  b_Members :: "string list"

record config =
  c_Version :: int
  c_ExcludedMACs :: "string list"
  c_Bonds :: "bond list"
  c_IPv4 :: ipv4
  c_DNSServers :: "addr field list"
  c_DefaultPoolID :: string

definition Bridge :: string where "Bridge = ''floatlab-lan''"

definition DefaultConfig :: config where
  "DefaultConfig = \<lparr>c_Version = 1, c_ExcludedMACs = [], c_Bonds = [],
     c_IPv4 = \<lparr>ip_Mode = ''dhcp'', ip_Address = Blank, ip_Netmask = Blank, ip_Gateway = Blank\<rparr>,
     c_DNSServers = [Parsed (V4 0x01010101), Parsed (V4 0x08080808)], c_DefaultPoolID = []\<rparr>"

definition Error :: "string \<Rightarrow> string \<Rightarrow> string" where
  "Error code message = ''network.'' @ code @ '': '' @ message"

subsection \<open>Ethernet addresses\<close>

definition hex_value :: "char \<Rightarrow> nat option" where
  "hex_value c =
     (if CHR ''0'' \<le> c \<and> c \<le> CHR ''9'' then Some (of_char c - 48)
      else if CHR ''a'' \<le> c \<and> c \<le> CHR ''f'' then Some (of_char c - 87)
      else if CHR ''A'' \<le> c \<and> c \<le> CHR ''F'' then Some (of_char c - 55)
      else None)"

text \<open>\<open>net.ParseMAC\<close>, as far as six octets go: pairs joined by one separator, or fours joined by dots.\<close>

fun pairs :: "char \<Rightarrow> string \<Rightarrow> nat list option" where
  "pairs sep [a, b] = (case (hex_value a, hex_value b) of (Some x, Some y) \<Rightarrow> Some [16 * x + y] | _ \<Rightarrow> None)"
| "pairs sep (a # b # c # cs) = (if c \<noteq> sep then None else
     case (hex_value a, hex_value b, pairs sep cs) of (Some x, Some y, Some r) \<Rightarrow> Some ((16 * x + y) # r) | _ \<Rightarrow> None)"
| "pairs sep _ = None"

fun fours :: "string \<Rightarrow> nat list option" where
  "fours [a, b, c, d] = (case (hex_value a, hex_value b, hex_value c, hex_value d) of
     (Some x, Some y, Some u, Some v) \<Rightarrow> Some [16 * x + y, 16 * u + v] | _ \<Rightarrow> None)"
| "fours (a # b # c # d # e # es) = (if e \<noteq> CHR ''.'' then None else
     case (hex_value a, hex_value b, hex_value c, hex_value d, fours es) of
       (Some x, Some y, Some u, Some v, Some r) \<Rightarrow> Some ((16 * x + y) # (16 * u + v) # r) | _ \<Rightarrow> None)"
| "fours _ = None"

definition ParseMAC :: "string \<Rightarrow> nat list option" where
  "ParseMAC s = (if length s < 14 then None
     else if s ! 2 \<in> {CHR '':'', CHR ''-''} then pairs (s ! 2) s
     else if s ! 4 = CHR ''.'' then fours s else None)"

definition hex_digit :: "nat \<Rightarrow> char" where
  "hex_digit n = (if n < 10 then char_of (48 + n) else char_of (87 + n))"

fun mac_String :: "nat list \<Rightarrow> string" where
  "mac_String [] = []"
| "mac_String [b] = [hex_digit (b div 16), hex_digit (b mod 16)]"
| "mac_String (b # bs) = hex_digit (b div 16) # hex_digit (b mod 16) # CHR '':'' # mac_String bs"

definition MAC :: "string \<Rightarrow> string + string" where
  "MAC value = (case ParseMAC value of
     Some m \<Rightarrow> if length m \<noteq> 6 \<or> odd (hd m) \<or> m = [0, 0, 0, 0, 0, 0] then Inl (''invalid unicast Ethernet MAC '' @ value) else Inr (mac_String m)
   | None \<Rightarrow> Inl (''invalid unicast Ethernet MAC '' @ value))"

subsection \<open>IPv4 settings\<close>

text \<open>\<open>netip.Addr.IsGlobalUnicast\<close>\<close>

fun unmap :: "addr \<Rightarrow> addr" where
  "unmap (V6 a) = (if drop_bit 32 a = 0xFFFF then V4 (ucast a) else V6 a)"
| "unmap a = a"

fun loopback :: "addr \<Rightarrow> bool" where
  "loopback (V4 a) \<longleftrightarrow> drop_bit 24 a = 127"
| "loopback (V6 a) \<longleftrightarrow> a = 1"

fun multicast :: "addr \<Rightarrow> bool" where
  "multicast (V4 a) \<longleftrightarrow> drop_bit 28 a = 14"
| "multicast (V6 a) \<longleftrightarrow> drop_bit 120 a = 255"

fun link_local :: "addr \<Rightarrow> bool" where
  "link_local (V4 a) \<longleftrightarrow> drop_bit 16 a = 0xA9FE"
| "link_local (V6 a) \<longleftrightarrow> drop_bit 118 a = 0x3FA"

definition IsGlobalUnicast :: "addr \<Rightarrow> bool" where
  "IsGlobalUnicast a \<longleftrightarrow> a \<notin> {V4 0, V4 (- 1), V6 0} \<and> \<not> loopback (unmap a) \<and> \<not> multicast (unmap a) \<and> \<not> link_local (unmap a)"

text \<open>\<open>net.IPMask.Size\<close>: the leading ones, when nothing follows them.\<close>

definition mask_Size :: "32 word \<Rightarrow> nat option" where
  "mask_Size m = find (\<lambda>n. m = NOT (mask (32 - n))) [0..<33]"

fun isBroadcast :: "addr \<Rightarrow> nat \<Rightarrow> bool" where
  "isBroadcast (V4 a) bits \<longleftrightarrow> a AND mask (32 - bits) = mask (32 - bits)"
| "isBroadcast (V6 _) bits = False"

definition IPv4_Prefix :: "ipv4 \<Rightarrow> string + prefix" where
  "IPv4_Prefix v = (case ip_Address v of
     Parsed (V4 a) \<Rightarrow>
       if \<not> IsGlobalUnicast (V4 a) then Inl ''invalid static IPv4 address''
       else (case ip_Netmask v of
         Parsed m \<Rightarrow> (case mask_Size m of
             Some ones \<Rightarrow>
               if ones = 0 \<or> ones > 30 then Inl ''netmask must be contiguous /1 through /30''
               else let base = a AND NOT (mask (32 - ones)) in
                 if a = base \<or> a = base OR mask (32 - ones) then Inl ''static address cannot be network or broadcast''
                 else Inr \<lparr>pfx_Addr = V4 a, pfx_Bits = ones\<rparr>
           | None \<Rightarrow> Inl ''netmask must be contiguous /1 through /30'')
       | _ \<Rightarrow> Inl ''invalid IPv4 netmask'')
   | _ \<Rightarrow> Inl ''invalid static IPv4 address'')"

subsection \<open>Validation\<close>

definition ascii_letter :: "char \<Rightarrow> bool" where
  "ascii_letter c \<longleftrightarrow> (CHR ''a'' \<le> c \<and> c \<le> CHR ''z'') \<or> (CHR ''A'' \<le> c \<and> c \<le> CHR ''Z'')"

fun bondName :: "string \<Rightarrow> bool" where
  "bondName [] = False"
| "bondName (c # cs) \<longleftrightarrow> ascii_letter c \<and> length cs \<le> 14 \<and>
     list_all (\<lambda>d. ascii_letter d \<or> (CHR ''0'' \<le> d \<and> d \<le> CHR ''9'') \<or> d = CHR ''_'' \<or> d = CHR ''-'') cs"

fun excluded_loop :: "string list \<Rightarrow> string list \<Rightarrow> string + string list \<times> string list" where
  "excluded_loop used [] = Inr (used, [])"
| "excluded_loop used (value # values) = (case MAC value of
     Inl e \<Rightarrow> Inl (Error ''invalid'' e)
   | Inr mac \<Rightarrow> if mac \<in> set used then Inl (Error ''invalid'' ''duplicate adapter MAC'')
       else (case excluded_loop (mac # used) values of Inl e \<Rightarrow> Inl e | Inr (u, ms) \<Rightarrow> Inr (u, mac # ms)))"

fun member_loop :: "string list \<Rightarrow> string list \<Rightarrow> string + string list \<times> string list" where
  "member_loop used [] = Inr (used, [])"
| "member_loop used (value # values) = (case MAC value of
     Inl e \<Rightarrow> Inl (Error ''invalid'' e)
   | Inr mac \<Rightarrow> if mac \<in> set used then Inl (Error ''invalid'' ''bond members must be unique and cannot be excluded'')
       else (case member_loop (mac # used) values of Inl e \<Rightarrow> Inl e | Inr (u, ms) \<Rightarrow> Inr (u, mac # ms)))"

fun bonds_loop :: "string list \<Rightarrow> string list \<Rightarrow> bond list \<Rightarrow> string + bond list" where
  "bonds_loop used names [] = Inr []"
| "bonds_loop used names (b # bs) =
     (if \<not> bondName (b_Name b) \<or> b_Name b = Bridge \<or> b_Name b \<in> set names \<or> b_Mode b \<noteq> ''802.3ad'' \<or> length (b_Members b) < 2
      then Inl (Error ''invalid'' ''bond requires a unique interface name, 802.3ad mode and at least two members'')
      else case member_loop used (b_Members b) of Inl e \<Rightarrow> Inl e
      | Inr (u, ms) \<Rightarrow> (case bonds_loop u (b_Name b # names) bs of Inl e \<Rightarrow> Inl e
          | Inr r \<Rightarrow> Inr (b\<lparr>b_Members := ms\<rparr> # r)))"

definition check_ipv4 :: "ipv4 \<Rightarrow> error" where
  "check_ipv4 v =
     (if ip_Mode v = ''dhcp''
      then if ip_Address v \<noteq> Blank \<or> ip_Netmask v \<noteq> Blank \<or> ip_Gateway v \<noteq> Blank
        then Some (Error ''invalid'' ''DHCP cannot specify static addressing'') else None
      else if ip_Mode v = ''static''
      then (case IPv4_Prefix v of Inl e \<Rightarrow> Some (Error ''invalid'' e)
        | Inr prefix \<Rightarrow> (case ip_Gateway v of
            Parsed gw \<Rightarrow> if \<not> Is4 gw \<or> \<not> IsGlobalUnicast gw \<or> \<not> Contains prefix gw \<or> gw = pfx_Addr prefix \<or>
                gw = pfx_Addr (Masked prefix) \<or> isBroadcast gw (pfx_Bits prefix)
              then Some (Error ''invalid'' ''gateway must be a different usable address in the static subnet'') else None
          | _ \<Rightarrow> Some (Error ''invalid'' ''gateway must be a different usable address in the static subnet'')))
      else Some (Error ''invalid'' ''ipv4.mode must be dhcp or static''))"

definition check_dns :: "addr field \<Rightarrow> bool" where
  "check_dns v = (case v of Parsed a \<Rightarrow> IsGlobalUnicast a | _ \<Rightarrow> False)"

text \<open>\<open>Validate\<close> rewrites the Ethernet addresses in their canonical form.\<close>

definition Validate :: "config \<Rightarrow> string + config" where
  "Validate c =
     (if c_Version c \<noteq> 1 then Inl (Error ''invalid'' ''unsupported network configuration version'')
      else case excluded_loop [] (c_ExcludedMACs c) of Inl e \<Rightarrow> Inl e
      | Inr (used, macs) \<Rightarrow> (case bonds_loop used [] (c_Bonds c) of Inl e \<Rightarrow> Inl e
        | Inr bonds \<Rightarrow> (case check_ipv4 (c_IPv4 c) of Some e \<Rightarrow> Inl e
          | None \<Rightarrow>
            if \<not> list_all check_dns (c_DNSServers c) then Inl (Error ''invalid'' ''invalid DNS server'')
            else if list_ex (\<lambda>ch. ch \<in> {CHR 0x0A, CHR 0x0D, CHR 0x00}) (c_DefaultPoolID c) then Inl (Error ''invalid'' ''invalid default pool ID'')
            else Inr (c\<lparr>c_ExcludedMACs := macs, c_Bonds := bonds\<rparr>))))"


section \<open>The journal\<close>

record service =
  svc_StackID :: string
  svc_Address :: "prefix option"
  svc_PoolID :: string

record adapter =
  ad_Name :: string
  ad_PermanentMAC :: string
  ad_Eligible :: bool

record live =
  lv_Adapters :: "adapter list"
  lv_Addresses :: "prefix option list"

record change =
  ch_ID :: string
  ch_State :: string
  ch_Deadline :: int
  ch_Error :: string
  ch_Candidate :: config
  ch_Previous :: config

record disk_change = change +
  ch_Key :: string
  ch_Actor :: string
  ch_RequestHash :: string

record disk_state =
  d_HasConfirmed :: bool
  d_Startup :: "config option"
  d_BootID :: string
  d_Confirmed :: config
  d_BridgeMAC :: string
  d_Services :: "(string \<times> service) list"
  d_Pending :: string
  d_NeedsConfig :: bool
  d_Changes :: "(string \<times> disk_change) list"

record apply_payload =
  ap_Revision :: string
  ap_Config :: config
  ap_Key :: string
  ap_Actor :: string

definition zero_service :: service where
  "zero_service = \<lparr>svc_StackID = [], svc_Address = None, svc_PoolID = []\<rparr>"

definition zero_config :: config where
  "zero_config = \<lparr>c_Version = 0, c_ExcludedMACs = [], c_Bonds = [],
     c_IPv4 = \<lparr>ip_Mode = [], ip_Address = Blank, ip_Netmask = Blank, ip_Gateway = Blank\<rparr>, c_DNSServers = [], c_DefaultPoolID = []\<rparr>"

definition zero_change :: disk_change where
  "zero_change = \<lparr>ch_ID = [], ch_State = [], ch_Deadline = 0, ch_Error = [], ch_Candidate = zero_config, ch_Previous = zero_config,
     ch_Key = [], ch_Actor = [], ch_RequestHash = []\<rparr>"

definition fresh_journal :: disk_state where
  "fresh_journal = \<lparr>d_HasConfirmed = False, d_Startup = None, d_BootID = [], d_Confirmed = DefaultConfig, d_BridgeMAC = [],
     d_Services = [], d_Pending = [], d_NeedsConfig = False, d_Changes = []\<rparr>"

text \<open>\<open>s.Changes[id]\<close>, the zero value for a missing key.\<close>

definition the_change :: "disk_state \<Rightarrow> string \<Rightarrow> disk_change" where
  "the_change s cid = (case map_of (d_Changes s) cid of None \<Rightarrow> zero_change | Some c \<Rightarrow> c)"

definition put_change :: "string \<Rightarrow> disk_change \<Rightarrow> disk_state \<Rightarrow> disk_state" where
  "put_change cid c s = s\<lparr>d_Changes := AList.update cid c (d_Changes s)\<rparr>"

section \<open>The host\<close>

text \<open>
  The settings in effect on the host, each with the call that brought it there; the timers of systemd; the
  goroutines of the running hostd. What is outside the program: how each call ends (\<open>nw_calls\<close>, and
  whether a call during which the process died left a trace, \<open>nw_torn\<close>), the clock, what \<open>Live\<close> reads,
  the UUIDs drawn, and how often \<open>verifyServices\<close> polls before its context ends.
\<close>

datatype origin = By_startup | By_change string | By_rollback string | By_hotplug

record net_world =
  nw_journal :: "disk_state doc"
  nw_file :: "config doc"
  nw_effect :: "(origin \<times> config) list"
  nw_aliases :: "service list"
  nw_timers :: "string list"
  nw_goroutines :: "string list"
  nw_boot :: string
  nw_drawn :: nat
  nw_count :: nat
  nw_calls :: "nat \<Rightarrow> result"
  nw_torn :: "nat \<Rightarrow> bool"
  nw_clock :: "nat \<Rightarrow> int"
  nw_live :: "nat \<Rightarrow> live"
  nw_uuid :: "nat \<Rightarrow> string"
  nw_polls :: nat

definition outside :: "(net_world \<Rightarrow> net_world) \<Rightarrow> (net_world \<Rightarrow> net_world) \<Rightarrow> (net_world, error) prog" where
  "outside done partial = (\<lambda>w. let n = nw_count w; w1 = w\<lparr>nw_count := Suc n\<rparr> in case nw_calls w n of
       Done \<Rightarrow> (Some None, done w1)
     | Refused e \<Rightarrow> (Some (Some e), w1)
     | Doubtful e \<Rightarrow> (Some (Some e), partial w1)
     | Crash \<Rightarrow> (None, if nw_torn w n then partial w1 else w1))"

definition net_Now :: "(net_world, int) prog" where
  "net_Now = get (\<lambda>w. nw_clock w (nw_count w))"

text \<open>
  \<open>Apply\<close> of the backend brings the host to \<open>c\<close>. It reconciles adapters and bonds in full, but removes a
  static address only when it is that of \<open>previous\<close>; when it fails, both may be there.
\<close>

definition stays :: "config \<Rightarrow> config \<Rightarrow> config \<Rightarrow> bool" where
  "stays previous c k \<longleftrightarrow> ip_Mode (c_IPv4 k) = ''static'' \<and> c_IPv4 k \<noteq> c_IPv4 previous \<and> c_IPv4 k \<noteq> c_IPv4 c"

definition backend_Apply :: "origin \<Rightarrow> config \<Rightarrow> config \<Rightarrow> (string \<times> service) list \<Rightarrow> (net_world, error) prog" where
  "backend_Apply by previous c services = outside
     (\<lambda>w. w\<lparr>nw_effect := (by, c) # filter (\<lambda>(_, k). stays previous c k) (nw_effect w), nw_aliases := map snd services @ nw_aliases w\<rparr>)
     (\<lambda>w. w\<lparr>nw_effect := (by, c) # nw_effect w, nw_aliases := map snd services @ nw_aliases w\<rparr>)"

text \<open>
  A timer that was armed counts until it is cancelled or the host reboots: systemd fires it once, and then restarts the rollback it
  started until that succeeds.
\<close>

definition backend_Arm :: "string \<Rightarrow> (net_world, error) prog" where
  "backend_Arm cid = (let f = (\<lambda>w. w\<lparr>nw_timers := cid # nw_timers w\<rparr>) in outside f f)"

definition backend_Cancel :: "string \<Rightarrow> (net_world, error) prog" where
  "backend_Cancel cid = (let f = (\<lambda>w. w\<lparr>nw_timers := removeAll cid (nw_timers w)\<rparr>) in outside f f)"

definition backend_Service :: "service \<Rightarrow> bool \<Rightarrow> (net_world, error) prog" where
  "backend_Service service add =
     (let f = (\<lambda>w. w\<lparr>nw_aliases := (if add then service # nw_aliases w else removeAll service (nw_aliases w))\<rparr>) in outside f f)"

definition backend_Live :: "(net_world, string + live) prog" where
  "backend_Live = seq (get (\<lambda>w. nw_live w (nw_count w))) (\<lambda>l. seq (outside id id) (\<lambda>e. ret (case e of None \<Rightarrow> Inr l | Some x \<Rightarrow> Inl x)))"

definition backend_ArchiveLegacy :: "(net_world, error) prog" where
  "backend_ArchiveLegacy = outside id id"

section \<open>The manager\<close>

text \<open>\<open>locked\<close>: take the lock file, read the journal, run \<open>fn\<close> on it.\<close>

definition locked_journal :: "(string \<Rightarrow> 'r) \<Rightarrow> (disk_state \<Rightarrow> (net_world, 'r) prog) \<Rightarrow> (net_world, 'r) prog" where
  "locked_journal err fn =
     guarded (outside id id) (\<lambda>e. ret (err e)) (guarded (outside id id) (\<lambda>e. ret (err e))
       (seq (get nw_journal) (\<lambda>j. case j of
          Missing \<Rightarrow> fn fresh_journal
        | Corrupt \<Rightarrow> ret (err ''network journal: invalid'')
        | Present s \<Rightarrow> fn s)))"

definition save :: "disk_state \<Rightarrow> (net_world, error) prog" where
  "save s = (let f = (\<lambda>w. w\<lparr>nw_journal := Present s\<rparr>) in outside f f)"

definition writeConfig :: "config \<Rightarrow> (net_world, error) prog" where
  "writeConfig c = (let f = (\<lambda>w. w\<lparr>nw_file := Present c\<rparr>) in outside f f)"

definition parseService :: "service \<Rightarrow> string + prefix" where
  "parseService s = (case svc_Address s of
     None \<Rightarrow> Inl (Error ''invalid'' ''invalid service address or ownership'')
   | Some p \<Rightarrow> if \<not> Is4 (pfx_Addr p) \<or> \<not> IsGlobalUnicast (pfx_Addr p) \<or> pfx_Bits p < 1 \<or> pfx_Bits p > 30 \<or>
       pfx_Addr p = pfx_Addr (Masked p) \<or> isBroadcast (pfx_Addr p) (pfx_Bits p) \<or> svc_StackID s = [] \<or> svc_PoolID s = []
     then Inl (Error ''invalid'' ''invalid service address or ownership'') else Inr p)"

definition service_conflict :: "ipv4 \<Rightarrow> prefix \<Rightarrow> prefix \<Rightarrow> bool" where
  "service_conflict v prefix p \<longleftrightarrow> Masked prefix \<noteq> Masked p \<or> pfx_Addr prefix = pfx_Addr p \<or> ip_Gateway v = Parsed (pfx_Addr p)"

fun services_loop :: "ipv4 \<Rightarrow> prefix \<Rightarrow> (string \<times> service) list \<Rightarrow> error" where
  "services_loop v prefix [] = None"
| "services_loop v prefix ((_, service) # rest) = (case parseService service of Inl e \<Rightarrow> Some e
     | Inr p \<Rightarrow> if service_conflict v prefix p then Some (Error ''conflict'' ''configuration would invalidate active service addresses'')
         else services_loop v prefix rest)"

text \<open>The configuration is valid where this is called, so \<open>Prefix\<close> succeeds.\<close>

definition validateServices :: "config \<Rightarrow> (string \<times> service) list \<Rightarrow> error" where
  "validateServices c services = (if ip_Mode (c_IPv4 c) \<noteq> ''static'' then None
     else case IPv4_Prefix (c_IPv4 c) of Inl _ \<Rightarrow> services_loop (c_IPv4 c) \<lparr>pfx_Addr = V6 0, pfx_Bits = 0\<rparr> services
     | Inr prefix \<Rightarrow> services_loop (c_IPv4 c) prefix services)"

definition primaryAddresses :: "prefix option list \<Rightarrow> (string \<times> service) list \<Rightarrow> prefix option list" where
  "primaryAddresses addresses services = filter (\<lambda>v. \<not> list_ex (\<lambda>(_, s). svc_Address s = v) services) addresses"

primrec verify_loop :: "nat \<Rightarrow> (string \<times> service) list \<Rightarrow> (net_world, error) prog" where
  "verify_loop 0 services = ret (Some ''DHCP lease is incompatible with active service pools: context deadline exceeded'')"
| "verify_loop (Suc n) services = fetch backend_Live (\<lambda>e. ret (Some e)) (\<lambda>live.
     if list_all (\<lambda>(_, s). Compatible (svc_Address s) (primaryAddresses (lv_Addresses live) services)) services then ret None
     else verify_loop n services)"

definition verifyServices :: "(string \<times> service) list \<Rightarrow> (net_world, error) prog" where
  "verifyServices services = (if services = [] then ret None else seq (get nw_polls) (\<lambda>n. verify_loop (Suc n) services))"

text \<open>The call of \<open>Apply\<close> with the check of the lease that follows it for DHCP.\<close>

definition apply_verified :: "origin \<Rightarrow> config \<Rightarrow> config \<Rightarrow> disk_state \<Rightarrow> (net_world, error) prog" where
  "apply_verified by previous c s = guarded (backend_Apply by previous c (d_Services s)) (\<lambda>e. ret (Some e))
     (if ip_Mode (c_IPv4 c) = ''dhcp'' then verifyServices (d_Services s) else ret None)"


subsection \<open>Startup\<close>

datatype file_read = NotExist | ReadError string | Content "config option"

definition read_config :: "(net_world, file_read) prog" where
  "read_config = seq (get nw_file) (\<lambda>f. seq (outside id id) (\<lambda>e. ret (case e of Some x \<Rightarrow> ReadError x
     | None \<Rightarrow> (case f of Missing \<Rightarrow> NotExist | Corrupt \<Rightarrow> Content None | Present c \<Rightarrow> Content (Some c)))))"

text \<open>The configuration that the file, or the journal in its place, asks for.\<close>

definition from_file :: "disk_state \<Rightarrow> file_read \<Rightarrow> string + config" where
  "from_file s r = (case r of
     Content content \<Rightarrow> (case (case content of None \<Rightarrow> Inl ''toml: invalid'' | Some c \<Rightarrow> Validate c) of
         Inr c \<Rightarrow> Inr c
       | Inl e \<Rightarrow> if \<not> d_HasConfirmed s then Inl (''invalid network.toml without confirmed fallback: '' @ e) else Inr (d_Confirmed s))
   | ReadError e \<Rightarrow> if \<not> d_HasConfirmed s then Inl e else Inr DefaultConfig
   | NotExist \<Rightarrow> Inr DefaultConfig)"

definition this_boot :: "string \<Rightarrow> disk_state \<Rightarrow> disk_state" where
  "this_boot boot s = (if d_BootID s \<noteq> boot then s\<lparr>d_Services := [], d_BootID := boot\<rparr> else s)"

text \<open>What to apply, and what it replaces.\<close>

definition startup_config :: "disk_state \<Rightarrow> config \<Rightarrow> config" where
  "startup_config s c = (if d_Pending s \<noteq> [] \<or> d_NeedsConfig s \<or> d_Startup s \<noteq> None \<and> d_HasConfirmed s then d_Confirmed s else c)"

definition startup_previous :: "disk_state \<Rightarrow> config" where
  "startup_previous s = (if d_Pending s \<noteq> [] then ch_Candidate (the_change s (d_Pending s))
     else case d_Startup s of Some c \<Rightarrow> c | None \<Rightarrow> d_Confirmed s)"

definition bridge_mac :: "config \<Rightarrow> live \<Rightarrow> disk_state \<Rightarrow> string" where
  "bridge_mac c live s = (if d_BridgeMAC s \<noteq> [] then d_BridgeMAC s
     else case find (\<lambda>a. ad_Eligible a \<and> \<not> list_ex (\<lambda>v. v = ad_PermanentMAC a) (c_ExcludedMACs c)) (lv_Adapters live) of
       Some a \<Rightarrow> ad_PermanentMAC a | None \<Rightarrow> [])"

definition recovered :: "disk_state \<Rightarrow> disk_state" where
  "recovered s = (if d_Pending s = [] then s else
     (put_change (d_Pending s) ((the_change s (d_Pending s))\<lparr>ch_State := ''rolled_back'', ch_Error := ''unconfirmed change recovered on startup''\<rparr>) s)
       \<lparr>d_Pending := []\<rparr>)"

definition startup_done :: "config \<Rightarrow> disk_state \<Rightarrow> disk_state" where
  "startup_done c s = (recovered s)\<lparr>d_Confirmed := c, d_HasConfirmed := True, d_Startup := None, d_NeedsConfig := True\<rparr>"

definition stop :: "string \<Rightarrow> (net_world, error) prog" where "stop e = ret (Some e)"

definition startup_apply :: "config \<Rightarrow> config \<Rightarrow> disk_state \<Rightarrow> (net_world, error) prog" where
  "startup_apply previous c s =
     guarded (save (s\<lparr>d_Startup := Some c\<rparr>)) stop
     (guarded (apply_verified By_startup previous c s) stop
     (guarded (save (startup_done c s)) stop
     (guarded (writeConfig c) stop
     (save ((startup_done c s)\<lparr>d_NeedsConfig := False\<rparr>)))))"

definition startup_from :: "config \<Rightarrow> disk_state \<Rightarrow> (net_world, error) prog" where
  "startup_from c0 s0 =
     guarded (outside id id) stop
     (seq (get nw_boot) (\<lambda>boot.
       let s = (this_boot boot s0)\<lparr>d_NeedsConfig := False\<rparr>; previous = startup_previous s0 in
       case Validate (startup_config s0 c0) of Inl e \<Rightarrow> stop e
       | Inr c \<Rightarrow> fetch backend_Live stop (\<lambda>live.
         let mac = bridge_mac c live s in
         if mac = [] then stop ''no eligible Ethernet adapter for LAN bridge''
         else case validateServices c (d_Services s) of Some e \<Rightarrow> stop e
         | None \<Rightarrow> startup_apply previous c (s\<lparr>d_BridgeMAC := mac\<rparr>))))"

definition Initialize :: "(net_world, error) prog" where
  "Initialize = locked_journal Some (\<lambda>s. seq read_config (\<lambda>r. case from_file s r of Inl e \<Rightarrow> stop e
     | Inr c \<Rightarrow> if r = NotExist then guarded backend_ArchiveLegacy stop (startup_from c s) else startup_from c s))"

subsection \<open>Changes\<close>

text \<open>An accepted request with the same key and actor.\<close>

definition same_request :: "apply_payload \<Rightarrow> disk_change \<Rightarrow> bool" where
  "same_request p c \<longleftrightarrow> ch_Key c = ap_Key p \<and> ch_Actor c = ap_Actor p"

definition uplinks :: "live \<Rightarrow> string list" where
  "uplinks live = map ad_PermanentMAC (filter ad_Eligible (lv_Adapters live))"

definition accept_config :: "config \<Rightarrow> live \<Rightarrow> error" where
  "accept_config c live =
     (if list_ex (\<lambda>b. list_ex (\<lambda>mac. mac \<notin> set (uplinks live)) (b_Members b)) (c_Bonds c)
      then Some (Error ''invalid'' ''bond member is not an available Ethernet adapter'')
      else if list_all (\<lambda>mac. mac \<in> set (c_ExcludedMACs c)) (uplinks live)
      then Some (Error ''invalid'' ''configuration must retain an Ethernet uplink'')
      else None)"

definition draw_uuid :: "(net_world, string) prog" where
  "draw_uuid = (\<lambda>w. (Some (nw_uuid w (nw_drawn w)), w\<lparr>nw_drawn := Suc (nw_drawn w)\<rparr>))"

definition spawn_apply :: "string \<Rightarrow> (net_world, unit) prog" where
  "spawn_apply cid = modify (\<lambda>w. w\<lparr>nw_goroutines := cid # nw_goroutines w\<rparr>)"

definition new_change :: "string \<Rightarrow> config \<Rightarrow> apply_payload \<Rightarrow> string \<Rightarrow> disk_state \<Rightarrow> disk_change" where
  "new_change cid c p hash s = \<lparr>ch_ID = cid, ch_State = ''applying'', ch_Deadline = 0, ch_Error = [], ch_Candidate = c,
     ch_Previous = d_Confirmed s, ch_Key = ap_Key p, ch_Actor = ap_Actor p, ch_RequestHash = hash\<rparr>"

definition begin_change :: "config \<Rightarrow> apply_payload \<Rightarrow> string \<Rightarrow> disk_state \<Rightarrow> (net_world, string + change) prog" where
  "begin_change c p hash s = seq draw_uuid (\<lambda>cid.
     let r = new_change cid c p hash s in
     guarded (save (put_change cid r (s\<lparr>d_Pending := cid\<rparr>))) (\<lambda>e. ret (Inl e))
       (seq (spawn_apply cid) (\<lambda>_. ret (Inr (change.truncate r)))))"

definition submit_locked :: "(config \<Rightarrow> string) \<Rightarrow> apply_payload \<Rightarrow> disk_state \<Rightarrow> (net_world, string + change) prog" where
  "submit_locked Revision p s =
     (let fail = (\<lambda>e. ret (Inl e)) in
      if ap_Key p = [] \<or> length (ap_Key p) > 255 \<or> ap_Actor p = [] then fail (Error ''invalid'' ''idempotency key and authenticated actor required'')
      else case Validate (ap_Config p) of Inl e \<Rightarrow> fail e
      | Inr c \<Rightarrow>
        let hash = ap_Revision p @ '':'' @ Revision c in
        (case find (\<lambda>(_, old). same_request p old) (d_Changes s) of
          Some (_, old) \<Rightarrow> if ch_RequestHash old \<noteq> hash then fail (Error ''conflict'' ''idempotency key already used for another request'')
            else ret (Inr (change.truncate old))
        | None \<Rightarrow>
          if d_Pending s \<noteq> [] then fail (Error ''conflict'' ''a network change is outstanding'')
          else if ap_Revision p \<noteq> Revision (d_Confirmed s) then fail (Error ''conflict'' ''stale network revision'')
          else case validateServices c (d_Services s) of Some e \<Rightarrow> fail e
          | None \<Rightarrow> fetch backend_Live fail (\<lambda>live. case accept_config c live of Some e \<Rightarrow> fail e
            | None \<Rightarrow> begin_change c p hash s)))"

definition Submit :: "(config \<Rightarrow> string) \<Rightarrow> apply_payload \<Rightarrow> (net_world, string + change) prog" where
  "Submit Revision p = locked_journal Inl (submit_locked Revision p)"


definition rollback_error :: "string \<Rightarrow> disk_change \<Rightarrow> string" where
  "rollback_error reason c = (if ch_Error c = [] then reason else ch_Error c)"

definition restore :: "disk_state \<Rightarrow> string \<Rightarrow> string \<Rightarrow> (net_world, error) prog" where
  "restore s cid reason =
     (let c = the_change s cid in
      guarded (apply_verified (By_rollback cid) (ch_Candidate c) (ch_Previous c) s)
        (\<lambda>e. ignoring (save (put_change cid (c\<lparr>ch_State := ''failed'', ch_Error := reason @ '': rollback failed: '' @ e\<rparr>) s)) (stop e))
        (guarded (writeConfig (ch_Previous c)) stop
        (guarded (save ((put_change cid (c\<lparr>ch_State := ''rolled_back'', ch_Error := rollback_error reason c\<rparr>) s)
                    \<lparr>d_Confirmed := ch_Previous c, d_Pending := []\<rparr>)) stop
        (ignoring (backend_Cancel cid) (ret None)))))"

definition second :: int where "second = 1000000000"

text \<open>\<open>m.Now().UTC().Add(60 * time.Second).Truncate(time.Microsecond)\<close>\<close>

definition confirmation_deadline :: "int \<Rightarrow> int" where
  "confirmation_deadline now = (now + 60 * second) div 1000 * 1000"

definition armed_apply :: "string \<Rightarrow> disk_change \<Rightarrow> disk_state \<Rightarrow> (net_world, error) prog" where
  "armed_apply cid c s =
     guarded (apply_verified (By_change cid) (ch_Previous c) (ch_Candidate c) s)
       (\<lambda>e. restore (put_change cid (c\<lparr>ch_Error := e\<rparr>) s) cid ''apply failed'')
       (seq net_Now (\<lambda>now. if \<not> now < ch_Deadline c then restore s cid ''confirmation deadline expired during apply''
         else save (put_change cid (c\<lparr>ch_State := ''awaiting_confirmation''\<rparr>) s)))"

definition apply_pending :: "string \<Rightarrow> disk_state \<Rightarrow> int \<Rightarrow> (net_world, error) prog" where
  "apply_pending cid s0 now =
     (let c = (the_change s0 cid)\<lparr>ch_Deadline := confirmation_deadline now\<rparr>; s = put_change cid c s0 in
      guarded (save s) stop
      (guarded (backend_Arm cid)
        (\<lambda>e. save ((put_change cid (c\<lparr>ch_State := ''failed'', ch_Error := ''cannot arm rollback: '' @ e\<rparr>) s)\<lparr>d_Pending := []\<rparr>))
        (armed_apply cid c s)))"

definition apply_change :: "string \<Rightarrow> (net_world, error) prog" where
  "apply_change cid = locked_journal Some (\<lambda>s. if d_Pending s \<noteq> cid then ret None else seq net_Now (apply_pending cid s))"

definition read_journal :: "(net_world, string + disk_state) prog" where
  "read_journal = seq (get nw_journal) (\<lambda>j. seq (outside id id) (\<lambda>e. ret (case e of Some x \<Rightarrow> Inl x
     | None \<Rightarrow> (case j of Missing \<Rightarrow> Inl ''journal.json: no such file'' | Corrupt \<Rightarrow> Inl ''json: invalid'' | Present s \<Rightarrow> Inr s))))"

definition Get :: "string \<Rightarrow> (net_world, string + change) prog" where
  "Get cid = fetch read_journal (\<lambda>e. ret (Inl e)) (\<lambda>s. ret (case map_of (d_Changes s) cid of
     None \<Rightarrow> Inl (Error ''not_found'' ''network change not found'') | Some c \<Rightarrow> Inr (change.truncate c)))"

definition confirmed_state :: "string \<Rightarrow> disk_change \<Rightarrow> disk_state \<Rightarrow> disk_state" where
  "confirmed_state cid c s = (put_change cid (c\<lparr>ch_State := ''confirmed''\<rparr>) s)\<lparr>d_Confirmed := ch_Candidate c, d_NeedsConfig := True, d_Pending := []\<rparr>"

definition confirm_locked :: "string \<Rightarrow> disk_state \<Rightarrow> (net_world, error) prog" where
  "confirm_locked cid s = (case map_of (d_Changes s) cid of
     None \<Rightarrow> stop (Error ''not_found'' ''network change not found'')
   | Some c \<Rightarrow>
     if ch_State c = ''confirmed'' then ret None
     else if d_Pending s \<noteq> cid \<or> ch_State c \<noteq> ''awaiting_confirmation'' then stop (Error ''conflict'' ''change cannot be confirmed'')
     else seq net_Now (\<lambda>now. if \<not> now < ch_Deadline c
       then guarded (restore s cid ''confirmation deadline expired'') stop (stop (Error ''conflict'' ''confirmation deadline expired''))
       else guarded (save (confirmed_state cid c s)) stop
         (guarded (writeConfig (ch_Candidate c)) stop
         (guarded (save ((confirmed_state cid c s)\<lparr>d_NeedsConfig := False\<rparr>)) stop
         (ignoring (backend_Cancel cid) (ret None))))))"

definition Confirm :: "string \<Rightarrow> (net_world, string + change) prog" where
  "Confirm cid = guarded (locked_journal Some (confirm_locked cid)) (\<lambda>e. ret (Inl e)) (Get cid)"

definition rollback_locked :: "string \<Rightarrow> bool \<Rightarrow> disk_state \<Rightarrow> (net_world, error) prog" where
  "rollback_locked cid expiredOnly s = (case map_of (d_Changes s) cid of
     None \<Rightarrow> stop (Error ''not_found'' ''network change not found'')
   | Some c \<Rightarrow>
     if d_Pending s \<noteq> cid
     then if ch_State c = ''rolled_back'' \<or> ch_State c = ''confirmed'' then ret None else stop (Error ''conflict'' ''change is not pending'')
     else seq net_Now (\<lambda>now. if expiredOnly \<and> now < ch_Deadline c then stop (Error ''conflict'' ''rollback timer fired before deadline'')
       else restore s cid ''network change not confirmed''))"

definition Rollback :: "string \<Rightarrow> bool \<Rightarrow> (net_world, string + change) prog" where
  "Rollback cid expiredOnly = guarded (locked_journal Some (rollback_locked cid expiredOnly)) (\<lambda>e. ret (Inl e)) (Get cid)"

definition Retry :: "(config \<Rightarrow> string) \<Rightarrow> apply_payload \<Rightarrow> (net_world, string + change option) prog" where
  "Retry Revision p = (case Validate (ap_Config p) of Inl e \<Rightarrow> ret (Inl e)
     | Inr c \<Rightarrow> fetch read_journal (\<lambda>e. ret (Inl e)) (\<lambda>s. ret
       (case find (\<lambda>(_, old). same_request p old) (d_Changes s) of
          Some (_, old) \<Rightarrow> if ch_RequestHash old \<noteq> ap_Revision p @ '':'' @ Revision c
            then Inl (Error ''conflict'' ''idempotency key already used for another request'') else Inr (Some (change.truncate old))
        | None \<Rightarrow> Inr None)))"

subsection \<open>Service addresses and the default pool\<close>

definition add_service :: "service \<Rightarrow> disk_state \<Rightarrow> (net_world, error) prog" where
  "add_service service s = fetch backend_Live stop (\<lambda>live.
     if \<not> Compatible (svc_Address service) (primaryAddresses (lv_Addresses live) (d_Services s))
     then stop (Error ''conflict'' ''service address is incompatible with LAN subnet'')
     else case validateServices (d_Confirmed s) [(svc_StackID service, service)] of Some e \<Rightarrow> stop e
     | None \<Rightarrow>
       if list_ex (\<lambda>(i, v). i \<noteq> svc_StackID service \<and> svc_Address v = svc_Address service) (d_Services s)
       then stop (Error ''conflict'' ''service address already owned'')
       else if (case map_of (d_Services s) (svc_StackID service) of Some old \<Rightarrow> old \<noteq> service | None \<Rightarrow> False)
       then stop (Error ''conflict'' ''stack already owns another address'')
       else guarded (save (s\<lparr>d_Services := AList.update (svc_StackID service) service (d_Services s)\<rparr>)) stop (backend_Service service True))"

definition remove_service :: "service \<Rightarrow> disk_state \<Rightarrow> (net_world, error) prog" where
  "remove_service service s = (case map_of (d_Services s) (svc_StackID service) of
     None \<Rightarrow> ret None
   | Some existing \<Rightarrow> if existing \<noteq> service then stop (Error ''conflict'' ''service ownership mismatch'')
       else guarded (backend_Service existing False) stop (save (s\<lparr>d_Services := AList.delete (svc_StackID service) (d_Services s)\<rparr>)))"

definition SetService :: "service \<Rightarrow> bool \<Rightarrow> (net_world, error) prog" where
  "SetService service add = locked_journal Some (\<lambda>s.
     if \<not> add \<and> map_of (d_Services s) (svc_StackID service) = None then ret None
     else if d_Pending s \<noteq> [] then stop (Error ''conflict'' ''network configuration change outstanding'')
     else case parseService service of Inl e \<Rightarrow> stop e
     | Inr _ \<Rightarrow> if add then add_service service s else remove_service service s)"

fun wanted_loop :: "prefix option list \<Rightarrow> (string \<times> service) list \<Rightarrow> service list \<Rightarrow> string + (string \<times> service) list" where
  "wanted_loop primary wanted [] = Inr wanted"
| "wanted_loop primary wanted (service # services) = (case parseService service of Inl e \<Rightarrow> Inl e
     | Inr _ \<Rightarrow>
       if list_ex (\<lambda>(i, v). i = svc_StackID service \<or> svc_Address v = svc_Address service) wanted
       then Inl (Error ''invalid'' ''duplicate service ownership'')
       else if \<not> Compatible (svc_Address service) primary then Inl (Error ''conflict'' ''service subnet is not compatible'')
       else wanted_loop primary (wanted @ [(svc_StackID service, service)]) services)"

definition service_at :: "(string \<times> service) list \<Rightarrow> string \<Rightarrow> service" where
  "service_at m i = (case map_of m i of None \<Rightarrow> zero_service | Some v \<Rightarrow> v)"

fun sync_remove :: "(string \<times> service) list \<Rightarrow> (string \<times> service) list \<Rightarrow> disk_state \<Rightarrow> (net_world, string + disk_state) prog" where
  "sync_remove wanted [] s = ret (Inr s)"
| "sync_remove wanted ((i, service) # rest) s =
     (if service_at wanted i \<noteq> service
      then let s' = s\<lparr>d_Services := AList.delete i (d_Services s)\<rparr> in
        guarded (backend_Service service False) (\<lambda>e. ret (Inl e)) (guarded (save s') (\<lambda>e. ret (Inl e)) (sync_remove wanted rest s'))
      else sync_remove wanted rest s)"

fun sync_add :: "prefix option list \<Rightarrow> (string \<times> service) list \<Rightarrow> disk_state \<Rightarrow> (net_world, error) prog" where
  "sync_add addresses [] s = ret None"
| "sync_add addresses ((i, service) # rest) s =
     (if service_at (d_Services s) i = service \<and> svc_Address service \<in> set addresses then sync_add addresses rest s
      else let s' = s\<lparr>d_Services := AList.update i service (d_Services s)\<rparr> in
        guarded (save s') stop (guarded (backend_Service service True) stop (sync_add addresses rest s')))"

definition SyncServices :: "service list \<Rightarrow> (net_world, error) prog" where
  "SyncServices services = locked_journal Some (\<lambda>s.
     if d_Pending s \<noteq> [] then stop (Error ''conflict'' ''network change outstanding'')
     else fetch backend_Live stop (\<lambda>live.
       case wanted_loop (primaryAddresses (lv_Addresses live) (d_Services s)) [] services of Inl e \<Rightarrow> stop e
       | Inr wanted \<Rightarrow> (case validateServices (d_Confirmed s) wanted of Some e \<Rightarrow> stop e
         | None \<Rightarrow> fetch (sync_remove wanted (d_Services s) s) stop (\<lambda>s'. sync_add (lv_Addresses live) wanted s'))))"

definition MigrateDefault :: "string \<Rightarrow> (net_world, error) prog" where
  "MigrateDefault poolID = locked_journal Some (\<lambda>s.
     if d_Pending s \<noteq> [] then stop (Error ''conflict'' ''network change outstanding'')
     else if c_DefaultPoolID (d_Confirmed s) \<noteq> [] then ret None
     else let c = (d_Confirmed s)\<lparr>c_DefaultPoolID := poolID\<rparr>; s' = s\<lparr>d_Confirmed := c, d_NeedsConfig := True\<rparr> in
       guarded (save s') stop (guarded (writeConfig c) stop (save (s'\<lparr>d_NeedsConfig := False\<rparr>))))"

text \<open>The hotplug reconciliation of \<open>Watch\<close>.\<close>

definition watch_reconcile :: "(net_world, error) prog" where
  "watch_reconcile = locked_journal Some (\<lambda>s. if d_Pending s \<noteq> [] then ret None
     else backend_Apply By_hotplug (d_Confirmed s) (d_Confirmed s) (d_Services s))"


section \<open>Operations in sequence\<close>

text \<open>
  The processes of a host: \<open>network init\<close>, the rollback timers, and hostd with its goroutines, which end
  with it. The lock serialises them. A reboot clears the settings in effect and the timers.
\<close>

datatype net_op =
    Op_init
  | Op_submit apply_payload
  | Op_apply string
  | Op_confirm string
  | Op_rollback string bool
  | Op_service service bool
  | Op_sync "service list"
  | Op_migrate string
  | Op_hotplug
  | Op_stop
  | Op_reboot string

definition in_hostd :: "(net_world, 'r) prog \<Rightarrow> net_world \<Rightarrow> net_world" where
  "in_hostd m w = (case m w of (None, w') \<Rightarrow> w'\<lparr>nw_goroutines := []\<rparr> | (Some _, w') \<Rightarrow> w')"

fun net_step :: "(config \<Rightarrow> string) \<Rightarrow> net_op \<Rightarrow> net_world \<Rightarrow> net_world" where
  "net_step Revision Op_init w = snd (Initialize w)"
| "net_step Revision (Op_submit p) w = in_hostd (Submit Revision p) w"
| "net_step Revision (Op_apply cid) w = (if cid \<in> set (nw_goroutines w)
     then in_hostd (apply_change cid) (w\<lparr>nw_goroutines := remove1 cid (nw_goroutines w)\<rparr>) else w)"
| "net_step Revision (Op_confirm cid) w = in_hostd (Confirm cid) w"
| "net_step Revision (Op_rollback cid expiredOnly) w = snd (Rollback cid expiredOnly w)"
| "net_step Revision (Op_service service add) w = in_hostd (SetService service add) w"
| "net_step Revision (Op_sync services) w = in_hostd (SyncServices services) w"
| "net_step Revision (Op_migrate poolID) w = in_hostd (MigrateDefault poolID) w"
| "net_step Revision Op_hotplug w = in_hostd watch_reconcile w"
| "net_step Revision Op_stop w = w\<lparr>nw_goroutines := []\<rparr>"
| "net_step Revision (Op_reboot boot) w = w\<lparr>nw_effect := [], nw_aliases := [], nw_timers := [], nw_goroutines := [], nw_boot := boot\<rparr>"

section \<open>Changes in effect are confirmed or guarded\<close>

definition guarded_entry :: "disk_state \<Rightarrow> string list \<Rightarrow> origin \<times> config \<Rightarrow> bool" where
  "guarded_entry s timers e = (case e of (By_change i, k) \<Rightarrow> (case map_of (d_Changes s) i of None \<Rightarrow> False
     | Some c \<Rightarrow> k = ch_Candidate c \<and> (ch_State c = ''confirmed'' \<or> d_Pending s = i \<and> i \<in> set timers)) | _ \<Rightarrow> True)"

definition drawn_before :: "(nat \<Rightarrow> string) \<Rightarrow> nat \<Rightarrow> string \<Rightarrow> bool" where
  "drawn_before uuid n i \<longleftrightarrow> (\<exists>k<n. i = uuid k)"

definition net_inv :: "disk_state \<Rightarrow> net_world \<Rightarrow> bool" where
  "net_inv s w \<longleftrightarrow> inj (nw_uuid w) \<and> (\<forall>n. nw_uuid w n \<noteq> []) \<and>
     (\<forall>i\<in>dom (map_of (d_Changes s)). drawn_before (nw_uuid w) (nw_drawn w) i) \<and>
     (\<forall>i\<in>set (nw_goroutines w). drawn_before (nw_uuid w) (nw_drawn w) i \<and> By_change i \<notin> fst ` set (nw_effect w)) \<and>
     distinct (nw_goroutines w) \<and>
     (d_Pending s \<noteq> [] \<longrightarrow> (\<exists>c. map_of (d_Changes s) (d_Pending s) = Some c \<and> ch_State c \<noteq> ''confirmed'')) \<and>
     (\<forall>e\<in>set (nw_effect w). guarded_entry s (nw_timers w) e)"

definition journal_is :: "disk_state \<Rightarrow> net_world \<Rightarrow> bool" where
  "journal_is s w \<longleftrightarrow> nw_journal w = Present s \<or> nw_journal w = Missing \<and> s = fresh_journal"

text \<open>The journal is \<open>s\<close>, and \<open>F\<close> holds of the settings in effect, the timers and the goroutines.\<close>

definition at :: "disk_state \<Rightarrow> ((origin \<times> config) list \<Rightarrow> string list \<Rightarrow> string list \<Rightarrow> bool) \<Rightarrow> net_world \<Rightarrow> bool" where
  "at s F w \<longleftrightarrow> journal_is s w \<and> net_inv s w \<and> F (nw_effect w) (nw_timers w) (nw_goroutines w)"

definition consistent :: "net_world \<Rightarrow> bool" where
  "consistent w \<longleftrightarrow> (\<exists>s. journal_is s w \<and> net_inv s w)"

lemma at_consistent: "at s F w \<Longrightarrow> consistent w"
  by (auto simp: at_def consistent_def)

lemma net_inv_fields:
  "net_inv s (w\<lparr>nw_count := n\<rparr>) = net_inv s w" "net_inv s (w\<lparr>nw_journal := j\<rparr>) = net_inv s w" "net_inv s (w\<lparr>nw_file := f\<rparr>) = net_inv s w"
  "net_inv s (w\<lparr>nw_aliases := a\<rparr>) = net_inv s w" "net_inv s (w\<lparr>nw_boot := b\<rparr>) = net_inv s w"
  by (simp_all add: net_inv_def)

lemma journal_is_fields:
  "journal_is s (w\<lparr>nw_count := n\<rparr>) = journal_is s w" "journal_is s (w\<lparr>nw_file := f\<rparr>) = journal_is s w"
  "journal_is s (w\<lparr>nw_aliases := a\<rparr>) = journal_is s w" "journal_is s (w\<lparr>nw_effect := x\<rparr>) = journal_is s w"
  "journal_is s (w\<lparr>nw_timers := t\<rparr>) = journal_is s w" "journal_is s (w\<lparr>nw_goroutines := g\<rparr>) = journal_is s w"
  "journal_is s (w\<lparr>nw_drawn := d\<rparr>) = journal_is s w" "journal_is s (w\<lparr>nw_boot := b\<rparr>) = journal_is s w"
  "journal_is s (w\<lparr>nw_journal := Present u\<rparr>) = (s = u)"
  by (auto simp: journal_is_def)

lemmas world_fields = net_inv_fields journal_is_fields

lemma triple_outside:
  assumes "\<And>w. P w \<Longrightarrow> P (w\<lparr>nw_count := Suc (nw_count w)\<rparr>)"
    and "\<And>w. P w \<Longrightarrow> C w \<and> C (g w) \<and> Q None (f w)" "\<And>w e. P w \<Longrightarrow> Q (Some e) w \<and> Q (Some e) (g w)"
  shows "triple C P (outside f g) Q"
  unfolding triple_def wp_def outside_def Let_def using assms by (auto split: result.splits)

lemma at_count: "at s F w \<Longrightarrow> at s F (w\<lparr>nw_count := n\<rparr>)"
  by (simp add: at_def world_fields)

text \<open>A call that touches none of this.\<close>

lemma triple_skip:
  assumes "\<And>w. at s F w \<Longrightarrow> at s F (f w)" "\<And>w. at s F w \<Longrightarrow> at s F (g w)"
  shows "triple consistent (at s F) (outside f g) (\<lambda>_. at s F)"
  by (rule triple_outside) (auto intro: assms at_count at_consistent)

lemma triple_net_save:
  assumes "\<And>w. at s F w \<Longrightarrow> net_inv s' w"
  shows "triple consistent (at s F) (save s') (\<lambda>e. if e = None then at s' F else consistent)"
  unfolding save_def Let_def
proof (rule triple_outside)
  fix w
  assume a: "at s F w"
  then have "at s' F (w\<lparr>nw_journal := Present s'\<rparr>)" using assms [OF a] by (simp add: at_def world_fields)
  with a show "consistent w \<and> consistent (w\<lparr>nw_journal := Present s'\<rparr>) \<and> (if None = None then at s' F else consistent) (w\<lparr>nw_journal := Present s'\<rparr>)"
    and "(if Some e = None then at s' F else consistent) w \<and> (if Some e = None then at s' F else consistent) (w\<lparr>nw_journal := Present s'\<rparr>)" for e
    by (auto intro: at_consistent)
qed (rule at_count)

text \<open>The effect of an application of settings, whoever asks for it.\<close>

lemma triple_backend_Apply:
  assumes "\<And>w. at s F w \<Longrightarrow> guarded_entry s (nw_timers w) (by, c)"
    and "\<And>w i. at s F w \<Longrightarrow> by = By_change i \<Longrightarrow> i \<notin> set (nw_goroutines w)"
    and "\<And>e t g. F e t g \<Longrightarrow> F ((by, c) # e) t g"
    and "\<And>w. at s F w \<Longrightarrow> G ((by, c) # filter (\<lambda>(_, k). stays previous c k) (nw_effect w)) (nw_timers w) (nw_goroutines w)"
  shows "triple consistent (at s F) (backend_Apply by previous c services) (\<lambda>e. if e = None then at s G else at s F)"
  unfolding backend_Apply_def
proof (rule triple_outside)
  fix w
  assume a: "at s F w"
  let ?done = "w\<lparr>nw_effect := (by, c) # filter (\<lambda>(_, k). stays previous c k) (nw_effect w), nw_aliases := map snd services @ nw_aliases w\<rparr>"
  let ?part = "w\<lparr>nw_effect := (by, c) # nw_effect w, nw_aliases := map snd services @ nw_aliases w\<rparr>"
  have d: "at s G ?done" using a assms(1) [OF a] assms(2) [OF a] assms(4) [OF a]
    by (auto simp: at_def net_inv_def journal_is_def image_iff)
  have p: "at s F ?part" using a assms(1) [OF a] assms(2) [OF a] assms(3) [of "nw_effect w"]
    by (auto simp: at_def net_inv_def journal_is_def)
  show "consistent w \<and> consistent ?part \<and> (if None = None then at s G else at s F) ?done"
    using a d p by (auto intro: at_consistent)
  show "(if Some x = None then at s G else at s F) w \<and> (if Some x = None then at s G else at s F) ?part" for x :: string
    using a p by simp
qed (rule at_count)

lemma triple_live: "triple consistent (at s F) backend_Live (\<lambda>_. at s F)"
  unfolding backend_Live_def
  by (intro triple_seq [where R = "\<lambda>_. at s F"] triple_skip triple_ret triple_get) auto

lemma triple_verify_loop: "triple consistent (at s F) (verify_loop n services) (\<lambda>_. at s F)"
proof (induction n)
  case (Suc n)
  then show ?case unfolding verify_loop.simps fetch_def
    by (intro triple_seq [OF triple_live]) (auto split: sum.splits)
qed auto

lemma triple_verifyServices: "triple consistent (at s F) (verifyServices services) (\<lambda>_. at s F)"
  unfolding verifyServices_def
  by (auto intro!: triple_seq [where R = "\<lambda>_. at s F"] triple_verify_loop triple_get simp del: verify_loop.simps)

lemma triple_apply_verified:
  assumes "triple consistent (at s F) (backend_Apply by previous c (d_Services s')) (\<lambda>e. if e = None then at s G else at s F)"
    and "\<And>e t g. G e t g \<Longrightarrow> F e t g"
  shows "triple consistent (at s F) (apply_verified by previous c s') (\<lambda>e. if e = None then at s G else at s F)"
proof -
  have up: "triple consistent (at s G) (verifyServices x) (\<lambda>e. if e = None then at s G else at s F)" for x
    by (rule triple_weaken [OF triple_verifyServices [of s G]]) (use assms(2) in \<open>auto simp: at_def\<close>)
  show ?thesis unfolding apply_verified_def
    by (rule triple_guarded [OF assms(1)]) (auto intro!: up)
qed


definition clear_of :: "string \<Rightarrow> (origin \<times> config) list \<Rightarrow> bool" where
  "clear_of cid e \<longleftrightarrow> By_change cid \<notin> fst ` set e"

lemma net_inv_frame: "net_inv s w \<Longrightarrow> d_Changes s' = d_Changes s \<Longrightarrow> d_Pending s' = d_Pending s \<Longrightarrow> net_inv s' w"
proof -
  assume a: "net_inv s w" "d_Changes s' = d_Changes s" "d_Pending s' = d_Pending s"
  then have "guarded_entry s' t e = guarded_entry s t e" for t e
    by (cases e; cases "fst e") (auto simp: guarded_entry_def split: option.splits)
  with a show ?thesis by (simp add: net_inv_def)
qed

lemma guarded_entry_put:
  assumes "guarded_entry s timers e" "map_of (d_Changes s) cid = Some c0" "ch_Candidate c = ch_Candidate c0"
    and "d_Changes s' = AList.update cid c (d_Changes s)" "ch_State c0 \<noteq> ''confirmed''" "d_Pending s = cid"
    and "d_Pending s' = cid \<or> ch_State c = ''confirmed'' \<or> fst e \<noteq> By_change cid"
  shows "guarded_entry s' timers e"
proof (cases e)
  case (Pair b k)
  then show ?thesis using assms by (cases b) (auto simp: guarded_entry_def split: option.splits if_splits)
qed

lemma net_inv_put:
  assumes inv: "net_inv s w" and c: "map_of (d_Changes s) cid = Some c0" "ch_Candidate c = ch_Candidate c0" "d_Pending s = cid"
    and s': "d_Changes s' = AList.update cid c (d_Changes s)"
    and p: "d_Pending s' = cid \<and> ch_State c \<noteq> ''confirmed'' \<or> d_Pending s' = [] \<and> (ch_State c = ''confirmed'' \<or> clear_of cid (nw_effect w))"
  shows "net_inv s' w"
proof -
  have "cid \<noteq> []" using inv c(1) unfolding net_inv_def drawn_before_def by (metis domI)
  then have st: "ch_State c0 \<noteq> ''confirmed''" using inv c unfolding net_inv_def by auto
  have "guarded_entry s' (nw_timers w) e" if "e \<in> set (nw_effect w)" for e
  proof (rule guarded_entry_put [OF _ c(1,2) s' st c(3)])
    show "guarded_entry s (nw_timers w) e" using inv that by (simp add: net_inv_def)
    show "d_Pending s' = cid \<or> ch_State c = ''confirmed'' \<or> fst e \<noteq> By_change cid" using p that by (auto simp: clear_of_def image_iff)
  qed
  moreover have "\<forall>i\<in>dom (map_of (d_Changes s')). drawn_before (nw_uuid w) (nw_drawn w) i"
    using inv c(1) unfolding s' by (auto simp: net_inv_def split: if_splits)
  ultimately show ?thesis using inv p unfolding net_inv_def s' by auto
qed

lemma triple_cancel:
  assumes "(\<exists>c. map_of (d_Changes s) cid = Some c \<and> ch_State c = ''confirmed'') \<or> (\<forall>e t g. F e t g \<longrightarrow> clear_of cid e)"
  shows "triple consistent (at s F) (backend_Cancel cid) (\<lambda>_. consistent)"
  unfolding backend_Cancel_def Let_def
proof (rule triple_outside)
  fix w
  assume a: "at s F w"
  have "guarded_entry s (removeAll cid (nw_timers w)) e" if "e \<in> set (nw_effect w)" for e
  proof -
    have "guarded_entry s (nw_timers w) e" using a that by (simp add: at_def net_inv_def)
    moreover have "fst e = By_change cid \<Longrightarrow> \<exists>c. map_of (d_Changes s) cid = Some c \<and> ch_State c = ''confirmed''"
    proof -
      assume "fst e = By_change cid"
      then have "\<not> clear_of cid (nw_effect w)" using that unfolding clear_of_def by force
      moreover have "F (nw_effect w) (nw_timers w) (nw_goroutines w)" using a by (simp add: at_def)
      ultimately show ?thesis using assms by blast
    qed
    ultimately show ?thesis
      by (cases e; cases "fst e") (auto simp: guarded_entry_def split: option.splits)
  qed
  then have "at s (\<lambda>_ _ _. True) (w\<lparr>nw_timers := removeAll cid (nw_timers w)\<rparr>)"
    using a by (simp add: at_def net_inv_def world_fields)
  with a show "consistent w \<and> consistent (w\<lparr>nw_timers := removeAll cid (nw_timers w)\<rparr>) \<and> consistent (w\<lparr>nw_timers := removeAll cid (nw_timers w)\<rparr>)"
    and "consistent w \<and> consistent (w\<lparr>nw_timers := removeAll cid (nw_timers w)\<rparr>)" by (auto intro: at_consistent)
qed (rule at_count)

lemma triple_writeConfig: "triple consistent (at s F) (writeConfig c) (\<lambda>_. at s F)"
  unfolding writeConfig_def Let_def by (rule triple_skip) (simp_all add: at_def world_fields)

lemma triple_refuse: "triple consistent (at s F) (ret x) (\<lambda>_. consistent)"
  by (auto intro: at_consistent)

lemma triple_consistent: "triple consistent consistent (ret x) (\<lambda>_. consistent)"
  by auto

lemma at_any: "triple C (at s (\<lambda>_ _ _. True)) m Q \<Longrightarrow> triple C (at s F) m Q"
  by (erule triple_weaken) (auto simp: at_def)

lemma rollback_clears:
  assumes "at s (\<lambda>_ _ _. True) w" "d_Pending s = cid" "map_of (d_Changes s) cid = Some c0"
  shows "clear_of cid (filter (\<lambda>(_, k). stays (ch_Candidate c0) c k) (nw_effect w))"
proof -
  have "\<not> stays (ch_Candidate c0) c k" if "(By_change cid, k) \<in> set (nw_effect w)" for k
  proof -
    have "guarded_entry s (nw_timers w) (By_change cid, k)" using assms(1) that by (auto simp: at_def net_inv_def)
    then show ?thesis using assms(3) by (simp add: guarded_entry_def stays_def)
  qed
  then show ?thesis by (auto simp: clear_of_def)
qed


lemma triple_restore:
  assumes "d_Pending s0 = cid" "map_of (d_Changes s0) cid = Some c0"
    and "d_Pending s = cid" "d_Changes s = d_Changes s0 \<or> (\<exists>c. ch_Candidate c = ch_Candidate c0 \<and> d_Changes s = AList.update cid c (d_Changes s0))"
  shows "triple consistent (at s0 (\<lambda>_ _ _. True)) (restore s cid reason) (\<lambda>_. consistent)"
proof -
  define c where "c = the_change s cid"
  have cc: "ch_Candidate c = ch_Candidate c0" "map_of (d_Changes s) cid = Some c" using assms by (auto simp: c_def the_change_def)
  have upd: "AList.update cid d (d_Changes s) = AList.update cid d (d_Changes s0)" for d
    using assms(4) by (auto simp: update_Some_unfold)
  have app: "triple consistent (at s0 (\<lambda>_ _ _. True)) (apply_verified (By_rollback cid) (ch_Candidate c) (ch_Previous c) s)
    (\<lambda>e. if e = None then at s0 (\<lambda>e _ _. clear_of cid e) else at s0 (\<lambda>_ _ _. True))"
  proof (rule triple_apply_verified [OF triple_backend_Apply])
    fix w
    assume a: "at s0 (\<lambda>_ _ _. True) w"
    show "clear_of cid ((By_rollback cid, ch_Previous c) # filter (\<lambda>(_, k). stays (ch_Candidate c) (ch_Previous c) k) (nw_effect w))"
      using rollback_clears [OF a assms(1,2)] unfolding cc by (simp add: clear_of_def)
  qed (simp_all add: guarded_entry_def)
  have put: "at s0 F w \<Longrightarrow> ch_Candidate d = ch_Candidate c0 \<Longrightarrow> d_Changes s' = AList.update cid d (d_Changes s0) \<Longrightarrow>
      d_Pending s' = cid \<and> ch_State d \<noteq> ''confirmed'' \<or> d_Pending s' = [] \<and> (ch_State d = ''confirmed'' \<or> clear_of cid (nw_effect w)) \<Longrightarrow> net_inv s' w"
    for d s' w F by (rule net_inv_put [OF _ assms(2) _ assms(1)]) (simp_all add: at_def)
  have bad: "triple consistent (at s0 (\<lambda>_ _ _. True)) (ignoring (save (put_change cid (c\<lparr>ch_State := ''failed'', ch_Error := x\<rparr>) s)) (stop e)) (\<lambda>_. consistent)" for x e
    unfolding ignoring_def stop_def
  proof (rule triple_seq [OF triple_net_save])
    fix w
    assume "at s0 (\<lambda>_ _ _. True) w"
    then show "net_inv (put_change cid (c\<lparr>ch_State := ''failed'', ch_Error := x\<rparr>) s) w"
      by (rule put [where d = "c\<lparr>ch_State := ''failed'', ch_Error := x\<rparr>"]) (simp_all add: at_def cc(1) upd put_change_def assms(3))
  qed (auto intro: at_consistent)
  let ?s = "(put_change cid (c\<lparr>ch_State := ''rolled_back'', ch_Error := rollback_error reason c\<rparr>) s)\<lparr>d_Confirmed := ch_Previous c, d_Pending := []\<rparr>"
  have good: "triple consistent (at s0 (\<lambda>e _ _. clear_of cid e)) (save ?s) (\<lambda>e. if e = None then at ?s (\<lambda>e _ _. clear_of cid e) else consistent)"
  proof (rule triple_net_save)
    fix w
    assume a: "at s0 (\<lambda>e _ _. clear_of cid e) w"
    then have "clear_of cid (nw_effect w)" by (simp add: at_def)
    then show "net_inv ?s w"
      by (intro put [OF a, where d = "c\<lparr>ch_State := ''rolled_back'', ch_Error := rollback_error reason c\<rparr>"]) (simp_all add: cc(1) upd put_change_def)
  qed
  show ?thesis unfolding restore_def Let_def c_def [symmetric] stop_def
    by (rule triple_guarded [OF app], simp, rule bad [unfolded stop_def], simp,
        rule triple_guarded [OF triple_writeConfig], rule triple_refuse,
        rule triple_guarded [OF good], simp add: triple_consistent, simp add: ignoring_def, rule triple_seq [OF triple_cancel])
      (auto simp: triple_consistent)
qed


text \<open>Before the journal is read.\<close>

definition before :: "((origin \<times> config) list \<Rightarrow> string list \<Rightarrow> string list \<Rightarrow> bool) \<Rightarrow> net_world \<Rightarrow> bool" where
  "before F w \<longleftrightarrow> consistent w \<and> F (nw_effect w) (nw_timers w) (nw_goroutines w)"

lemma before_at: "before F w \<longleftrightarrow> (\<exists>s. at s F w)"
  by (auto simp: before_def consistent_def at_def)

lemma triple_locked_with:
  assumes "\<And>s. triple consistent (at s F) (fn s) (\<lambda>_. consistent)"
  shows "triple consistent (before F) (locked_journal err fn) (\<lambda>_. consistent)"
proof -
  have skip: "triple consistent (before F) (outside id id) (\<lambda>_. before F)"
    by (rule triple_outside) (auto simp: before_def consistent_def world_fields)
  have out: "triple consistent (before F) (ret x) (\<lambda>_. consistent)" for x :: 'a
    by (auto simp: before_def)
  have body: "triple consistent (\<lambda>w. before F w \<and> nw_journal w = j)
      (case j of Missing \<Rightarrow> fn fresh_journal | Corrupt \<Rightarrow> ret (err ''network journal: invalid'') | Present s \<Rightarrow> fn s) (\<lambda>_. consistent)" for j
  proof (cases j)
    case Missing
    show ?thesis unfolding Missing doc.case by (rule triple_weaken [OF assms]) (auto simp: at_def before_at journal_is_def)
  next
    case (Present s)
    show ?thesis unfolding Present doc.case by (rule triple_weaken [OF assms]) (auto simp: at_def before_at journal_is_def)
  qed (auto simp: before_def)
  show ?thesis unfolding locked_journal_def
    by (rule triple_guarded [OF skip], rule out, rule triple_guarded [OF skip], rule out)
      (rule triple_seq [where R = "\<lambda>j w. before F w \<and> nw_journal w = j"], auto intro: body)
qed

lemma triple_locked:
  assumes "\<And>s. triple consistent (at s (\<lambda>_ _ _. True)) (fn s) (\<lambda>_. consistent)"
  shows "triple consistent consistent (locked_journal err fn) (\<lambda>_. consistent)"
  by (rule triple_weaken [OF triple_locked_with [OF assms]]) (auto simp: before_def)

lemma triple_now: "(\<And>t. triple C P (f t) Q) \<Longrightarrow> triple C P (seq net_Now f) Q"
  unfolding net_Now_def by (rule triple_seq [where R = "\<lambda>_. P"]) auto

lemma triple_Arm:
  assumes "\<And>e t g. F e t g \<Longrightarrow> F e (cid # t) g"
  shows "triple consistent (at s F) (backend_Arm cid) (\<lambda>e. if e = None then at s (\<lambda>e t g. F e t g \<and> cid \<in> set t) else at s F)"
  unfolding backend_Arm_def Let_def
proof (rule triple_outside)
  fix w
  assume a: "at s F w"
  have "guarded_entry s (cid # nw_timers w) e" if "e \<in> set (nw_effect w)" for e
  proof -
    have "guarded_entry s (nw_timers w) e" using a that by (simp add: at_def net_inv_def)
    then show ?thesis by (cases e; cases "fst e") (auto simp: guarded_entry_def split: option.splits)
  qed
  then have "at s (\<lambda>e t g. F e t g \<and> cid \<in> set t) (w\<lparr>nw_timers := cid # nw_timers w\<rparr>)"
    using a assms by (simp add: at_def net_inv_def world_fields)
  moreover from this have "at s F (w\<lparr>nw_timers := cid # nw_timers w\<rparr>)" by (simp add: at_def)
  ultimately show "consistent w \<and> consistent (w\<lparr>nw_timers := cid # nw_timers w\<rparr>) \<and>
      (if None = None then at s (\<lambda>e t g. F e t g \<and> cid \<in> set t) else at s F) (w\<lparr>nw_timers := cid # nw_timers w\<rparr>)"
    and "(if Some x = None then at s (\<lambda>e t g. F e t g \<and> cid \<in> set t) else at s F) w \<and>
      (if Some x = None then at s (\<lambda>e t g. F e t g \<and> cid \<in> set t) else at s F) (w\<lparr>nw_timers := cid # nw_timers w\<rparr>)" for x :: string
    using a by (auto intro: at_consistent)
qed (rule at_count)

lemma the_change_put: "the_change (put_change cid c s) cid = c" "d_Pending (put_change cid c s) = d_Pending s"
  "d_Changes (put_change cid c s) = AList.update cid c (d_Changes s)"
  by (simp_all add: the_change_def put_change_def)

lemma triple_armed_apply:
  assumes p: "d_Pending s = cid" and c: "map_of (d_Changes s) cid = Some c"
  shows "triple consistent (at s (\<lambda>e t g. cid \<notin> set g \<and> cid \<in> set t)) (armed_apply cid c s) (\<lambda>_. consistent)"
proof -
  let ?F = "\<lambda>(e :: (origin \<times> config) list) t g. cid \<notin> set g \<and> cid \<in> set t"
  have app: "triple consistent (at s ?F) (apply_verified (By_change cid) (ch_Previous c) (ch_Candidate c) s) (\<lambda>e. if e = None then at s ?F else at s ?F)"
    by (rule triple_apply_verified, rule triple_backend_Apply) (use c p in \<open>auto simp: guarded_entry_def at_def\<close>)
  have await: "triple consistent (at s ?F) (save (put_change cid (c\<lparr>ch_State := ''awaiting_confirmation''\<rparr>) s)) (\<lambda>_. consistent)"
  proof (rule triple_weaken [OF triple_net_save])
    fix w
    assume "at s ?F w"
    then have "net_inv s w" by (simp add: at_def)
    then show "net_inv (put_change cid (c\<lparr>ch_State := ''awaiting_confirmation''\<rparr>) s) w"
      by (rule net_inv_put [OF _ c _ p]) (auto simp: the_change_put p)
  qed (auto intro: at_consistent split: if_splits)
  have bad: "triple consistent (at s ?F) (restore (put_change cid (c\<lparr>ch_Error := e\<rparr>) s) cid r) (\<lambda>_. consistent)" for e r
    by (rule at_any, rule triple_restore [OF p c])
      (simp_all add: the_change_put p, rule disjI2, rule exI [of _ "c\<lparr>ch_Error := e\<rparr>"], simp)
  have late: "triple consistent (at s ?F) (restore s cid r) (\<lambda>_. consistent)" for r
    by (rule at_any, rule triple_restore [OF p c p]) simp
  show ?thesis unfolding armed_apply_def
    by (rule triple_guarded [OF app]) (simp_all add: bad triple_now late await)
qed


lemma pending_change: "at s F w \<Longrightarrow> d_Pending s = cid \<Longrightarrow> cid \<noteq> [] \<Longrightarrow> \<exists>c. map_of (d_Changes s) cid = Some c"
  by (auto simp: at_def net_inv_def)

lemma known_change: "at s F w \<Longrightarrow> map_of (d_Changes s) cid = Some c \<Longrightarrow> cid \<noteq> []"
  unfolding at_def net_inv_def drawn_before_def by (metis domI)

lemma triple_save_put:
  assumes p: "d_Pending s = cid" and c0: "map_of (d_Changes s) cid = Some c0"
    and s': "d_Changes s' = AList.update cid c (d_Changes s)" "ch_Candidate c = ch_Candidate c0"
    and q: "d_Pending s' = cid \<and> ch_State c \<noteq> ''confirmed'' \<or> d_Pending s' = [] \<and> (ch_State c = ''confirmed'' \<or> (\<forall>e t g. F e t g \<longrightarrow> clear_of cid e))"
  shows "triple consistent (at s F) (save s') (\<lambda>e. if e = None then at s' F else consistent)"
proof (rule triple_net_save)
  fix w
  assume a: "at s F w"
  then have inv: "net_inv s w" and F: "F (nw_effect w) (nw_timers w) (nw_goroutines w)" by (simp_all add: at_def)
  have "d_Pending s' = cid \<and> ch_State c \<noteq> ''confirmed'' \<or> d_Pending s' = [] \<and> (ch_State c = ''confirmed'' \<or> clear_of cid (nw_effect w))"
    using q F by blast
  then show "net_inv s' w" by (rule net_inv_put [OF inv c0 s'(2) p s'(1)])
qed

lemma triple_apply_pending:
  assumes p: "d_Pending s0 = cid" and c0: "map_of (d_Changes s0) cid = Some c0" "ch_State c0 \<noteq> ''confirmed''"
  shows "triple consistent (at s0 (\<lambda>e t g. cid \<notin> set g \<and> clear_of cid e)) (apply_pending cid s0 now) (\<lambda>_. consistent)"
proof -
  let ?F = "\<lambda>e (t :: string list) g. cid \<notin> set g \<and> clear_of cid e"
  define c where "c = (the_change s0 cid)\<lparr>ch_Deadline := confirmation_deadline now\<rparr>"
  have cd: "ch_Candidate c = ch_Candidate c0" "ch_State c = ch_State c0" by (simp_all add: c_def the_change_def c0)
  let ?s = "put_change cid c s0"
  have sc: "d_Pending ?s = cid" "map_of (d_Changes ?s) cid = Some c" by (simp_all add: the_change_put p)
  have first: "triple consistent (at s0 ?F) (save ?s) (\<lambda>e. if e = None then at ?s ?F else consistent)"
    by (rule triple_save_put [OF p c0(1), of _ c]) (simp_all add: the_change_put p cd c0(2))
  have arm: "triple consistent (at ?s ?F) (backend_Arm cid) (\<lambda>e. if e = None then at ?s (\<lambda>e t g. ?F e t g \<and> cid \<in> set t) else at ?s ?F)"
    by (rule triple_Arm) simp
  have fail: "triple consistent (at ?s ?F) (save ((put_change cid (c\<lparr>ch_State := ''failed'', ch_Error := x\<rparr>) ?s)\<lparr>d_Pending := []\<rparr>)) (\<lambda>_. consistent)" for x
    by (rule triple_weaken [OF triple_save_put [OF sc, of _ "c\<lparr>ch_State := ''failed'', ch_Error := x\<rparr>"]])
      (auto simp: the_change_put put_change_def intro: at_consistent split: if_splits)
  have go: "triple consistent (at ?s (\<lambda>e t g. cid \<notin> set g \<and> clear_of cid e \<and> cid \<in> set t)) (armed_apply cid c ?s) (\<lambda>_. consistent)"
    by (rule triple_weaken [OF triple_armed_apply [OF sc]]) (auto simp: at_def)
  show ?thesis unfolding apply_pending_def Let_def c_def [symmetric] stop_def
    by (rule triple_guarded [OF first], simp add: triple_consistent, simp, rule triple_guarded [OF arm]) (simp_all add: fail go)
qed

lemma triple_apply_change:
  assumes "cid \<noteq> []"
  shows "triple consistent (before (\<lambda>e t g. cid \<notin> set g \<and> clear_of cid e)) (apply_change cid) (\<lambda>_. consistent)"
  unfolding apply_change_def
proof (rule triple_locked_with, rule triple_if)
  fix s :: disk_state
  assume "\<not> d_Pending s \<noteq> cid"
  then have p: "d_Pending s = cid" by simp
  show "triple consistent (at s (\<lambda>e t g. cid \<notin> set g \<and> clear_of cid e)) (seq net_Now (apply_pending cid s)) (\<lambda>_. consistent)"
    by (rule triple_pre [where b = "\<exists>c0. map_of (d_Changes s) cid = Some c0 \<and> ch_State c0 \<noteq> ''confirmed''"])
      (use p assms in \<open>auto simp: at_def net_inv_def intro!: triple_now triple_apply_pending\<close>)
qed (rule triple_refuse)

lemma triple_restore_pending:
  "d_Pending s = cid \<Longrightarrow> map_of (d_Changes s) cid = Some c \<Longrightarrow> triple consistent (at s F) (restore s cid reason) (\<lambda>_. consistent)"
  by (rule at_any, rule triple_restore) simp_all

lemma triple_confirm_locked: "triple consistent (at s (\<lambda>_ _ _. True)) (confirm_locked cid s) (\<lambda>_. consistent)"
proof (cases "\<exists>c. map_of (d_Changes s) cid = Some c \<and> d_Pending s = cid")
  case False
  then show ?thesis unfolding confirm_locked_def stop_def by (auto split: option.splits simp: triple_refuse)
next
  case True
  then obtain c where c: "map_of (d_Changes s) cid = Some c" and p: "d_Pending s = cid" by blast
  let ?s = "confirmed_state cid c s" and ?T = "\<lambda>(_ :: (origin \<times> config) list) (_ :: string list) (_ :: string list). True"
  have cs: "map_of (d_Changes ?s) cid = Some (c\<lparr>ch_State := ''confirmed''\<rparr>)" by (simp add: confirmed_state_def put_change_def)
  have first: "triple consistent (at s ?T) (save ?s) (\<lambda>e. if e = None then at ?s ?T else consistent)"
    by (rule triple_save_put [OF p c, of _ "c\<lparr>ch_State := ''confirmed''\<rparr>"]) (simp_all add: confirmed_state_def put_change_def)
  have last: "triple consistent (at ?s ?T) (save (?s\<lparr>d_NeedsConfig := False\<rparr>)) (\<lambda>e. if e = None then at (?s\<lparr>d_NeedsConfig := False\<rparr>) ?T else consistent)"
    by (rule triple_net_save) (auto simp: at_def intro: net_inv_frame)
  have cancel: "triple consistent (at (?s\<lparr>d_NeedsConfig := False\<rparr>) ?T) (backend_Cancel cid) (\<lambda>_. consistent)"
    by (rule triple_cancel) (simp add: cs)
  have commit: "triple consistent (at s ?T) (guarded (save ?s) stop (guarded (writeConfig (ch_Candidate c)) stop
      (guarded (save (?s\<lparr>d_NeedsConfig := False\<rparr>)) stop (ignoring (backend_Cancel cid) (ret None))))) (\<lambda>_. consistent)"
    unfolding stop_def
    by (rule triple_guarded [OF first], simp add: triple_consistent, simp, rule triple_guarded [OF triple_writeConfig], rule triple_refuse,
        rule triple_guarded [OF last], simp add: triple_consistent, simp add: ignoring_def, rule triple_seq [OF cancel]) (rule triple_consistent)
  have late: "triple consistent (at s ?T) (guarded (restore s cid r) stop (stop x)) (\<lambda>_. consistent)" for r x
    unfolding stop_def by (rule triple_guarded [OF triple_restore_pending [OF p c]]) (rule triple_consistent)+
  show ?thesis unfolding confirm_locked_def using c p commit late
    by (auto simp: stop_def intro!: triple_if triple_now triple_refuse)
qed

lemma triple_rollback_locked: "triple consistent (at s (\<lambda>_ _ _. True)) (rollback_locked cid x s) (\<lambda>_. consistent)"
  unfolding rollback_locked_def stop_def
  by (auto split: option.splits simp: triple_refuse intro!: triple_now triple_restore_pending)

lemma triple_read_journal: "triple consistent consistent read_journal (\<lambda>_. consistent)"
  unfolding read_journal_def
  by (rule triple_seq [where R = "\<lambda>_. consistent"], blast, rule triple_seq [where R = "\<lambda>_. consistent"], rule triple_outside)
    (auto simp: consistent_def world_fields)

lemma triple_Get: "triple consistent consistent (Get cid) (\<lambda>_. consistent)"
  unfolding Get_def fetch_def by (rule triple_seq [OF triple_read_journal]) (auto split: sum.splits)

lemma triple_Confirm: "triple consistent consistent (Confirm cid) (\<lambda>_. consistent)"
  unfolding Confirm_def by (rule triple_guarded [OF triple_locked [OF triple_confirm_locked]]) (auto intro: triple_Get)

lemma triple_Rollback: "triple consistent consistent (Rollback cid x) (\<lambda>_. consistent)"
  unfolding Rollback_def by (rule triple_guarded [OF triple_locked [OF triple_rollback_locked]]) (auto intro: triple_Get)


text \<open>Startup: the settings of a pending change go before its record does.\<close>

lemma recovered_fields:
  "d_Pending (startup_done c s) = []"
  "d_Changes (startup_done c s) = (if d_Pending s = [] then d_Changes s else AList.update (d_Pending s)
     ((the_change s (d_Pending s))\<lparr>ch_State := ''rolled_back'', ch_Error := ''unconfirmed change recovered on startup''\<rparr>) (d_Changes s))"
  by (simp_all add: startup_done_def recovered_def put_change_def)

lemma triple_save_frame:
  assumes "d_Changes s' = d_Changes s" "d_Pending s' = d_Pending s"
  shows "triple consistent (at s F) (save s') (\<lambda>e. if e = None then at s' F else consistent)"
  by (rule triple_net_save) (auto simp: at_def intro: net_inv_frame [OF _ assms])

lemma triple_startup_apply:
  assumes s: "d_Changes s = d_Changes s0" "d_Pending s = d_Pending s0" and prev: "previous = startup_previous s0"
  shows "triple consistent (at s0 (\<lambda>_ _ _. True)) (startup_apply previous c s) (\<lambda>_. consistent)"
proof -
  let ?T = "\<lambda>(_ :: (origin \<times> config) list) (_ :: string list) (_ :: string list). True"
  let ?G = "\<lambda>e (_ :: string list) (_ :: string list). d_Pending s \<noteq> [] \<longrightarrow> clear_of (d_Pending s) e"
  let ?s1 = "s\<lparr>d_Startup := Some c\<rparr>" and ?s2 = "startup_done c s"
  let ?s3 = "?s2\<lparr>d_NeedsConfig := False\<rparr>"
  have first: "triple consistent (at s0 ?T) (save ?s1) (\<lambda>e. if e = None then at ?s1 ?T else consistent)"
    by (rule triple_save_frame) (simp_all add: s)
  have app: "triple consistent (at ?s1 ?T) (apply_verified By_startup previous c s) (\<lambda>e. if e = None then at ?s1 ?G else at ?s1 ?T)"
  proof (rule triple_apply_verified [OF triple_backend_Apply])
    fix w
    assume a: "at ?s1 ?T w"
    show "d_Pending s \<noteq> [] \<longrightarrow> clear_of (d_Pending s) ((By_startup, c) # filter (\<lambda>(_, k). stays previous c k) (nw_effect w))"
    proof
      assume "d_Pending s \<noteq> []"
      then obtain c0 where c0: "map_of (d_Changes ?s1) (d_Pending s) = Some c0" using pending_change [OF a] by auto
      then have "previous = ch_Candidate c0" using \<open>d_Pending s \<noteq> []\<close> prev s by (simp add: startup_previous_def the_change_def)
      then show "clear_of (d_Pending s) ((By_startup, c) # filter (\<lambda>(_, k). stays previous c k) (nw_effect w))"
        using rollback_clears [OF a _ c0] by (simp add: clear_of_def)
    qed
  qed (simp_all add: guarded_entry_def)
  have second: "triple consistent (at ?s1 ?G) (save ?s2) (\<lambda>e. if e = None then at ?s2 ?G else consistent)"
  proof (cases "d_Pending s = []")
    case True
    then show ?thesis by (intro triple_save_frame) (simp_all add: recovered_fields)
  next
    case False
    show ?thesis
    proof (rule triple_pre [where b = "\<exists>c0. map_of (d_Changes s) (d_Pending s) = Some c0"])
      show "at ?s1 ?G w \<Longrightarrow> \<exists>c0. map_of (d_Changes s) (d_Pending s) = Some c0" for w using pending_change [of ?s1 ?G w "d_Pending s"] False by simp
      assume "\<exists>c0. map_of (d_Changes s) (d_Pending s) = Some c0"
      then obtain c0 where c0: "map_of (d_Changes ?s1) (d_Pending s) = Some c0" by auto
      show "triple consistent (at ?s1 ?G) (save ?s2) (\<lambda>e. if e = None then at ?s2 ?G else consistent)"
        by (rule triple_save_put [OF _ c0, where c = "c0\<lparr>ch_State := ''rolled_back'', ch_Error := ''unconfirmed change recovered on startup''\<rparr>"])
          (use c0 False in \<open>simp_all add: recovered_fields the_change_def\<close>)
    qed
  qed
  have third: "triple consistent (at ?s2 ?G) (save ?s3) (\<lambda>_. consistent)"
    by (rule triple_weaken [OF triple_save_frame]) (auto intro: at_consistent split: if_splits)
  show ?thesis unfolding startup_apply_def stop_def
    by (rule triple_guarded [OF first], simp add: triple_consistent, simp, rule triple_guarded [OF app], simp add: triple_refuse, simp,
        rule triple_guarded [OF second], simp add: triple_consistent, simp, rule triple_guarded [OF triple_writeConfig], rule triple_refuse, rule third)
qed


lemma this_boot_fields: "d_Changes (this_boot b s) = d_Changes s" "d_Pending (this_boot b s) = d_Pending s"
  by (simp_all add: this_boot_def)

lemma triple_startup_from: "triple consistent (at s (\<lambda>_ _ _. True)) (startup_from c s) (\<lambda>_. consistent)"
proof -
  let ?T = "\<lambda>(_ :: (origin \<times> config) list) (_ :: string list) (_ :: string list). True"
  have boot: "triple consistent (at s ?T) (outside id id) (\<lambda>_. at s ?T)" by (rule triple_skip) simp_all
  have go: "triple consistent (at s ?T) (startup_apply (startup_previous s) c' ((this_boot b s)\<lparr>d_NeedsConfig := False, d_BridgeMAC := m\<rparr>)) (\<lambda>_. consistent)" for c' b m
    by (rule triple_startup_apply) (simp_all add: this_boot_fields)
  show ?thesis unfolding startup_from_def stop_def Let_def fetch_def
    by (rule triple_guarded [OF boot], rule triple_refuse, rule triple_seq [where R = "\<lambda>_. at s ?T"], blast)
      (auto split: sum.splits option.splits intro!: triple_seq [OF triple_live] triple_refuse triple_if go simp: triple_refuse go)
qed

lemma triple_Initialize: "triple consistent consistent Initialize (\<lambda>_. consistent)"
  unfolding Initialize_def
proof (rule triple_locked)
  fix s
  let ?T = "\<lambda>(_ :: (origin \<times> config) list) (_ :: string list) (_ :: string list). True"
  have read: "triple consistent (at s ?T) read_config (\<lambda>_. at s ?T)"
    unfolding read_config_def by (intro triple_seq [where R = "\<lambda>_. at s ?T"] triple_skip triple_ret triple_get) auto
  have archive: "triple consistent (at s ?T) backend_ArchiveLegacy (\<lambda>_. at s ?T)"
    unfolding backend_ArchiveLegacy_def by (rule triple_skip) simp_all
  have legacy: "triple consistent (at s ?T) (guarded backend_ArchiveLegacy stop (startup_from c s)) (\<lambda>_. consistent)" for c
    unfolding stop_def by (rule triple_guarded [OF archive], rule triple_refuse, rule triple_startup_from)
  show "triple consistent (at s ?T) (seq read_config (\<lambda>r. case from_file s r of Inl e \<Rightarrow> stop e
     | Inr c \<Rightarrow> if r = NotExist then guarded backend_ArchiveLegacy stop (startup_from c s) else startup_from c s)) (\<lambda>_. consistent)"
    by (rule triple_seq [OF read]) (auto split: sum.splits simp: stop_def [of x for x] triple_refuse legacy triple_startup_from)
qed

text \<open>Submission: a new identifier names no change, no goroutine and no setting in effect.\<close>

definition fresh_id :: "string \<Rightarrow> disk_state \<Rightarrow> net_world \<Rightarrow> bool" where
  "fresh_id cid s w \<longleftrightarrow> at s (\<lambda>e t g. cid \<notin> set g \<and> clear_of cid e) w \<and> drawn_before (nw_uuid w) (nw_drawn w) cid"

lemma triple_draw_uuid: "triple consistent (at s (\<lambda>_ _ _. True)) draw_uuid (\<lambda>cid w. fresh_id cid s w \<and> map_of (d_Changes s) cid = None)"
proof -
  have "fresh_id (nw_uuid w (nw_drawn w)) s (w\<lparr>nw_drawn := Suc (nw_drawn w)\<rparr>) \<and> map_of (d_Changes s) (nw_uuid w (nw_drawn w)) = None"
    if a: "at s (\<lambda>_ _ _. True) w" for w
  proof -
    let ?i = "nw_uuid w (nw_drawn w)"
    have inv: "net_inv s w" "journal_is s w" using a by (simp_all add: at_def)
    have "\<not> drawn_before (nw_uuid w) (nw_drawn w) ?i" using inv(1) by (auto simp: drawn_before_def net_inv_def dest: injD)
    then have none: "map_of (d_Changes s) ?i = None" and go: "?i \<notin> set (nw_goroutines w)" using inv(1) by (auto simp: net_inv_def dom_def)
    have clear: "clear_of ?i (nw_effect w)"
    proof -
      have "\<not> guarded_entry s (nw_timers w) (By_change ?i, k)" for k using none by (simp add: guarded_entry_def)
      then show ?thesis using inv(1) by (auto simp: clear_of_def net_inv_def)
    qed
    have "drawn_before (nw_uuid w) (nw_drawn w) j \<Longrightarrow> drawn_before (nw_uuid w) (Suc (nw_drawn w)) j" for j by (auto simp: drawn_before_def intro: less_SucI)
    then have "net_inv s (w\<lparr>nw_drawn := Suc (nw_drawn w)\<rparr>)" using inv(1) by (auto simp: net_inv_def)
    then show ?thesis using inv(2) none go clear by (simp add: fresh_id_def at_def world_fields drawn_before_def) blast
  qed
  then show ?thesis by (auto simp: triple_def wp_def draw_uuid_def)
qed

lemma net_inv_new:
  assumes "fresh_id cid s w" "map_of (d_Changes s) cid = None" "d_Pending s = []" "ch_State r \<noteq> ''confirmed''"
    and s': "d_Changes s' = AList.update cid r (d_Changes s)" "d_Pending s' = cid"
  shows "net_inv s' w"
proof -
  have inv: "net_inv s w" and clear: "clear_of cid (nw_effect w)" and dr: "drawn_before (nw_uuid w) (nw_drawn w) cid"
    using assms(1) by (simp_all add: fresh_id_def at_def)
  have "guarded_entry s' (nw_timers w) e" if "e \<in> set (nw_effect w)" for e
  proof -
    have "guarded_entry s (nw_timers w) e" "fst e \<noteq> By_change cid" using inv clear that by (auto simp: net_inv_def clear_of_def image_iff)
    moreover have "i \<noteq> []" if "map_of (d_Changes s) i = Some c" for i c
      using inv that unfolding net_inv_def drawn_before_def by (metis domI)
    ultimately show ?thesis using s' assms(3) by (cases e; cases "fst e") (auto simp: guarded_entry_def split: option.splits)
  qed
  moreover have "\<forall>i\<in>dom (map_of (d_Changes s')). drawn_before (nw_uuid w) (nw_drawn w) i"
    using inv dr unfolding s' by (auto simp: net_inv_def split: if_splits)
  ultimately show ?thesis using inv assms(4) unfolding net_inv_def s' by auto
qed

lemma triple_begin_change:
  assumes "d_Pending s = []"
  shows "triple consistent (at s (\<lambda>_ _ _. True)) (begin_change c p hash s) (\<lambda>_. consistent)"
  unfolding begin_change_def Let_def
proof (rule triple_seq [OF triple_draw_uuid])
  fix cid
  let ?s = "put_change cid (new_change cid c p hash s) (s\<lparr>d_Pending := cid\<rparr>)"
  let ?P = "\<lambda>w. fresh_id cid s w \<and> map_of (d_Changes s) cid = None"
  have new: "net_inv ?s w" if "?P w" for w
    by (rule net_inv_new [where s = s and cid = cid and r = "new_change cid c p hash s"]) (use that assms in \<open>simp_all add: the_change_put put_change_def new_change_def\<close>)
  have save: "triple consistent ?P (save ?s) (\<lambda>e w. if e = None then fresh_id cid ?s w else consistent w)"
    unfolding save_def Let_def
  proof (rule triple_outside)
    fix w
    assume a: "?P w"
    then have "fresh_id cid ?s (w\<lparr>nw_journal := Present ?s\<rparr>)" using new [OF a] by (simp add: fresh_id_def at_def world_fields)
    moreover from this have "consistent (w\<lparr>nw_journal := Present ?s\<rparr>)" by (auto simp: fresh_id_def intro: at_consistent)
    moreover have "consistent w" using a by (auto simp: fresh_id_def intro: at_consistent)
    ultimately show "consistent w \<and> consistent (w\<lparr>nw_journal := Present ?s\<rparr>) \<and>
        (if None = None then fresh_id cid ?s (w\<lparr>nw_journal := Present ?s\<rparr>) else consistent (w\<lparr>nw_journal := Present ?s\<rparr>))"
      and "(if Some x = None then fresh_id cid ?s w else consistent w) \<and>
        (if Some x = None then fresh_id cid ?s (w\<lparr>nw_journal := Present ?s\<rparr>) else consistent (w\<lparr>nw_journal := Present ?s\<rparr>))" for x :: string
      by simp_all
  qed (simp add: fresh_id_def at_count)
  have spawn: "triple consistent (fresh_id cid ?s) (spawn_apply cid) (\<lambda>_. consistent)"
    unfolding spawn_apply_def
    by (rule triple_modify) (auto simp: fresh_id_def at_def consistent_def net_inv_def world_fields clear_of_def)
  show "triple consistent ?P (guarded (save ?s) (\<lambda>e. ret (Inl e)) (seq (spawn_apply cid) (\<lambda>_. ret (Inr (change.truncate (new_change cid c p hash s)))))) (\<lambda>_. consistent)"
    by (rule triple_guarded [OF save], simp add: triple_consistent, simp, rule triple_seq [OF spawn], rule triple_consistent)
qed


lemma triple_Submit: "triple consistent consistent (Submit Revision p) (\<lambda>_. consistent)"
  unfolding Submit_def
proof (rule triple_locked)
  show "triple consistent (at s (\<lambda>_ _ _. True)) (submit_locked Revision p s) (\<lambda>_. consistent)" for s
    unfolding submit_locked_def Let_def fetch_def
    by (auto split: sum.splits option.splits intro!: triple_if triple_refuse triple_seq [OF triple_live] simp: triple_begin_change triple_refuse)
qed

lemma triple_backend_Service: "triple consistent (at s F) (backend_Service v add) (\<lambda>_. at s F)"
  unfolding backend_Service_def Let_def by (rule triple_skip) (simp_all add: at_def world_fields)

lemma triple_add_service: "triple consistent (at s (\<lambda>_ _ _. True)) (add_service v s) (\<lambda>_. consistent)"
proof -
  have store: "triple consistent (at s (\<lambda>_ _ _. True)) (guarded (save (s\<lparr>d_Services := x\<rparr>)) stop (backend_Service v True)) (\<lambda>_. consistent)" for x
    unfolding stop_def
    by (rule triple_guarded [OF triple_save_frame], simp, simp, simp add: triple_consistent, simp)
      (rule triple_weaken [OF triple_backend_Service], auto intro: at_consistent)
  show ?thesis unfolding add_service_def fetch_def stop_def [symmetric]
    by (rule triple_seq [OF triple_live]) (auto split: sum.splits option.splits intro!: triple_if simp: store stop_def triple_refuse store [unfolded stop_def])
qed

lemma triple_remove_service: "triple consistent (at s (\<lambda>_ _ _. True)) (remove_service v s) (\<lambda>_. consistent)"
proof -
  have store: "triple consistent (at s (\<lambda>_ _ _. True)) (guarded (backend_Service u False) stop (save (s\<lparr>d_Services := x\<rparr>))) (\<lambda>_. consistent)" for u x
    unfolding stop_def
    by (rule triple_guarded [OF triple_backend_Service], rule triple_refuse, rule triple_weaken [OF triple_save_frame])
      (auto intro: at_consistent split: if_splits)
  show ?thesis unfolding remove_service_def
    by (auto split: option.splits simp: store triple_refuse stop_def store [unfolded stop_def])
qed

lemma triple_SetService: "triple consistent consistent (SetService v add) (\<lambda>_. consistent)"
  unfolding SetService_def
  by (rule triple_locked) (auto split: sum.splits intro!: triple_if simp: stop_def triple_refuse triple_add_service triple_remove_service)

lemma triple_sync_remove:
  "triple consistent (at s (\<lambda>_ _ _. True)) (sync_remove wanted l s)
     (\<lambda>r w. case r of Inl _ \<Rightarrow> consistent w | Inr s' \<Rightarrow> at s' (\<lambda>_ _ _. True) w)"
proof (induction wanted l s rule: sync_remove.induct)
  case (2 wanted i v rest s)
  show ?case
  proof (cases "service_at wanted i \<noteq> v")
    case True
    have "triple consistent (at s (\<lambda>_ _ _. True)) (save (s\<lparr>d_Services := AList.delete i (d_Services s)\<rparr>))
      (\<lambda>e. if e = None then at (s\<lparr>d_Services := AList.delete i (d_Services s)\<rparr>) (\<lambda>_ _ _. True) else consistent)"
      by (rule triple_save_frame) simp_all
    then have "triple consistent (at s (\<lambda>_ _ _. True)) (guarded (save (s\<lparr>d_Services := AList.delete i (d_Services s)\<rparr>)) (\<lambda>e. ret (Inl e))
        (sync_remove wanted rest (s\<lparr>d_Services := AList.delete i (d_Services s)\<rparr>)))
      (\<lambda>r w. case r of Inl _ \<Rightarrow> consistent w | Inr s' \<Rightarrow> at s' (\<lambda>_ _ _. True) w)"
      by (rule triple_guarded) (use 2(1) [OF True refl] in auto)
    then show ?thesis using True
      by (simp add: Let_def) (rule triple_guarded [OF triple_backend_Service], auto intro!: triple_ret intro: at_consistent)
  qed (use 2(2) in simp)
qed auto

lemma triple_sync_add: "triple consistent (at s (\<lambda>_ _ _. True)) (sync_add addresses l s) (\<lambda>_. consistent)"
proof (induction addresses l s rule: sync_add.induct)
  case (2 addresses i v rest s)
  let ?s = "s\<lparr>d_Services := AList.update i v (d_Services s)\<rparr>"
  show ?case
  proof (cases "service_at (d_Services s) i = v \<and> svc_Address v \<in> set addresses")
    case False
    have rest: "triple consistent (at ?s (\<lambda>_ _ _. True)) (guarded (backend_Service v True) stop (sync_add addresses rest ?s)) (\<lambda>_. consistent)"
      unfolding stop_def by (rule triple_guarded [OF triple_backend_Service]) (use 2(2) [OF False refl] in \<open>simp_all add: triple_refuse\<close>)
    have "triple consistent (at s (\<lambda>_ _ _. True)) (guarded (save ?s) stop (guarded (backend_Service v True) stop (sync_add addresses rest ?s))) (\<lambda>_. consistent)"
      by (rule triple_guarded [OF triple_save_frame], simp, simp) (use rest in \<open>simp_all add: triple_consistent stop_def [of x for x]\<close>)
    then show ?thesis unfolding sync_add.simps Let_def if_not_P [OF False] .
  qed (use 2(1) in simp)
qed (simp add: triple_refuse)

lemma triple_SyncServices: "triple consistent consistent (SyncServices services) (\<lambda>_. consistent)"
  unfolding SyncServices_def
proof (rule triple_locked)
  have sync: "triple consistent (at s (\<lambda>_ _ _. True)) (fetch (sync_remove wanted l s) stop (sync_add addresses wanted)) (\<lambda>_. consistent)" for s l wanted addresses
    unfolding fetch_def stop_def
    by (rule triple_seq [OF triple_sync_remove]) (auto split: sum.splits simp: triple_sync_add triple_consistent)
  show "triple consistent (at s (\<lambda>_ _ _. True)) (if d_Pending s \<noteq> [] then stop (Error ''conflict'' ''network change outstanding'')
     else fetch backend_Live stop (\<lambda>live.
       case wanted_loop (primaryAddresses (lv_Addresses live) (d_Services s)) [] services of Inl e \<Rightarrow> stop e
       | Inr wanted \<Rightarrow> (case validateServices (d_Confirmed s) wanted of Some e \<Rightarrow> stop e
         | None \<Rightarrow> fetch (sync_remove wanted (d_Services s) s) stop (\<lambda>s'. sync_add (lv_Addresses live) wanted s')))) (\<lambda>_. consistent)" for s
    unfolding fetch_def [of backend_Live]
    by (auto split: sum.splits option.splits intro!: triple_if triple_seq [OF triple_live] sync simp: stop_def [of x for x] triple_refuse)
qed

lemma triple_MigrateDefault: "triple consistent consistent (MigrateDefault poolID) (\<lambda>_. consistent)"
  unfolding MigrateDefault_def
proof (rule triple_locked)
  fix s :: disk_state
  let ?s = "s\<lparr>d_Confirmed := (d_Confirmed s)\<lparr>c_DefaultPoolID := poolID\<rparr>, d_NeedsConfig := True\<rparr>"
  have last: "triple consistent (at ?s (\<lambda>_ _ _. True)) (save (?s\<lparr>d_NeedsConfig := False\<rparr>)) (\<lambda>_. consistent)"
    by (rule triple_weaken [OF triple_save_frame]) (auto intro: at_consistent split: if_splits)
  have "triple consistent (at s (\<lambda>_ _ _. True)) (guarded (save ?s) stop (guarded (writeConfig ((d_Confirmed s)\<lparr>c_DefaultPoolID := poolID\<rparr>)) stop (save (?s\<lparr>d_NeedsConfig := False\<rparr>)))) (\<lambda>_. consistent)"
    unfolding stop_def
    by (rule triple_guarded [OF triple_save_frame], simp, simp, simp add: triple_consistent, simp, rule triple_guarded [OF triple_writeConfig], rule triple_refuse)
      (use last in simp)
  then show "triple consistent (at s (\<lambda>_ _ _. True)) (if d_Pending s \<noteq> [] then stop (Error ''conflict'' ''network change outstanding'')
     else if c_DefaultPoolID (d_Confirmed s) \<noteq> [] then ret None
     else let c = (d_Confirmed s)\<lparr>c_DefaultPoolID := poolID\<rparr>; s' = s\<lparr>d_Confirmed := c, d_NeedsConfig := True\<rparr> in
       guarded (save s') stop (guarded (writeConfig c) stop (save (s'\<lparr>d_NeedsConfig := False\<rparr>)))) (\<lambda>_. consistent)"
    by (auto simp: Let_def stop_def triple_refuse intro!: triple_if)
qed

lemma triple_watch: "triple consistent consistent watch_reconcile (\<lambda>_. consistent)"
  unfolding watch_reconcile_def
proof (rule triple_locked)
  show "triple consistent (at s (\<lambda>_ _ _. True)) (if d_Pending s \<noteq> [] then ret None
     else backend_Apply By_hotplug (d_Confirmed s) (d_Confirmed s) (d_Services s)) (\<lambda>_. consistent)" for s
    by (rule triple_if, rule triple_refuse, rule triple_weaken [OF triple_backend_Apply [where F = "\<lambda>_ _ _. True" and G = "\<lambda>_ _ _. True"]])
      (auto simp: guarded_entry_def intro: at_consistent split: if_splits)
qed


lemma consistent_goroutines:
  "consistent w \<Longrightarrow> set g \<subseteq> set (nw_goroutines w) \<Longrightarrow> distinct g \<Longrightarrow> consistent (w\<lparr>nw_goroutines := g\<rparr>)"
proof -
  assume a: "consistent w" "set g \<subseteq> set (nw_goroutines w)" "distinct g"
  then obtain s where s: "journal_is s w" "net_inv s w" by (auto simp: consistent_def)
  then have "net_inv s (w\<lparr>nw_goroutines := g\<rparr>)" using a(2,3) by (simp add: net_inv_def subset_iff)
  with s(1) show ?thesis by (auto simp: consistent_def world_fields)
qed

lemma in_hostd_consistent:
  assumes "triple consistent P m (\<lambda>_. consistent)" "P w"
  shows "consistent (in_hostd m w)"
proof -
  obtain r w' where run: "m w = (r, w')" by fastforce
  with tripleD [OF assms run] show ?thesis by (cases r) (auto simp: in_hostd_def intro: consistent_goroutines)
qed

lemma snd_consistent: "triple consistent consistent m (\<lambda>_. consistent) \<Longrightarrow> consistent w \<Longrightarrow> consistent (snd (m w))"
  using tripleD [of consistent consistent m "\<lambda>_. consistent" w "fst (m w)" "snd (m w)"] by (auto split: option.splits)

interpretation net: machine "net_step Revision" consistent for Revision
proof
  fix op w
  assume c: "consistent w"
  show "consistent (net_step Revision op w)"
  proof (cases op)
    case (Op_apply cid)
    show ?thesis
    proof (cases "cid \<in> set (nw_goroutines w)")
      case True
      let ?w = "w\<lparr>nw_goroutines := remove1 cid (nw_goroutines w)\<rparr>"
      obtain s where inv: "net_inv s w" using c by (auto simp: consistent_def)
      have "cid \<noteq> []" using inv True unfolding net_inv_def drawn_before_def by metis
      have "consistent ?w" by (rule consistent_goroutines [OF c]) (use inv in \<open>auto simp: net_inv_def dest: in_set_remove1 [THEN iffD1] notin_set_remove1\<close>)
      then have "before (\<lambda>e t g. cid \<notin> set g \<and> clear_of cid e) ?w" using inv True by (auto simp: before_def net_inv_def clear_of_def)
      then show ?thesis using True by (simp add: Op_apply in_hostd_consistent [OF triple_apply_change [OF \<open>cid \<noteq> []\<close>]])
    qed (use c in \<open>simp add: Op_apply\<close>)
  next
    case (Op_reboot boot)
    obtain s where "journal_is s w" "net_inv s w" using c by (auto simp: consistent_def)
    then have "journal_is s (net_step Revision op w)" "net_inv s (net_step Revision op w)" by (auto simp: Op_reboot net_inv_def journal_is_def)
    then show ?thesis by (auto simp: consistent_def)
  next
    case Op_stop
    then show ?thesis using c by (simp add: consistent_goroutines)
  qed (use c in \<open>simp_all add: snd_consistent triple_Initialize triple_Rollback in_hostd_consistent [where P = consistent]
      triple_Submit triple_Confirm triple_SetService triple_SyncServices triple_MigrateDefault triple_watch\<close>)
qed

section \<open>Properties\<close>

definition new_host :: "net_world \<Rightarrow> bool" where
  "new_host w \<longleftrightarrow> nw_journal w = Missing \<and> nw_effect w = [] \<and> nw_goroutines w = [] \<and> inj (nw_uuid w) \<and> (\<forall>n. nw_uuid w n \<noteq> [])"

text \<open>
  C8. Whatever operations run on a host, in whatever order, and wherever a process dies, a call fails or the
  host reboots: the settings of a submitted change are in effect only when the change has been confirmed, or
  when it is the pending change and the timer that rolls it back has been armed and not cancelled.
\<close>
theorem unconfirmed_settings_are_guarded:
  assumes "new_host w" "(By_change i, k) \<in> set (nw_effect (runs (net_step Revision) ops w))"
  shows "\<exists>s c. nw_journal (runs (net_step Revision) ops w) = Present s \<and> map_of (d_Changes s) i = Some c \<and> k = ch_Candidate c \<and>
    (ch_State c = ''confirmed'' \<or> d_Pending s = i \<and> i \<in> set (nw_timers (runs (net_step Revision) ops w)))"
proof -
  let ?w = "runs (net_step Revision) ops w"
  have "net_inv fresh_journal w" using assms(1) by (simp add: new_host_def net_inv_def fresh_journal_def)
  then have "consistent w" using assms(1) by (auto simp: consistent_def journal_is_def new_host_def)
  then obtain s where s: "journal_is s ?w" "net_inv s ?w" using net.runs_inv by (metis consistent_def)
  then have "guarded_entry s (nw_timers ?w) (By_change i, k)" using assms(2) by (auto simp: net_inv_def)
  then obtain c where c: "map_of (d_Changes s) i = Some c" "k = ch_Candidate c" "ch_State c = ''confirmed'' \<or> d_Pending s = i \<and> i \<in> set (nw_timers ?w)"
    by (auto simp: guarded_entry_def split: option.splits)
  then have "nw_journal ?w = Present s" using s(1) by (auto simp: journal_is_def fresh_journal_def)
  with c show ?thesis by blast
qed


subsection \<open>What a successful startup leaves behind\<close>

text \<open>What \<open>os.ReadFile\<close> and the decoder make of the file when the \<open>n\<close>th call is the read.\<close>

definition file_outcome :: "nat \<Rightarrow> net_world \<Rightarrow> file_read" where
  "file_outcome n w = (case nw_calls w n of Refused e \<Rightarrow> ReadError e | Doubtful e \<Rightarrow> ReadError e
     | _ \<Rightarrow> (case nw_file w of Missing \<Rightarrow> NotExist | Corrupt \<Rightarrow> Content None | Present c \<Rightarrow> Content (Some c)))"

definition settled :: "config \<Rightarrow> disk_state \<Rightarrow> net_world \<Rightarrow> bool" where
  "settled c s w \<longleftrightarrow> (\<exists>s'. nw_journal w = Present s' \<and> d_Confirmed s' = c \<and> d_HasConfirmed s' \<and> d_Pending s' = [] \<and> d_Startup s' = None \<and>
     \<not> d_NeedsConfig s' \<and> d_Changes s' = d_Changes (startup_done c s)) \<and>
     nw_file w = Present c \<and> (\<exists>r. nw_effect w = (By_startup, c) # r)"

lemma outside_None: "outside f g w = (Some None, w') \<Longrightarrow> w' = f (w\<lparr>nw_count := Suc (nw_count w)\<rparr>)"
  by (auto simp: outside_def Let_def split: result.splits)

lemma seq_SomeE: "seq m f w = (Some x, w') \<Longrightarrow> (\<And>y v. m w = (Some y, v) \<Longrightarrow> f y v = (Some x, w') \<Longrightarrow> R) \<Longrightarrow> R"
  by (auto simp: seq_def split: prod.splits option.splits)

lemma guarded_NoneE:
  "guarded m stop k w = (Some None, w') \<Longrightarrow> (\<And>v. m w = (Some None, v) \<Longrightarrow> k v = (Some None, w') \<Longrightarrow> R) \<Longrightarrow> R"
  by (auto simp: guarded_def stop_def ret_def elim!: seq_SomeE split: option.splits)

lemma fetch_NoneE:
  "fetch m stop k w = (Some None, w') \<Longrightarrow> (\<And>x v. m w = (Some (Inr x), v) \<Longrightarrow> k x v = (Some None, w') \<Longrightarrow> R) \<Longrightarrow> R"
  by (auto simp: fetch_def stop_def ret_def elim!: seq_SomeE split: sum.splits)

lemma live_frame: "backend_Live w = (r, w') \<Longrightarrow> nw_effect w' = nw_effect w"
  by (auto simp: backend_Live_def seq_def get_def ret_def outside_def Let_def split: result.splits)

lemma verify_frame: "verify_loop n services w = (r, w') \<Longrightarrow> nw_effect w' = nw_effect w"
proof (induction n arbitrary: w)
  case (Suc n)
  obtain l v where live: "backend_Live w = (l, v)" by fastforce
  show ?case using Suc.prems Suc.IH [of v] live_frame [OF live] live
    by (auto simp: fetch_def seq_def ret_def split: option.splits sum.splits if_splits)
qed (simp add: ret_def)

lemma apply_verified_effect:
  assumes "apply_verified by previous c s w = (Some None, w')"
  shows "\<exists>r. nw_effect w' = (by, c) # r"
proof -
  obtain v where v: "backend_Apply by previous c (d_Services s) w = (Some None, v)"
      "(if ip_Mode (c_IPv4 c) = ''dhcp'' then verifyServices (d_Services s) else ret None) v = (Some None, w')"
    using assms unfolding apply_verified_def stop_def [symmetric] by (elim guarded_NoneE)
  have "nw_effect v = (by, c) # filter (\<lambda>(_, k). stays previous c k) (nw_effect w)"
    using outside_None [OF v(1) [unfolded backend_Apply_def]] by simp
  moreover have "nw_effect w' = nw_effect v"
    using v(2) by (auto simp: verifyServices_def ret_def get_def seq_def simp del: verify_loop.simps dest: verify_frame split: if_splits)
  ultimately show ?thesis by simp
qed

lemma startup_apply_result:
  assumes "startup_apply previous c s w = (Some None, w')"
  shows "settled c s w'"
proof -
  obtain w1 w2 w3 w4 where "apply_verified By_startup previous c s w1 = (Some None, w2)" and saves:
      "save (startup_done c s) w2 = (Some None, w3)" "writeConfig c w3 = (Some None, w4)"
      "save ((startup_done c s)\<lparr>d_NeedsConfig := False\<rparr>) w4 = (Some None, w')"
    using assms unfolding startup_apply_def by (elim guarded_NoneE) blast
  moreover have "nw_effect w' = nw_effect w2" "nw_file w' = Present c" "nw_journal w' = Present ((startup_done c s)\<lparr>d_NeedsConfig := False\<rparr>)"
    using saves by (auto simp: save_def writeConfig_def Let_def dest!: outside_None)
  ultimately show ?thesis using apply_verified_effect [of By_startup previous c s w1 w2]
    by (auto simp: settled_def startup_done_def recovered_def)
qed

lemma settled_frame: "d_Changes s = d_Changes s0 \<Longrightarrow> d_Pending s = d_Pending s0 \<Longrightarrow> settled c s w \<Longrightarrow> settled c s0 w"
proof -
  assume a: "d_Changes s = d_Changes s0" "d_Pending s = d_Pending s0" "settled c s w"
  then have "the_change s = the_change s0" by (simp add: the_change_def fun_eq_iff)
  then have "d_Changes (startup_done c s) = d_Changes (startup_done c s0)" by (simp only: recovered_fields a)
  then show ?thesis using a(3) unfolding settled_def by simp
qed

lemma startup_from_result:
  assumes "startup_from c0 s w = (Some None, w')"
  shows "\<exists>c. Validate (startup_config s c0) = Inr c \<and> settled c s w'"
proof -
  obtain w1 b where "(case Validate (startup_config s c0) of Inl e \<Rightarrow> stop e
       | Inr c \<Rightarrow> fetch backend_Live stop (\<lambda>live.
         let mac = bridge_mac c live ((this_boot b s)\<lparr>d_NeedsConfig := False\<rparr>) in
         if mac = [] then stop ''no eligible Ethernet adapter for LAN bridge''
         else case validateServices c (d_Services ((this_boot b s)\<lparr>d_NeedsConfig := False\<rparr>)) of Some e \<Rightarrow> stop e
         | None \<Rightarrow> startup_apply (startup_previous s) c ((this_boot b s)\<lparr>d_NeedsConfig := False, d_BridgeMAC := mac\<rparr>))) w1 = (Some None, w')"
    using assms unfolding startup_from_def Let_def by (elim guarded_NoneE seq_SomeE) (auto simp: get_def)
  then show ?thesis
    by (auto simp: Let_def stop_def ret_def this_boot_fields elim!: fetch_NoneE split: sum.splits if_splits option.splits
        dest!: startup_apply_result intro: settled_frame [rotated 2])
qed


lemma outside_id: "outside id id w = (Some None, w') \<Longrightarrow> w' = w\<lparr>nw_count := Suc (nw_count w)\<rparr>"
  using outside_None [of id id] by simp

lemma locked_result:
  assumes "locked_journal Some fn w = (Some None, w')"
  shows "\<exists>s. journal_is s w \<and> fn s (w\<lparr>nw_count := nw_count w + 2\<rparr>) = (Some None, w')"
proof -
  obtain w1 w2 where "outside id id w = (Some None, w1)" "outside id id w1 = (Some None, w2)" and run:
      "(case nw_journal w2 of Missing \<Rightarrow> fn fresh_journal | Corrupt \<Rightarrow> ret (Some ''network journal: invalid'') | Present s \<Rightarrow> fn s) w2 = (Some None, w')"
    using assms unfolding locked_journal_def stop_def [symmetric]
    by (elim guarded_NoneE seq_SomeE) (auto simp: get_def stop_def [of x for x])
  then have "w2 = w\<lparr>nw_count := nw_count w + 2\<rparr>" by (auto dest!: outside_id)
  with run show ?thesis by (auto simp: journal_is_def stop_def ret_def split: doc.splits)
qed

lemma read_config_result: "read_config w = (Some r, w') \<Longrightarrow> r = file_outcome (nw_count w) w"
  by (auto simp: read_config_def file_outcome_def seq_def get_def ret_def outside_def Let_def split: result.splits doc.splits)

lemma file_outcome_count: "file_outcome n (w\<lparr>nw_count := m\<rparr>) = file_outcome n w"
  by (simp add: file_outcome_def split: result.splits)

lemma Initialize_result:
  assumes "Initialize w = (Some None, w')"
  shows "\<exists>s c0 c. journal_is s w \<and> from_file s (file_outcome (nw_count w + 2) w) = Inr c0 \<and> Validate (startup_config s c0) = Inr c \<and> settled c s w'"
proof -
  obtain s where s: "journal_is s w" and run: "seq read_config (\<lambda>r. case from_file s r of Inl e \<Rightarrow> stop e
     | Inr c \<Rightarrow> if r = NotExist then guarded backend_ArchiveLegacy stop (startup_from c s) else startup_from c s) (w\<lparr>nw_count := nw_count w + 2\<rparr>) = (Some None, w')"
    using locked_result [OF assms [unfolded Initialize_def]] by blast
  obtain r v where r: "read_config (w\<lparr>nw_count := nw_count w + 2\<rparr>) = (Some r, v)" and
      "(case from_file s r of Inl e \<Rightarrow> stop e
       | Inr c \<Rightarrow> if r = NotExist then guarded backend_ArchiveLegacy stop (startup_from c s) else startup_from c s) v = (Some None, w')"
    using run by (elim seq_SomeE)
  moreover have "r = file_outcome (nw_count w + 2) w" using read_config_result [OF r] file_outcome_count by simp
  ultimately have "\<exists>c0 c. from_file s r = Inr c0 \<and> Validate (startup_config s c0) = Inr c \<and> settled c s w'"
    by (auto simp: stop_def [of x for x] ret_def elim!: guarded_NoneE dest!: startup_from_result split: sum.splits if_splits)
  then show ?thesis using s \<open>r = file_outcome (nw_count w + 2) w\<close> by blast
qed


text \<open>
  C10. A startup that reports success leaves the host settled: nothing is pending, the change that was
  pending is recorded as rolled back, and the file, the journal and the last application of settings agree on
  one valid configuration. That configuration is the confirmed one whenever a change was pending, the file
  had not caught up with the journal, an earlier startup was interrupted, or the file does not decode.
\<close>
theorem startup_settles_the_network:
  assumes "nw_journal w = Present s" "Initialize w = (Some None, w')"
  shows "\<exists>s' c r. nw_journal w' = Present s' \<and> d_Confirmed s' = c \<and> nw_file w' = Present c \<and> nw_effect w' = (By_startup, c) # r \<and>
    d_Pending s' = [] \<and> d_Startup s' = None \<and>
    (d_Pending s \<noteq> [] \<longrightarrow> ch_State (the_change s' (d_Pending s)) = ''rolled_back'') \<and>
    (d_Pending s \<noteq> [] \<or> d_NeedsConfig s \<or> (d_HasConfirmed s \<and> (d_Startup s \<noteq> None \<or> file_outcome (nw_count w + 2) w = Content None)) \<longrightarrow>
       Validate (d_Confirmed s) = Inr c)"
proof -
  obtain c0 c where ff: "from_file s (file_outcome (nw_count w + 2) w) = Inr c0" and v: "Validate (startup_config s c0) = Inr c" and st: "settled c s w'"
    using Initialize_result [OF assms(2)] assms(1) by (auto simp: journal_is_def)
  have same: "Validate (d_Confirmed s) = Inr c"
    if "d_Pending s \<noteq> [] \<or> d_NeedsConfig s \<or> (d_HasConfirmed s \<and> (d_Startup s \<noteq> None \<or> file_outcome (nw_count w + 2) w = Content None))"
    using that ff v by (auto simp: startup_config_def from_file_def split: if_splits)
  obtain s' r where s': "nw_journal w' = Present s'" "d_Confirmed s' = c" "d_Pending s' = []" "d_Startup s' = None" "d_Changes s' = d_Changes (startup_done c s)"
      and "nw_file w' = Present c" "nw_effect w' = (By_startup, c) # r"
    using st by (auto simp: settled_def)
  moreover have "d_Pending s \<noteq> [] \<longrightarrow> ch_State (the_change s' (d_Pending s)) = ''rolled_back''"
    by (simp add: the_change_def s'(5) recovered_fields)
  ultimately show ?thesis using same by blast
qed

text \<open>
  C40. A file that cannot be read is not treated like one that does not decode: a startup that succeeds then
  replaces the confirmed settings by the default ones, which it applies and writes over the file.
\<close>
theorem unreadable_file_resets_the_network:
  assumes "nw_journal w = Present s" "d_HasConfirmed s" "d_Pending s = []" "\<not> d_NeedsConfig s" "d_Startup s = None"
    and "nw_calls w (nw_count w + 2) = Refused e" "Initialize w = (Some None, w')"
  shows "\<exists>s' r. nw_journal w' = Present s' \<and> d_Confirmed s' = DefaultConfig \<and> nw_file w' = Present DefaultConfig \<and>
    nw_effect w' = (By_startup, DefaultConfig) # r"
proof -
  have "Validate DefaultConfig = Inr DefaultConfig" by code_simp
  then show ?thesis using Initialize_result [OF assms(7)] assms(1-6)
    by (auto simp: journal_is_def file_outcome_def from_file_def startup_config_def settled_def)
qed


subsection \<open>Service addresses have one owner\<close>

definition owned_once :: "(string \<times> service) list \<Rightarrow> bool" where
  "owned_once m \<longleftrightarrow> distinct (map fst m) \<and> (\<forall>x\<in>set m. svc_Address (snd x) \<noteq> None) \<and>
     (\<forall>x\<in>set m. \<forall>y\<in>set m. svc_Address (snd x) = svc_Address (snd y) \<longrightarrow> fst x = fst y)"

definition orderly :: "net_world \<Rightarrow> bool" where
  "orderly w = (case nw_journal w of Present s \<Rightarrow> owned_once (d_Services s) | _ \<Rightarrow> True)"

lemma orderly_fields [simp]:
  "orderly (w\<lparr>nw_count := n\<rparr>) = orderly w" "orderly (w\<lparr>nw_file := f\<rparr>) = orderly w" "orderly (w\<lparr>nw_effect := x\<rparr>) = orderly w"
  "orderly (w\<lparr>nw_aliases := a\<rparr>) = orderly w" "orderly (w\<lparr>nw_timers := t\<rparr>) = orderly w" "orderly (w\<lparr>nw_goroutines := g\<rparr>) = orderly w"
  "orderly (w\<lparr>nw_drawn := d\<rparr>) = orderly w" "orderly (w\<lparr>nw_boot := b\<rparr>) = orderly w"
  "orderly (w\<lparr>nw_journal := Present s\<rparr>) = owned_once (d_Services s)"
  by (simp_all add: orderly_def)

lemma keeps_outside: "(\<And>w. orderly w \<Longrightarrow> orderly (f w) \<and> orderly (g w)) \<Longrightarrow> keeps orderly (outside f g)"
  by (simp add: keeps_def outside_def Let_def split: result.splits)

lemma keeps_fetch: "keeps P m \<Longrightarrow> (\<And>e. keeps P (bad e)) \<Longrightarrow> (\<And>x. keeps P (k x)) \<Longrightarrow> keeps P (fetch m bad k)"
  unfolding fetch_def by (rule keeps_seq) (auto split: sum.splits)

lemma keeps_save: "owned_once (d_Services s) \<Longrightarrow> keeps orderly (save s)"
  unfolding save_def Let_def by (rule keeps_outside) simp

lemma keeps_calls [simp]:
  "keeps orderly (outside id id)" "keeps orderly (writeConfig c)" "keeps orderly (backend_Apply by p c m)" "keeps orderly (backend_Arm i)"
  "keeps orderly (backend_Cancel i)" "keeps orderly (backend_Service v b)" "keeps orderly backend_ArchiveLegacy" "keeps orderly net_Now"
  "keeps orderly (stop e)" "keeps orderly draw_uuid" "keeps orderly (spawn_apply i)"
  by (simp_all add: writeConfig_def backend_Apply_def backend_Arm_def backend_Cancel_def backend_Service_def backend_ArchiveLegacy_def net_Now_def
      stop_def keeps_outside keeps_get keeps_ret Let_def)
    (simp_all add: keeps_def draw_uuid_def spawn_apply_def modify_def)

lemma keeps_reads [simp]: "keeps orderly backend_Live" "keeps orderly read_config" "keeps orderly read_journal"
  unfolding backend_Live_def read_config_def read_journal_def by (auto intro!: keeps_seq)

lemma keeps_locked:
  assumes "\<And>s. owned_once (d_Services s) \<Longrightarrow> keeps orderly (fn s)"
  shows "keeps orderly (locked_journal err fn)"
proof -
  have "keeps orderly (seq (get nw_journal) (\<lambda>j. case j of Missing \<Rightarrow> fn fresh_journal
        | Corrupt \<Rightarrow> ret (err ''network journal: invalid'') | Present s \<Rightarrow> fn s))"
    unfolding keeps_def
  proof (intro allI impI)
    fix w
    assume o: "orderly w"
    have "owned_once (d_Services fresh_journal)" by (simp add: fresh_journal_def owned_once_def)
    with o assms show "orderly (snd (seq (get nw_journal) (\<lambda>j. case j of Missing \<Rightarrow> fn fresh_journal
        | Corrupt \<Rightarrow> ret (err ''network journal: invalid'') | Present s \<Rightarrow> fn s) w))"
      by (cases "nw_journal w") (simp_all add: seq_def get_def ret_def keeps_def orderly_def [of w])
  qed
  then show ?thesis unfolding locked_journal_def by (auto intro!: keeps_guarded)
qed

lemma keeps_verify: "keeps orderly (verifyServices v)"
proof -
  have "keeps orderly (verify_loop n v)" for n by (induction n) (auto intro!: keeps_fetch)
  then show ?thesis by (auto simp: verifyServices_def simp del: verify_loop.simps intro!: keeps_seq)
qed

lemma keeps_apply_verified [simp]: "keeps orderly (apply_verified by p c s)"
  unfolding apply_verified_def by (auto intro!: keeps_guarded keeps_verify)

lemma services_put [simp]: "d_Services (put_change cid c s) = d_Services s" "d_Services (startup_done f s) = d_Services s"
  by (simp_all add: put_change_def startup_done_def recovered_def)

lemma keeps_restore: "owned_once (d_Services s) \<Longrightarrow> keeps orderly (restore s cid reason)"
  unfolding restore_def Let_def by (auto intro!: keeps_guarded keeps_ignoring keeps_save)

lemma owned_nil [simp]: "owned_once []"
  by (simp add: owned_once_def)

lemma owned_this_boot: "owned_once (d_Services s) \<Longrightarrow> owned_once (d_Services (this_boot b s))"
  by (simp add: this_boot_def)

lemma keeps_Initialize: "keeps orderly Initialize"
proof -
  have app: "keeps orderly (startup_apply p c s)" if "owned_once (d_Services s)" for p c s
    unfolding startup_apply_def using that by (auto intro!: keeps_guarded keeps_save)
  have "keeps orderly (startup_from c s)" if "owned_once (d_Services s)" for c s
    unfolding startup_from_def Let_def using that
    by (auto intro!: keeps_guarded keeps_seq keeps_fetch app split: sum.splits option.splits simp: owned_this_boot)
  then show ?thesis unfolding Initialize_def by (auto intro!: keeps_locked keeps_seq keeps_guarded split: sum.splits)
qed

lemma keeps_Submit: "keeps orderly (Submit Revision p)"
proof -
  have "keeps orderly (begin_change c p h s)" if "owned_once (d_Services s)" for c h s
    unfolding begin_change_def Let_def using that by (auto intro!: keeps_seq keeps_guarded keeps_save)
  then show ?thesis unfolding Submit_def submit_locked_def Let_def
    by (auto intro!: keeps_locked keeps_fetch split: sum.splits option.splits)
qed

lemma keeps_apply_change: "keeps orderly (apply_change cid)"
proof -
  have "keeps orderly (armed_apply cid c s)" if "owned_once (d_Services s)" for c s
    unfolding armed_apply_def using that by (auto intro!: keeps_guarded keeps_seq keeps_restore keeps_save)
  then have "keeps orderly (apply_pending cid s now)" if "owned_once (d_Services s)" for s now
    unfolding apply_pending_def Let_def using that by (auto intro!: keeps_guarded keeps_save)
  then show ?thesis unfolding apply_change_def by (auto intro!: keeps_locked keeps_seq)
qed

lemma keeps_Get: "keeps orderly (Get cid)"
  unfolding Get_def by (auto intro!: keeps_fetch)

lemma keeps_Confirm: "keeps orderly (Confirm cid)"
proof -
  have "keeps orderly (confirm_locked cid s)" if "owned_once (d_Services s)" for s
    unfolding confirm_locked_def using that
    by (auto intro!: keeps_seq keeps_guarded keeps_ignoring keeps_save keeps_restore split: option.splits simp: confirmed_state_def)
  then show ?thesis unfolding Confirm_def by (auto intro!: keeps_guarded keeps_locked keeps_Get)
qed

lemma keeps_Rollback: "keeps orderly (Rollback cid x)"
  unfolding Rollback_def rollback_locked_def
  by (auto intro!: keeps_guarded keeps_locked keeps_Get keeps_seq keeps_restore split: option.splits)

lemma keeps_MigrateDefault: "keeps orderly (MigrateDefault p)"
  unfolding MigrateDefault_def Let_def by (auto intro!: keeps_locked keeps_guarded keeps_save)

lemma keeps_watch: "keeps orderly watch_reconcile"
  unfolding watch_reconcile_def by (auto intro!: keeps_locked)


lemma owned_delete: "owned_once m \<Longrightarrow> owned_once (AList.delete i m)"
  unfolding owned_once_def by (auto simp: AList.delete_eq distinct_map_filter)

text \<open>Entry \<open>i\<close> may be set to an address that no other entry has.\<close>

lemma owned_update:
  assumes "owned_once m" "svc_Address v \<noteq> None" "\<And>j u. (j, u) \<in> set m \<Longrightarrow> j \<noteq> i \<Longrightarrow> svc_Address u \<noteq> svc_Address v"
  shows "owned_once (AList.update i v m)"
proof -
  have mem: "(j, u) \<in> set (AList.update i v m) \<Longrightarrow> j = i \<and> u = v \<or> j \<noteq> i \<and> (j, u) \<in> set m" for j u
    using map_of_eq_Some_iff [of "AList.update i v m" j u] map_of_eq_Some_iff [of m j u] assms(1)
    by (auto simp: owned_once_def distinct_update split: if_splits)
  show ?thesis unfolding owned_once_def
  proof (intro conjI ballI impI)
    show "distinct (map fst (AList.update i v m))" using assms(1) by (simp add: owned_once_def distinct_update)
    show "svc_Address (snd x) \<noteq> None" if "x \<in> set (AList.update i v m)" for x
      using mem [of "fst x" "snd x"] that assms(1,2) by (cases x) (auto simp: owned_once_def)
    show "fst x = fst y" if "x \<in> set (AList.update i v m)" "y \<in> set (AList.update i v m)" "svc_Address (snd x) = svc_Address (snd y)" for x y
    proof -
      have x: "fst x = i \<and> snd x = v \<or> fst x \<noteq> i \<and> x \<in> set m" and y: "fst y = i \<and> snd y = v \<or> fst y \<noteq> i \<and> y \<in> set m"
        using mem [of "fst x" "snd x"] mem [of "fst y" "snd y"] that(1,2) by simp_all
      have "\<not> (fst x \<noteq> i \<and> x \<in> set m \<and> fst y = i \<and> snd y = v)" "\<not> (fst y \<noteq> i \<and> y \<in> set m \<and> fst x = i \<and> snd x = v)"
        using assms(3) [of "fst x" "snd x"] assms(3) [of "fst y" "snd y"] that(3) by auto
      moreover have "x \<in> set m \<Longrightarrow> y \<in> set m \<Longrightarrow> fst x = fst y" using assms(1) that(3) unfolding owned_once_def by blast
      ultimately show ?thesis using x y by auto
    qed
  qed
qed

lemma parseService_address: "parseService v = Inr p \<Longrightarrow> svc_Address v \<noteq> None"
  by (auto simp: parseService_def split: option.splits)

lemma keeps_SetService: "keeps orderly (SetService v add)"
proof -
  have add: "keeps orderly (add_service v s)" if o: "owned_once (d_Services s)" and v: "svc_Address v \<noteq> None" for s
  proof -
    have "keeps orderly (save (s\<lparr>d_Services := AList.update (svc_StackID v) v (d_Services s)\<rparr>))"
      if "\<not> list_ex (\<lambda>(i, u). i \<noteq> svc_StackID v \<and> svc_Address u = svc_Address v) (d_Services s)"
      using that by (intro keeps_save) (auto simp: list_ex_iff intro!: owned_update [OF o v])
    then show ?thesis unfolding add_service_def
      by (intro keeps_fetch) (auto split: option.splits intro!: keeps_guarded)
  qed
  have "keeps orderly (remove_service v s)" if "owned_once (d_Services s)" for s
    unfolding remove_service_def using that by (auto intro!: keeps_guarded keeps_save owned_delete split: option.splits)
  then show ?thesis unfolding SetService_def
    by (auto intro!: keeps_locked add split: sum.splits simp: parseService_address [unfolded not_None_eq])
qed


lemma update_new: "i \<notin> fst ` set m \<Longrightarrow> AList.update i v m = m @ [(i, v)]"
  by (induction m) auto

lemma set_update: "set (AList.update i v m) \<subseteq> insert (i, v) (set m)"
  by (induction m) auto

lemma wanted_loop_owned: "owned_once wanted \<Longrightarrow> wanted_loop primary wanted services = Inr m \<Longrightarrow> owned_once m"
proof (induction primary wanted services rule: wanted_loop.induct)
  case (2 primary wanted v rest)
  obtain p where p: "parseService v = Inr p" using 2(3) by (auto split: sum.splits)
  then have new: "\<not> list_ex (\<lambda>(i, u). i = svc_StackID v \<or> svc_Address u = svc_Address v) wanted" "Compatible (svc_Address v) primary"
      "wanted_loop primary (wanted @ [(svc_StackID v, v)]) rest = Inr m"
    using 2(3) by (auto split: if_splits)
  have "owned_once (wanted @ [(svc_StackID v, v)])"
  proof -
    have "svc_StackID v \<notin> fst ` set wanted" using new(1) by (auto simp: list_ex_iff)
    moreover have "owned_once (AList.update (svc_StackID v) v wanted)"
      by (rule owned_update [OF 2(2) parseService_address [OF p]]) (use new(1) in \<open>auto simp: list_ex_iff\<close>)
    ultimately show ?thesis by (simp add: update_new)
  qed
  then show ?case using 2(1) [OF p new(1)] new by simp
qed simp

lemma keeps_ensures: "keeps I m \<Longrightarrow> ensures I m (\<lambda>_. True)"
  by (auto simp: ensures_def triple_def keeps_def wp_def split: prod.splits option.splits)

lemma ensures_keeps: "ensures I m R \<Longrightarrow> keeps I m"
  by (auto simp: keeps_def intro: ensures_inv)

lemma sync_remove_owned:
  "owned_once (d_Services s) \<Longrightarrow> ensures orderly (sync_remove wanted l s) (\<lambda>r. \<forall>s'. r = Inr s' \<longrightarrow> owned_once (d_Services s') \<and>
     set (d_Services s') \<subseteq> set (d_Services s) \<and> (\<forall>x\<in>set l. x \<in> set (d_Services s') \<longrightarrow> service_at wanted (fst x) = snd x))"
proof (induction wanted l s rule: sync_remove.induct)
  case (1 wanted s)
  then show ?case by (simp add: ensures_ret)
next
  case (2 wanted i v rest s)
  show ?case
  proof (cases "service_at wanted i \<noteq> v")
    case True
    let ?s = "s\<lparr>d_Services := AList.delete i (d_Services s)\<rparr>"
    have o: "owned_once (d_Services ?s)" using 2(3) by (simp add: owned_delete)
    have sub: "set (d_Services ?s) \<subseteq> set (d_Services s)" "\<And>u. (i, u) \<notin> set (d_Services ?s)" by (auto simp: AList.delete_eq)
    show ?thesis unfolding sync_remove.simps Let_def if_P [OF True]
      by (rule ensures_guarded [OF keeps_ensures], simp, rule ensures_ret, simp, rule ensures_guarded [OF keeps_ensures [OF keeps_save [OF o]]], rule ensures_ret, simp)
        (rule ensures_weaken [OF 2(1) [OF True refl o]], use sub in fastforce)
  next
    case False
    then show ?thesis by (simp, intro ensures_weaken [OF 2(2) [OF _ 2(3)]]) auto
  qed
qed

lemma sync_add_owned:
  "owned_once wanted \<Longrightarrow> set l \<subseteq> set wanted \<Longrightarrow> owned_once (d_Services s) \<Longrightarrow> set (d_Services s) \<subseteq> set wanted \<Longrightarrow> keeps orderly (sync_add addresses l s)"
proof (induction addresses l s rule: sync_add.induct)
  case (2 addresses i v rest s)
  show ?case
  proof (cases "service_at (d_Services s) i = v \<and> svc_Address v \<in> set addresses")
    case True
    then show ?thesis using 2 by simp
  next
    case False
    let ?s = "s\<lparr>d_Services := AList.update i v (d_Services s)\<rparr>"
    have w: "(i, v) \<in> set wanted" using 2(4) by simp
    have o: "owned_once (AList.update i v (d_Services s))"
    proof (rule owned_update [OF 2(5)])
      show "svc_Address v \<noteq> None" using 2(3) w by (auto simp: owned_once_def)
      show "svc_Address u \<noteq> svc_Address v" if "(j, u) \<in> set (d_Services s)" "j \<noteq> i" for j u
        using 2(3) w that 2(6) unfolding owned_once_def by (metis fst_conv snd_conv subsetD)
    qed
    have sub: "set (AList.update i v (d_Services s)) \<subseteq> set wanted"
      using w 2(6) set_update [of i v "d_Services s"] by auto
    have "keeps orderly (sync_add addresses rest ?s)" by (rule 2(2) [OF False refl 2(3)]) (use 2(4) o sub in simp_all)
    then show ?thesis unfolding sync_add.simps Let_def if_not_P [OF False] using o by (auto intro!: keeps_guarded keeps_save)
  qed
qed auto


lemma keeps_SyncServices: "keeps orderly (SyncServices services)"
proof -
  have sync: "keeps orderly (fetch (sync_remove wanted (d_Services s) s) stop (sync_add addresses wanted))"
    if o: "owned_once (d_Services s)" and w: "owned_once wanted" for s wanted addresses
  proof (rule ensures_keeps, rule ensures_fetch [OF sync_remove_owned [OF o]])
    fix s' :: disk_state
    assume r: "\<forall>t. Inr s' = Inr t \<longrightarrow> owned_once (d_Services t) \<and> set (d_Services t) \<subseteq> set (d_Services s) \<and>
        (\<forall>x\<in>set (d_Services s). x \<in> set (d_Services t) \<longrightarrow> service_at wanted (fst x) = snd x)"
    have "x \<in> set wanted" if "x \<in> set (d_Services s')" for x
    proof -
      have "owned_once (d_Services s')" "service_at wanted (fst x) = snd x" using r that by blast+
      moreover from this(1) have "svc_Address (snd x) \<noteq> None" using that unfolding owned_once_def by blast
      ultimately have "service_at wanted (fst x) = snd x" "svc_Address (snd x) \<noteq> None" by blast+
      then have "map_of wanted (fst x) = Some (snd x)" by (auto simp: service_at_def zero_service_def split: option.splits)
      then show ?thesis by (metis map_of_SomeD prod.collapse)
    qed
    with r w show "ensures orderly (sync_add addresses wanted s') (\<lambda>_. True)" by (intro keeps_ensures sync_add_owned) auto
  qed (simp add: stop_def ensures_ret)
  show ?thesis unfolding SyncServices_def
    by (auto intro!: keeps_locked keeps_fetch [of _ backend_Live] sync wanted_loop_owned [OF owned_nil] split: sum.splits option.splits)
qed

lemma keeps_snd: "keeps orderly m \<Longrightarrow> orderly w \<Longrightarrow> orderly (snd (m w))"
  by (simp add: keeps_def)

lemma keeps_in_hostd: "keeps orderly m \<Longrightarrow> orderly w \<Longrightarrow> orderly (in_hostd m w)"
  using keeps_snd [of m w] by (auto simp: in_hostd_def split: prod.splits option.splits)

interpretation owners: machine "net_step Revision" orderly for Revision
proof
  fix op w
  assume "orderly w"
  then show "orderly (net_step Revision op w)"
    by (cases op) (simp_all add: keeps_snd keeps_in_hostd keeps_Initialize keeps_Submit keeps_apply_change keeps_Confirm keeps_Rollback
        keeps_SetService keeps_SyncServices keeps_MigrateDefault keeps_watch)
qed

text \<open>
  C20. No service address has two owners: in the journal of a host, at every moment of any sequence of
  operations, crashes and reboots, two stacks never hold the same address.
\<close>
theorem service_addresses_have_one_owner:
  assumes "nw_journal w = Missing" "nw_journal (runs (net_step Revision) ops w) = Present s"
    and "map_of (d_Services s) i = Some v" "map_of (d_Services s) j = Some u" "svc_Address v = svc_Address u"
  shows "i = j"
proof -
  have "orderly w" using assms(1) by (simp add: orderly_def)
  then have "orderly (runs (net_step Revision) ops w)" by (rule owners.runs_inv)
  then have "owned_once (d_Services s)" using assms(2) by (simp add: orderly_def)
  then show ?thesis using assms(3-5) unfolding owned_once_def by (metis map_of_SomeD fst_conv snd_conv)
qed

section \<open>A concrete host\<close>

definition demo_host :: net_world where
  "demo_host = \<lparr>nw_journal = Missing, nw_file = Missing, nw_effect = [], nw_aliases = [], nw_timers = [], nw_goroutines = [], nw_boot = ''b'',
     nw_drawn = 0, nw_count = 0, nw_calls = (\<lambda>_. Done), nw_torn = (\<lambda>_. False), nw_clock = (\<lambda>_. 0),
     nw_live = (\<lambda>_. \<lparr>lv_Adapters = [\<lparr>ad_Name = ''eth0'', ad_PermanentMAC = ''02:00:00:00:00:01'', ad_Eligible = True\<rparr>],
       lv_Addresses = [Some \<lparr>pfx_Addr = V4 0x0A000002, pfx_Bits = 24\<rparr>]\<rparr>),
     nw_uuid = (\<lambda>n. replicate (Suc n) CHR ''u''), nw_polls = 1\<rparr>"

definition demo_candidate :: config where
  "demo_candidate = DefaultConfig\<lparr>c_DNSServers := []\<rparr>"

definition demo_request :: apply_payload where
  "demo_request = \<lparr>ap_Revision = ''r'', ap_Config = demo_candidate, ap_Key = ''k'', ap_Actor = ''admin''\<rparr>"

definition demo_service :: "string \<Rightarrow> service" where
  "demo_service i = \<lparr>svc_StackID = i, svc_Address = Some \<lparr>pfx_Addr = V4 0x0A000005, pfx_Bits = 24\<rparr>, svc_PoolID = ''p''\<rparr>"

definition demo_applied :: net_world where
  "demo_applied = runs (net_step (\<lambda>_. ''r'')) [Op_init, Op_submit demo_request, Op_apply ''u''] demo_host"

definition demo_rebooted :: net_world where
  "demo_rebooted = net_step (\<lambda>_. ''r'') (Op_reboot ''c'') demo_applied"

definition demo_confirmed :: net_world where
  "demo_confirmed = (net_step (\<lambda>_. ''r'') (Op_confirm ''u'') demo_applied)
     \<lparr>nw_count := 0, nw_calls := (\<lambda>n. if n = 2 then Refused ''input/output error'' else Done)\<rparr>"

lemma demo_new_host: "new_host demo_host"
  by (auto simp: new_host_def demo_host_def intro!: injI dest: arg_cong [of _ _ length])

lemma demo_effect: "nw_effect demo_applied = [(By_change ''u'', demo_candidate)]"
  by code_simp

theorem unconfirmed_settings_are_guarded_witness:
  "\<exists>s c. nw_journal demo_applied = Present s \<and> map_of (d_Changes s) ''u'' = Some c \<and> demo_candidate = ch_Candidate c \<and>
    (ch_State c = ''confirmed'' \<or> d_Pending s = ''u'' \<and> ''u'' \<in> set (nw_timers demo_applied))"
  unfolding demo_applied_def
  by (rule unconfirmed_settings_are_guarded [OF demo_new_host]) (use demo_effect in \<open>simp add: demo_applied_def\<close>)

lemma demo_pending: "case nw_journal demo_rebooted of Present s \<Rightarrow> d_Pending s = ''u'' | _ \<Rightarrow> False"
  by code_simp

lemma demo_startup: "fst (Initialize demo_rebooted) = Some None"
  by code_simp

theorem startup_settles_the_network_witness:
  "\<exists>s' c r. nw_journal (snd (Initialize demo_rebooted)) = Present s' \<and> d_Confirmed s' = c \<and> nw_file (snd (Initialize demo_rebooted)) = Present c \<and>
    nw_effect (snd (Initialize demo_rebooted)) = (By_startup, c) # r \<and> ch_State (the_change s' ''u'') = ''rolled_back''"
proof -
  obtain s where s: "nw_journal demo_rebooted = Present s" "d_Pending s = ''u''"
    using demo_pending by (cases "nw_journal demo_rebooted") auto
  have "Initialize demo_rebooted = (Some None, snd (Initialize demo_rebooted))" using demo_startup by (simp add: prod_eq_iff)
  from startup_settles_the_network [OF s(1) this] s(2) show ?thesis by auto
qed

lemma demo_unreadable: "fst (Initialize demo_confirmed) = Some None"
  by code_simp

lemma demo_committed: "case nw_journal demo_confirmed of Present s \<Rightarrow> d_HasConfirmed s \<and> d_Pending s = [] \<and> \<not> d_NeedsConfig s \<and> d_Startup s = None \<and>
    d_Confirmed s = demo_candidate | _ \<Rightarrow> False"
  by code_simp

theorem unreadable_file_resets_the_network_witness:
  "\<exists>s s'. nw_journal demo_confirmed = Present s \<and> d_Confirmed s = demo_candidate \<and>
    nw_journal (snd (Initialize demo_confirmed)) = Present s' \<and> d_Confirmed s' = DefaultConfig"
proof -
  obtain s where s: "nw_journal demo_confirmed = Present s" "d_HasConfirmed s" "d_Pending s = []" "\<not> d_NeedsConfig s" "d_Startup s = None"
      "d_Confirmed s = demo_candidate"
    using demo_committed by (cases "nw_journal demo_confirmed") auto
  have "nw_calls demo_confirmed (nw_count demo_confirmed + 2) = Refused ''input/output error''" by (simp add: demo_confirmed_def)
  moreover have "Initialize demo_confirmed = (Some None, snd (Initialize demo_confirmed))" using demo_unreadable by (simp add: prod_eq_iff)
  ultimately show ?thesis using unreadable_file_resets_the_network [OF s(1-5)] s by blast
qed

lemma demo_owner: "case nw_journal (runs (net_step (\<lambda>_. ''r'')) [Op_init, Op_service (demo_service ''a'') True, Op_service (demo_service ''b'') True] demo_host) of
    Present s \<Rightarrow> map_of (d_Services s) ''a'' = Some (demo_service ''a'') | _ \<Rightarrow> False"
  by code_simp

theorem service_addresses_have_one_owner_witness:
  "\<exists>s. nw_journal (runs (net_step (\<lambda>_. ''r'')) [Op_init, Op_service (demo_service ''a'') True, Op_service (demo_service ''b'') True] demo_host) = Present s \<and>
    map_of (d_Services s) ''a'' = Some (demo_service ''a'') \<and> map_of (d_Services s) ''b'' \<noteq> Some (demo_service ''b'')"
proof -
  let ?w = "runs (net_step (\<lambda>_. ''r'')) [Op_init, Op_service (demo_service ''a'') True, Op_service (demo_service ''b'') True] demo_host"
  obtain s where s: "nw_journal ?w = Present s" "map_of (d_Services s) ''a'' = Some (demo_service ''a'')"
    using demo_owner by (cases "nw_journal ?w") auto
  have "nw_journal demo_host = Missing" by (simp add: demo_host_def)
  from service_addresses_have_one_owner [OF this s, of "''b''" "demo_service ''b''"] s show ?thesis by (auto simp: demo_service_def)
qed


section \<open>Two gaps\<close>

text \<open>
  A rollback does not record that it has begun. When it dies while it applies the previous settings, the
  change still awaits confirmation, and confirming it leaves the host between the two configurations with
  nothing pending.
\<close>

lemma interrupted_rollback_can_be_confirmed:
  "let w = runs (net_step (\<lambda>_. ''r'')) [Op_rollback ''u'' False, Op_confirm ''u'']
       (demo_applied\<lparr>nw_count := 0, nw_calls := (\<lambda>n. if n = 2 then Crash else Done), nw_torn := (\<lambda>_. True)\<rparr>) in
   nw_effect w = [(By_rollback ''u'', DefaultConfig), (By_change ''u'', demo_candidate)] \<and>
   (case nw_journal w of Present s \<Rightarrow> d_Pending s = [] \<and> d_Confirmed s = demo_candidate | _ \<Rightarrow> False)"
  by code_simp

text \<open>
  A startup records what it is about to apply over the record of what an earlier one may have left. After two
  failures the third startup succeeds without removing the static address of the first.
\<close>

definition demo_static :: config where
  "demo_static = DefaultConfig\<lparr>c_IPv4 := \<lparr>ip_Mode = ''static'', ip_Address = Parsed (V4 0x0A000009), ip_Netmask = Parsed 0xFFFFFF00,
     ip_Gateway = Parsed (V4 0x0A000001)\<rparr>\<rparr>"

definition demo_edited :: net_world where
  "demo_edited = (net_step (\<lambda>_. ''r'') Op_init demo_host)\<lparr>nw_file := Present demo_static, nw_count := 0,
     nw_calls := (\<lambda>n. if n = 6 then Doubtful ''netlink'' else if n = 13 then Refused ''netlink'' else Done)\<rparr>"

lemma twice_failed_startup_leaves_an_address:
  "fst (Initialize (snd (Initialize (snd (Initialize demo_edited))))) = Some None \<and>
   nw_effect (snd (Initialize (snd (Initialize (snd (Initialize demo_edited)))))) = [(By_startup, DefaultConfig), (By_startup, demo_static)]"
  by code_simp

end
