(* ===== verification/Alert_Evaluator.thy ===== *)
theory Alert_Evaluator
  imports Prelude
begin

unbundle bit_operations_syntax

text \<open>
  The decisions of the alert evaluator (\<open>pkg/alerts/evaluate.go\<close> and \<open>observe\<close> of \<open>evaluator.go\<close>): what the metrics say of
  each instance of a rule, and how one observation moves the state of an instance. \<open>Alert_Incidents\<close> has the store.

  Times are nanoseconds since the zero time, so \<open>IsZero\<close> is \<open>= 0\<close>; durations are nanoseconds. A \<open>float64\<close> is its
  64 bits. (\<open>Sub\<close> saturates after 292 years, which is longer than every duration it is compared with.) The two SHA-256 digests (of the rule and of the labels) are arguments.
\<close>

section \<open>Rules and observations\<close>

type_synonym labels = "string \<rightharpoonup> string"

record rule =
  r_ID :: string
  r_Name :: string
  r_Condition :: string
  r_RecoveryCondition :: string
  r_FreshnessQuery :: string
  r_Severity :: string
  r_StackID :: string
  r_NodeID :: string
  r_Message :: string
  r_For :: int
  r_RecoveryFor :: int
  r_MaxAge :: int
  r_Enabled :: bool
  r_Compose :: bool

definition Interval :: int where "Interval = 30 * 1000000000"

definition rule_Validate :: "rule \<Rightarrow> error" where
  "rule_Validate r =
     (if r_ID r = [] \<or> r_Name r = [] \<or> r_Condition r = [] then Some ''rule id, name and condition are required''
      else if r_RecoveryCondition r = [] \<or> r_FreshnessQuery r = [] then Some ''recovery_condition and freshness_query are required for persistent rules''
      else if r_Severity r \<notin> {''info'', ''warning'', ''critical''} then Some ''invalid rule severity''
      else if r_For r < 0 \<or> r_RecoveryFor r < 0 \<or> r_MaxAge r \<le> 0 then Some ''invalid rule duration''
      else None)"

record observation =
  ob_Labels :: labels
  ob_Value :: "64 word"
  ob_At :: int
  ob_Firing :: bool
  ob_Recovered :: bool

text \<open>\<open>math.IsNaN\<close> or \<open>math.IsInf\<close>: an exponent of ones.\<close>

definition not_finite :: "64 word \<Rightarrow> bool" where
  "not_finite v \<longleftrightarrow> drop_bit 52 v AND 0x7FF = 0x7FF"

text \<open>A nil map of labels is \<open>None\<close>: its JSON, hence its fingerprint, is not that of an empty map.\<close>

type_synonym fingerprinter = "string \<Rightarrow> labels option \<Rightarrow> string"

definition instanceID :: "fingerprinter \<Rightarrow> rule \<Rightarrow> labels option \<Rightarrow> string" where
  "instanceID fingerprint rule labels =
     (if r_Compose rule then fingerprint (r_ID rule) (Some ((case labels of None \<Rightarrow> Map.empty | Some ls \<Rightarrow> ls)(''node_id'' := None)))
      else fingerprint (r_ID rule) labels)"

subsection \<open>Reading the metrics\<close>

record sample =
  sm_Labels :: labels
  sm_Value :: "64 word"
  sm_ObservedAt :: int

definition label :: "labels \<Rightarrow> string \<Rightarrow> string" where
  "label ls k = (case ls k of None \<Rightarrow> [] | Some v \<Rightarrow> v)"

definition sample_labels :: "sample \<Rightarrow> labels" where
  "sample_labels s = (sm_Labels s)(''__name__'' := None)"

definition scoped :: "rule \<Rightarrow> labels \<Rightarrow> bool" where
  "scoped rule ls \<longleftrightarrow> (r_StackID rule = [] \<or> label ls ''stack_id'' = r_StackID rule) \<and> (r_NodeID rule = [] \<or> label ls ''node_id'' = r_NodeID rule)"

text \<open>Two samples of one instance contradict each other: both flags are set, which counts as unknown.\<close>

fun observe_samples :: "fingerprinter \<Rightarrow> rule \<Rightarrow> bool \<Rightarrow> sample list \<Rightarrow> (string \<times> observation) list \<Rightarrow> (string \<times> observation) list" where
  "observe_samples fp rule firing [] obs = obs"
| "observe_samples fp rule firing (s # ss) obs =
     (let ls = sample_labels s; i = instanceID fp rule (Some ls) in
      if \<not> scoped rule ls then observe_samples fp rule firing ss obs
      else case map_of obs i of
        Some old \<Rightarrow> observe_samples fp rule firing ss (AList.update i (old\<lparr>ob_Firing := True, ob_Recovered := True\<rparr>) obs)
      | None \<Rightarrow> observe_samples fp rule firing ss
          (AList.update i \<lparr>ob_Labels = ls, ob_Value = sm_Value s, ob_At = sm_ObservedAt s, ob_Firing = firing, ob_Recovered = \<not> firing\<rparr> obs))"

definition observe_query :: "(string \<Rightarrow> string + sample list) \<Rightarrow> fingerprinter \<Rightarrow> rule \<Rightarrow> string \<Rightarrow> bool \<Rightarrow>
    (string \<times> observation) list \<Rightarrow> string + (string \<times> observation) list" where
  "observe_query query fp rule q firing obs = (if q = [] then Inr obs else case query q of Inl e \<Rightarrow> Inl e
     | Inr ss \<Rightarrow> Inr (observe_samples fp rule firing ss obs))"

text \<open>The later of two freshness samples of an instance wins; \<open>stamp\<close> turns a sample's seconds into a time.\<close>

definition freshness :: "fingerprinter \<Rightarrow> rule \<Rightarrow> (64 word \<Rightarrow> int) \<Rightarrow> sample list \<Rightarrow> string \<Rightarrow> int" where
  "freshness fp rule stamp ss i = (case map_of (rev (map (\<lambda>s. (instanceID fp rule (Some (sample_labels s)), stamp (sm_Value s))) ss)) i of
     None \<Rightarrow> 0 | Some t \<Rightarrow> t)"

definition observe :: "(string \<Rightarrow> string + sample list) \<Rightarrow> fingerprinter \<Rightarrow> (64 word \<Rightarrow> int) \<Rightarrow> rule \<Rightarrow>
    string + (string \<times> observation) list" where
  "observe query fp stamp rule = (case observe_query query fp rule (r_Condition rule) True [] of Inl e \<Rightarrow> Inl e
     | Inr o1 \<Rightarrow> (case observe_query query fp rule (r_RecoveryCondition rule) False o1 of Inl e \<Rightarrow> Inl e
       | Inr o2 \<Rightarrow> if r_FreshnessQuery rule = [] then Inr o2 else (case query (r_FreshnessQuery rule) of Inl e \<Rightarrow> Inl e
         | Inr ss \<Rightarrow> Inr (map (\<lambda>(i, ob). (i, ob\<lparr>ob_At := freshness fp rule stamp ss i\<rparr>)) o2))))"

section \<open>The state of an instance\<close>

record eval_state =
  e_RuleHash :: string
  e_Labels :: "labels option"
  e_Status :: string
  e_Error :: string
  e_PendingSince :: int
  e_RecoverySince :: int
  e_LastObserved :: int
  e_LastEvaluated :: int
  e_AlertID :: string
  e_Severity :: string
  e_Value :: "64 word option"

definition zero_state :: eval_state where
  "zero_state = \<lparr>e_RuleHash = [], e_Labels = None, e_Status = [], e_Error = [], e_PendingSince = 0, e_RecoverySince = 0, e_LastObserved = 0,
     e_LastEvaluated = 0, e_AlertID = [], e_Severity = [], e_Value = None\<rparr>"

definition usable :: "rule \<Rightarrow> int \<Rightarrow> observation \<Rightarrow> bool" where
  "usable r now ob \<longleftrightarrow> \<not> (ob_At ob = 0 \<or> ob_At ob > now \<or> now - ob_At ob > r_MaxAge r \<or> not_finite (ob_Value ob) \<or> ob_Firing ob = ob_Recovered ob)"

definition reset_timers :: "eval_state \<Rightarrow> eval_state" where
  "reset_timers s = s\<lparr>e_PendingSince := 0, e_RecoverySince := 0\<rparr>"

definition on_firing :: "rule \<Rightarrow> string \<Rightarrow> int \<Rightarrow> eval_state \<Rightarrow> eval_state" where
  "on_firing r alertID now n0 =
     (let n1 = n0\<lparr>e_RecoverySince := 0\<rparr> in
      if alertID \<noteq> [] then n1\<lparr>e_Status := ''firing''\<rparr>
      else let n2 = (if e_PendingSince n1 = 0 then n1\<lparr>e_PendingSince := now\<rparr> else n1) in
        n2\<lparr>e_Status := (if now - e_PendingSince n2 \<ge> r_For r then ''firing'' else ''pending'')\<rparr>)"

definition on_recovered :: "rule \<Rightarrow> string \<Rightarrow> int \<Rightarrow> eval_state \<Rightarrow> eval_state" where
  "on_recovered r alertID now n0 =
     (let n1 = n0\<lparr>e_PendingSince := 0\<rparr> in
      if alertID = [] then n1\<lparr>e_Status := ''inactive'', e_RecoverySince := 0\<rparr>
      else let n2 = (if e_RecoverySince n1 = 0 then n1\<lparr>e_RecoverySince := now\<rparr> else n1) in
        n2\<lparr>e_Status := (if now - e_RecoverySince n2 \<ge> r_RecoveryFor r then ''resolved'' else ''firing'')\<rparr>)"

definition advance :: "(rule \<Rightarrow> string) \<Rightarrow> rule \<Rightarrow> eval_state \<Rightarrow> observation option \<Rightarrow> int \<Rightarrow> eval_state" where
  "advance ruleHash r old observation now =
     (let n0 = old\<lparr>e_RuleHash := ruleHash r, e_LastEvaluated := now\<rparr>;
          n1 = (if e_RuleHash old \<noteq> ruleHash r \<or> now - e_LastEvaluated old > 3 * Interval then reset_timers n0 else n0) in
      case observation of
        None \<Rightarrow> (reset_timers n1)\<lparr>e_Status := ''unknown''\<rparr>
      | Some ob \<Rightarrow>
        if \<not> usable r now ob then (reset_timers n1)\<lparr>e_Status := ''unknown''\<rparr>
        else let n2 = n1\<lparr>e_Labels := Some (ob_Labels ob)\<rparr> in
          if \<not> ob_At ob > e_LastObserved old then n2
          else let n3 = (if e_LastObserved old \<noteq> 0 \<and> ob_At ob - e_LastObserved old > r_MaxAge r then reset_timers n2 else n2);
                   n4 = n3\<lparr>e_LastObserved := ob_At ob, e_Value := Some (ob_Value ob)\<rparr> in
            if ob_Firing ob then on_firing r (e_AlertID old) now n4 else on_recovered r (e_AlertID old) now n4)"


subsection \<open>What an observation is evidence of\<close>

text \<open>The samples of a predicate's answer that speak of an instance.\<close>

definition matching :: "fingerprinter \<Rightarrow> rule \<Rightarrow> string \<Rightarrow> sample list \<Rightarrow> nat" where
  "matching fp rule i ss = length (filter (\<lambda>s. scoped rule (sample_labels s) \<and> instanceID fp rule (Some (sample_labels s)) = i) ss)"

lemma matching_simps [simp]:
  "matching fp rule i [] = 0"
  "matching fp rule i (s # ss) = matching fp rule i ss + of_bool (scoped rule (sample_labels s) \<and> instanceID fp rule (Some (sample_labels s)) = i)"
  by (simp_all add: matching_def)

text \<open>One sample's effect on the observations.\<close>

definition observe_sample :: "fingerprinter \<Rightarrow> rule \<Rightarrow> bool \<Rightarrow> sample \<Rightarrow> (string \<times> observation) list \<Rightarrow> (string \<times> observation) list" where
  "observe_sample fp rule firing s obs = observe_samples fp rule firing [s] obs"

lemma observe_samples_Cons: "observe_samples fp rule firing (s # ss) obs = observe_samples fp rule firing ss (observe_sample fp rule firing s obs)"
  by (auto simp: observe_sample_def Let_def split: option.split)

lemma observe_sample_other:
  "\<not> (scoped rule (sample_labels s) \<and> instanceID fp rule (Some (sample_labels s)) = i) \<Longrightarrow> map_of (observe_sample fp rule firing s obs) i = map_of obs i"
  by (auto simp: observe_sample_def Let_def split: option.split)

lemma observe_sample_same:
  assumes "scoped rule (sample_labels s) \<and> instanceID fp rule (Some (sample_labels s)) = i"
  shows "\<exists>ob. map_of (observe_sample fp rule firing s obs) i = Some ob \<and>
    (if map_of obs i = None then ob_Firing ob = firing \<and> ob_Recovered ob \<noteq> firing else ob_Firing ob = ob_Recovered ob)"
  using assms by (auto simp: observe_sample_def Let_def split: option.split)

lemma observe_samples_one:
  "map_of (observe_samples fp rule firing ss obs) i = Some ob \<Longrightarrow> ob_Firing ob \<noteq> ob_Recovered ob \<Longrightarrow>
    map_of obs i = Some ob \<and> matching fp rule i ss = 0 \<or> map_of obs i = None \<and> matching fp rule i ss = 1 \<and> ob_Firing ob = firing"
proof (induction ss arbitrary: obs)
  case (Cons s ss)
  let ?same = "scoped rule (sample_labels s) \<and> instanceID fp rule (Some (sample_labels s)) = i"
  note IH = Cons.IH [OF Cons.prems(1) [unfolded observe_samples_Cons] Cons.prems(2)]
  show ?case
  proof (cases ?same)
    case True
    show ?thesis using observe_sample_same [OF True, of firing obs] IH True Cons.prems(2) by (auto split: if_splits)
  next
    case False
    have "matching fp rule i (s # ss) = matching fp rule i ss" using False by simp
    then show ?thesis using observe_sample_other [OF False, of firing obs] IH by presburger
  qed
qed simp

lemma observe_samples_none:
  "map_of (observe_samples fp rule firing ss obs) i = None \<Longrightarrow> map_of obs i = None \<and> matching fp rule i ss = 0"
proof (induction ss arbitrary: obs)
  case (Cons s ss)
  let ?same = "scoped rule (sample_labels s) \<and> instanceID fp rule (Some (sample_labels s)) = i"
  note IH = Cons.IH [OF Cons.prems [unfolded observe_samples_Cons]]
  have "\<not> ?same" using observe_sample_same [of rule s fp i firing obs] IH by auto
  then have "matching fp rule i (s # ss) = matching fp rule i ss" "map_of (observe_sample fp rule firing s obs) i = map_of obs i"
    using observe_sample_other by auto
  then show ?case using IH by presburger
qed simp

lemma map_of_map_key: "map_of (map (\<lambda>(k, v). (k, f k v)) al) i = map_option (f i) (map_of al i)"
  by (induction al) auto

text \<open>
  C29. Conflicting predicates and duplicate identities are unknown, never healthy: a usable observation of an instance rests on
  exactly one sample of the two predicates, and is firing exactly when that sample answers the condition.
\<close>

theorem usable_observation_has_one_sample:
  assumes valid: "rule_Validate rule = None" and observed: "observe query fp stamp rule = Inr obs"
    and ob: "map_of obs i = Some ob" "usable rule now ob"
  shows "\<exists>cs rs. query (r_Condition rule) = Inr cs \<and> query (r_RecoveryCondition rule) = Inr rs \<and>
    matching fp rule i cs + matching fp rule i rs = 1 \<and> (ob_Firing ob \<longleftrightarrow> matching fp rule i cs = 1)"
proof -
  have set: "r_Condition rule \<noteq> []" "r_RecoveryCondition rule \<noteq> []" "r_FreshnessQuery rule \<noteq> []"
    using valid by (auto simp: rule_Validate_def split: if_splits)
  obtain cs rs fs where q: "query (r_Condition rule) = Inr cs" "query (r_RecoveryCondition rule) = Inr rs"
      "obs = map (\<lambda>(i, ob). (i, ob\<lparr>ob_At := freshness fp rule stamp fs i\<rparr>)) (observe_samples fp rule False rs (observe_samples fp rule True cs []))"
    using observed set by (auto simp: observe_def observe_query_def split: sum.splits if_splits)
  let ?o1 = "observe_samples fp rule True cs []"
  obtain ob' where ob': "map_of (observe_samples fp rule False rs ?o1) i = Some ob'" "ob_Firing ob = ob_Firing ob'" "ob_Recovered ob = ob_Recovered ob'"
    using ob(1) q(3) by (auto simp: map_of_map_key)
  have one: "ob_Firing ob' \<noteq> ob_Recovered ob'" using ob(2) ob'(2,3) by (auto simp: usable_def)
  show ?thesis
    using observe_samples_one [OF ob'(1) one] observe_samples_one [of fp rule True cs "[]" i ob'] observe_samples_none [of fp rule True cs "[]" i] one q(1,2) ob'(2)
    by auto
qed

lemmas advance_defs = advance_def on_firing_def on_recovered_def reset_timers_def Let_def

lemma advance_AlertID [simp]: "e_AlertID (advance h r s ob now) = e_AlertID s"
  by (auto simp: advance_defs split: option.split)

lemma advance_RuleHash [simp]: "e_RuleHash (advance h r s ob now) = h r"
  by (auto simp: advance_defs split: option.split)

text \<open>One pass over an instance: what was observed of it, and when it was evaluated.\<close>

type_synonym pass = "observation option \<times> int"

definition run_pass :: "(rule \<Rightarrow> string) \<Rightarrow> rule \<Rightarrow> pass \<Rightarrow> eval_state \<Rightarrow> eval_state" where
  "run_pass h r p s = advance h r s (fst p) (snd p)"

lemma runs_AlertID [simp]: "e_AlertID (runs (run_pass h r) ps s) = e_AlertID s"
  by (induction ps arbitrary: s) (auto simp: run_pass_def)

subsection \<open>Timers measure unbroken evidence\<close>

text \<open>All inputs are acceptable in the states they meet.\<close>

primrec unbroken :: "('i \<Rightarrow> 's \<Rightarrow> 's) \<Rightarrow> ('s \<Rightarrow> 'i \<Rightarrow> bool) \<Rightarrow> 's \<Rightarrow> 'i list \<Rightarrow> bool" where
  "unbroken step lasts s [] = True"
| "unbroken step lasts s (i # is) = (lasts s i \<and> unbroken step lasts (step i s) is)"

lemma unbroken_append: "unbroken step lasts s (is @ js) \<longleftrightarrow> unbroken step lasts s is \<and> unbroken step lasts (runs step is s) js"
  by (induction "is" arbitrary: s) auto

text \<open>
  A timer is zero, or the time of the input that started it, provided every input since kept it. The evaluator has
  two: \<open>PendingSince\<close> and \<open>RecoverySince\<close>.
\<close>

locale timer =
  fixes step :: "'i \<Rightarrow> 's \<Rightarrow> 's"
    and since :: "'s \<Rightarrow> int"
    and time :: "'i \<Rightarrow> int"
    and starts lasts :: "'s \<Rightarrow> 'i \<Rightarrow> bool"
  assumes since_step: "since (step i s) \<noteq> 0 \<Longrightarrow> since (step i s) = since s \<and> lasts s i \<or> since (step i s) = time i \<and> starts s i"
begin

lemma since_runs:
  assumes "since (runs step is s) \<noteq> 0" and "since s = 0"
  shows "\<exists>pre i post. is = pre @ i # post \<and> time i = since (runs step is s) \<and> starts (runs step pre s) i \<and>
    unbroken step lasts (runs step (pre @ [i]) s) post"
  using assms
proof (induction "is" rule: rev_induct)
  case (snoc j js)
  let ?s = "runs step js s"
  have eq: "runs step (js @ [j]) s = step j ?s" by (simp add: runs_append)
  consider (keep) "since (step j ?s) = since ?s" "lasts ?s j" | (start) "since (step j ?s) = time j" "starts ?s j"
    using since_step snoc.prems eq by metis
  then show ?case
  proof cases
    case keep
    then obtain pre i post where js: "js = pre @ i # post" "time i = since ?s" "starts (runs step pre s) i"
        "unbroken step lasts (runs step (pre @ [i]) s) post"
      using snoc eq by metis
    have "runs step post (runs step (pre @ [i]) s) = ?s" using js(1) by (simp add: runs_append)
    then have "unbroken step lasts (runs step (pre @ [i]) s) (post @ [j])"
      using js(4) keep(2) by (simp add: unbroken_append)
    then show ?thesis using js keep eq by (intro exI [of _ pre] exI [of _ i] exI [of _ "post @ [j]"]) simp
  next
    case start
    then show ?thesis using eq by (intro exI [of _ js] exI [of _ j] exI [of _ "[]"]) simp
  qed
qed simp

lemma lasted_until:
  assumes "since s = 0" and "since (runs step is s) \<noteq> 0 \<and> d \<le> now - since (runs step is s)" and "lasts (runs step is s) i"
  shows "\<exists>pre p post. is @ [i] = pre @ p # post \<and> d \<le> now - time p \<and> starts (runs step pre s) p \<and>
    unbroken step lasts (runs step (pre @ [p]) s) post"
proof -
  obtain pre p post where p: "is = pre @ p # post" "time p = since (runs step is s)" "starts (runs step pre s) p"
      "unbroken step lasts (runs step (pre @ [p]) s) post"
    using since_runs [of "is" s] assms(1,2) by metis
  then have "unbroken step lasts (runs step (pre @ [p]) s) (post @ [i])" using assms(3) by (simp add: unbroken_append runs_append)
  then show ?thesis using p assms(2) by (intro exI [of _ pre] exI [of _ p] exI [of _ "post @ [i]"]) simp
qed

lemma lasted:
  assumes "since s = 0" and "since (runs step is s) \<noteq> 0 \<and> d \<le> now - since (runs step is s)"
  shows "\<exists>pre i post. is = pre @ i # post \<and> d \<le> now - time i \<and> starts (runs step pre s) i \<and>
    unbroken step lasts (runs step (pre @ [i]) s) post"
  using since_runs [of "is" s] assms by metis

end

text \<open>
  A pass begins a recovery (an outage) when it brings a usable sample, newer than the last, that says so. A later pass
  lets it go on when it comes within three intervals, under the same rule, with a usable sample: either one that is not
  newer than the last (it counts for nothing, whatever it says), or a newer one that says the same and follows the last
  within \<open>MaxAge\<close>.
\<close>

definition begins :: "rule \<Rightarrow> bool \<Rightarrow> eval_state \<Rightarrow> pass \<Rightarrow> bool" where
  "begins r firing s p \<longleftrightarrow> (case fst p of None \<Rightarrow> False
     | Some ob \<Rightarrow> usable r (snd p) ob \<and> ob_At ob > e_LastObserved s \<and> ob_Firing ob = firing)"

definition goes_on :: "(rule \<Rightarrow> string) \<Rightarrow> rule \<Rightarrow> bool \<Rightarrow> eval_state \<Rightarrow> pass \<Rightarrow> bool" where
  "goes_on h r firing s p \<longleftrightarrow> e_RuleHash s = h r \<and> snd p - e_LastEvaluated s \<le> 3 * Interval \<and> (case fst p of None \<Rightarrow> False
     | Some ob \<Rightarrow> usable r (snd p) ob \<and> (ob_At ob \<le> e_LastObserved s \<or>
         ob_Firing ob = firing \<and> (e_LastObserved s = 0 \<or> ob_At ob - e_LastObserved s \<le> r_MaxAge r)))"

interpretation recovery: timer "run_pass h r" e_RecoverySince snd "begins r False" "goes_on h r False" for h r
  by unfold_locales (auto simp: run_pass_def advance_defs begins_def goes_on_def split: option.splits if_splits)

interpretation outage: timer "run_pass h r" e_PendingSince snd "begins r True" "goes_on h r True" for h r
  by unfold_locales (auto simp: run_pass_def advance_defs begins_def goes_on_def split: option.splits if_splits)

lemma resolved_after:
  assumes "e_Status s \<noteq> ''resolved''" and "e_Status (advance h r s ob now) = ''resolved''" and "now \<noteq> 0"
  shows "e_RecoverySince (advance h r s ob now) \<noteq> 0 \<and> r_RecoveryFor r \<le> now - e_RecoverySince (advance h r s ob now)"
  using assms by (auto simp: advance_defs split: option.splits if_splits)

lemma firing_after:
  assumes "e_Status (runs (run_pass h r) ps s) \<noteq> ''firing''" and "e_Status (runs (run_pass h r) (ps @ [(ob, now)]) s) = ''firing''"
    and "e_AlertID s = []" and "now \<noteq> 0"
  shows "e_PendingSince (runs (run_pass h r) (ps @ [(ob, now)]) s) \<noteq> 0 \<and>
    r_For r \<le> now - e_PendingSince (runs (run_pass h r) (ps @ [(ob, now)]) s)"
  using assms by (auto simp: run_pass_def runs_append advance_defs split: option.splits if_splits)

text \<open>
  The counterpart for a new alert: an instance without an incident turns to firing only after an unbroken outage of at
  least \<open>For\<close>.
\<close>

theorem alert_needs_sustained_outage:
  assumes "e_PendingSince s = 0" and "e_AlertID s = []" and "e_Status (runs (run_pass h r) ps s) \<noteq> ''firing''"
    and "e_Status (runs (run_pass h r) (ps @ [(ob, now)]) s) = ''firing''" and "now \<noteq> 0"
  shows "\<exists>pre p post. ps @ [(ob, now)] = pre @ p # post \<and> r_For r \<le> now - snd p \<and> begins r True (runs (run_pass h r) pre s) p \<and>
    unbroken (run_pass h r) (goes_on h r True) (runs (run_pass h r) (pre @ [p]) s) post"
  using assms by (intro outage.lasted firing_after)

definition sample_rule :: rule where
  "sample_rule = \<lparr>r_ID = ''cpu'', r_Name = ''CPU'', r_Condition = ''c'', r_RecoveryCondition = ''r'', r_FreshnessQuery = ''f'', r_Severity = ''warning'',
     r_StackID = [], r_NodeID = [], r_Message = [], r_For = 60, r_RecoveryFor = 60, r_MaxAge = 120, r_Enabled = True, r_Compose = False\<rparr>"

lemmas sample_defs = sample_rule_def zero_state_def run_pass_def advance_defs usable_def not_finite_def Interval_def

definition sample_fp :: fingerprinter where
  "sample_fp ruleID ls = ruleID"

definition sample_query :: "string \<Rightarrow> string + sample list" where
  "sample_query q = Inr (if q = ''r'' then [] else [\<lparr>sm_Labels = Map.empty, sm_Value = 1, sm_ObservedAt = 990\<rparr>])"

definition sample_observation :: observation where
  "sample_observation = \<lparr>ob_Labels = Map.empty, ob_Value = 1, ob_At = 990, ob_Firing = True, ob_Recovered = False\<rparr>"

theorem usable_observation_has_one_sample_witness:
  "observe sample_query sample_fp (\<lambda>_. 990) sample_rule = Inr [(''cpu'', sample_observation)] \<and>
   (\<exists>cs rs. sample_query ''c'' = Inr cs \<and> sample_query ''r'' = Inr rs \<and>
     matching sample_fp sample_rule ''cpu'' cs + matching sample_fp sample_rule ''cpu'' rs = 1 \<and> (True \<longleftrightarrow> matching sample_fp sample_rule ''cpu'' cs = 1))"
proof -
  have obs: "observe sample_query sample_fp (\<lambda>_. 990) sample_rule = Inr [(''cpu'', sample_observation)]"
    by (simp add: observe_def observe_query_def sample_query_def sample_fp_def sample_rule_def sample_observation_def scoped_def instanceID_def sample_labels_def freshness_def)
  show ?thesis
    using usable_observation_has_one_sample [of sample_rule sample_query sample_fp "\<lambda>_. 990" "[(''cpu'', sample_observation)]" "''cpu''" sample_observation 1000] obs
    by (simp add: sample_rule_def rule_Validate_def sample_observation_def usable_def not_finite_def)
qed

end
