(* ===== verification/Alert_Incidents.thy ===== *)
theory Alert_Incidents
  imports Alert_Evaluator
begin

text \<open>
  The store of the alert evaluator: \<open>save\<close> of \<open>pkg/alerts/store.go\<close> and \<open>Record\<close> of \<open>pkg/monitoring/store.go\<close>. The evaluation
  of an instance, its check, the incident and the notifications change in one transaction, guarded by the versions that
  were read. Evaluators on several nodes (a leader and one that does not know yet that it lost the lead) and the other
  producers of checks interleave their requests freely.

  The tables are maps by primary key; a row's JSON is the value it encodes. UUIDs are inputs of the step that draws
  them, new in the database at that moment. Publishing to the broker is left out. Users read, resolve, mute, create and delete
  notifications, and a daily job deletes old ones: what \<open>Record\<close> has announced is kept in a log of its own, \<open>d_sent\<close>, which is
  no table of the database.
\<close>

section \<open>The database\<close>

record resource =
  rs_HostID :: string
  rs_WorkloadID :: string
  rs_Pool :: string
  rs_Dataset :: string
  rs_SourceID :: string
  rs_DestinationID :: string

record check_result =
  cr_CheckID :: string
  cr_Producer :: string
  cr_Kind :: string
  cr_Resource :: resource
  cr_Observer :: string
  cr_Target :: string
  cr_Status :: string
  cr_Reason :: string
  cr_ObservedAt :: int
  cr_EvaluatedAt :: int
  cr_ExpiresAt :: int
  cr_Labels :: "labels option"
  cr_Evidence :: "(64 word option \<times> string) option"

definition no_result :: check_result where
  "no_result = \<lparr>cr_CheckID = [], cr_Producer = [], cr_Kind = [],
     cr_Resource = \<lparr>rs_HostID = [], rs_WorkloadID = [], rs_Pool = [], rs_Dataset = [], rs_SourceID = [], rs_DestinationID = []\<rparr>,
     cr_Observer = [], cr_Target = [], cr_Status = [], cr_Reason = [], cr_ObservedAt = 0, cr_EvaluatedAt = 0, cr_ExpiresAt = 0,
     cr_Labels = None, cr_Evidence = None\<rparr>"

record check =
  c_Result :: check_result
  c_LastSuccess :: int
  c_IncidentID :: string
  c_Severity :: string
  c_Notified :: bool

definition zero_check :: check where
  "zero_check = \<lparr>c_Result = no_result, c_LastSuccess = 0, c_IncidentID = [], c_Severity = [], c_Notified = False\<rparr>"

record check_row =
  cw_producer :: string
  cw_check :: check
  cw_version :: nat

record eval_row =
  ew_rule :: string
  ew_state :: eval_state
  ew_version :: nat

record alert_row =
  a_rule_id :: string
  a_stack_id :: string
  a_node_id :: string
  a_severity :: string
  a_kind :: string
  a_state :: string
  a_message :: string
  a_created_at :: int
  a_updated_at :: int
  a_labels :: labels
  a_resolved_at :: "int option"
  a_reason :: string
  a_silenced_until :: "int option"

record notification =
  n_id :: string
  n_alert_id :: string
  n_stack_id :: string
  n_node_id :: string
  n_kind :: string
  n_severity :: string
  n_title :: string
  n_body :: string
  n_state :: string
  n_created_at :: int
  n_silenced_until :: "int option"
  n_resolved_at :: "int option"

record monitor_db =
  d_evals :: "string \<rightharpoonup> eval_row"
  d_checks :: "string \<rightharpoonup> check_row"
  d_alerts :: "string \<rightharpoonup> alert_row"
  d_notifications :: "notification list"
  d_observations :: "(string \<times> string \<times> int \<times> check_result) list"
  d_sent :: "(string \<times> string) list"

text \<open>\<open>d_sent\<close>: the incident and the kind of every notification that \<open>Record\<close> has stored.\<close>

definition empty_db :: monitor_db where
  "empty_db = \<lparr>d_evals = Map.empty, d_checks = Map.empty, d_alerts = Map.empty, d_notifications = [], d_observations = [], d_sent = []\<rparr>"

subsection \<open>Guarded statements\<close>

text \<open>
  A guard is \<open>EXISTS(\<dots>)\<close>: a check at a version, joined with the producer's guard (an evaluation at a version) if there is
  one, or an observation.
\<close>

datatype guard =
    At_version string nat "(string \<times> nat) option"
  | Observed string

fun guard_holds :: "monitor_db \<Rightarrow> guard \<Rightarrow> bool" where
  "guard_holds db (At_version c v g) \<longleftrightarrow> (case d_checks db c of None \<Rightarrow> False | Some row \<Rightarrow> cw_version row = v) \<and>
     (case g of None \<Rightarrow> True | Some (e, ve) \<Rightarrow> (case d_evals db e of None \<Rightarrow> False | Some row \<Rightarrow> ew_version row = ve))"
| "guard_holds db (Observed u) \<longleftrightarrow> u \<in> fst ` set (d_observations db)"

datatype sql =
    Insert_alert string alert_row
  | Update_alert string string string labels int string string
  | Resolve_alert string int string
  | Resolve_notifications string int
  | Insert_notification notification
  | Insert_observation string string int check_result
  | Update_check string check
  | Update_eval string eval_state

definition silenced_at :: "int option \<Rightarrow> int \<Rightarrow> bool" where
  "silenced_at until now \<longleftrightarrow> (case until of None \<Rightarrow> False | Some t \<Rightarrow> t > now)"

fun exec_sql :: "sql \<Rightarrow> monitor_db \<Rightarrow> monitor_db" where
  "exec_sql (Insert_alert i row) db = db\<lparr>d_alerts := (d_alerts db)(i \<mapsto> row)\<rparr>"
| "exec_sql (Update_alert i severity message ls now stack node) db =
     db\<lparr>d_alerts := (d_alerts db)(i := map_option (\<lambda>a. a\<lparr>a_severity := severity, a_message := message, a_labels := ls, a_updated_at := now,
       a_stack_id := stack, a_node_id := node\<rparr>) (d_alerts db i))\<rparr>"
| "exec_sql (Resolve_alert i now reason) db =
     db\<lparr>d_alerts := (d_alerts db)(i := map_option (\<lambda>a. a\<lparr>a_state := ''resolved'', a_resolved_at := Some now, a_updated_at := now, a_reason := reason\<rparr>) (d_alerts db i))\<rparr>"
| "exec_sql (Resolve_notifications i now) db =
     db\<lparr>d_notifications := map (\<lambda>n. if n_alert_id n = i then n\<lparr>n_resolved_at := Some now\<rparr> else n) (d_notifications db)\<rparr>"
| "exec_sql (Insert_notification n) db =
     (case d_alerts db (n_alert_id n) of None \<Rightarrow> db
      | Some a \<Rightarrow> db\<lparr>d_notifications := d_notifications db @
          [n\<lparr>n_state := (if silenced_at (a_silenced_until a) (n_created_at n) then ''silenced'' else ''unread''), n_silenced_until := a_silenced_until a\<rparr>],
          d_sent := d_sent db @ [(n_alert_id n, n_kind n)]\<rparr>)"
| "exec_sql (Insert_observation u c now r) db = db\<lparr>d_observations := d_observations db @ [(u, c, now, r)]\<rparr>"
| "exec_sql (Update_check c ch) db =
     db\<lparr>d_checks := (d_checks db)(c := map_option (\<lambda>row. row\<lparr>cw_check := ch, cw_version := cw_version row + 1\<rparr>) (d_checks db c))\<rparr>"
| "exec_sql (Update_eval e s) db =
     db\<lparr>d_evals := (d_evals db)(e := map_option (\<lambda>row. row\<lparr>ew_state := s, ew_version := ew_version row + 1\<rparr>) (d_evals db e))\<rparr>"

text \<open>A transaction: each statement touches rows only where its guard holds in the database as the statements before left it.\<close>

fun Execute :: "(guard \<times> sql) list \<Rightarrow> monitor_db \<Rightarrow> monitor_db" where
  "Execute [] db = db"
| "Execute ((g, q) # qs) db = Execute qs (if guard_holds db g then exec_sql q db else db)"

definition insert_or_ignore_eval :: "string \<Rightarrow> string \<Rightarrow> monitor_db \<Rightarrow> monitor_db" where
  "insert_or_ignore_eval e ruleID db = (case d_evals db e of Some _ \<Rightarrow> db
     | None \<Rightarrow> db\<lparr>d_evals := (d_evals db)(e \<mapsto> \<lparr>ew_rule = ruleID, ew_state = zero_state, ew_version = 0\<rparr>)\<rparr>)"

definition insert_or_ignore_check :: "string \<Rightarrow> string \<Rightarrow> monitor_db \<Rightarrow> monitor_db" where
  "insert_or_ignore_check c producer db = (case d_checks db c of Some _ \<Rightarrow> db
     | None \<Rightarrow> db\<lparr>d_checks := (d_checks db)(c \<mapsto> \<lparr>cw_producer = producer, cw_check = zero_check, cw_version = 0\<rparr>)\<rparr>)"

section \<open>Recording a check\<close>

text \<open>
  \<open>Guard\<close> and \<open>GuardParams\<close> are the evaluation and its version; \<open>Extra\<close> is the statement it adds, under the guard it is
  given: the evaluation to update and its new state, from the incident.
\<close>

record transition =
  t_Result :: check_result
  t_RuleID :: string
  t_Title :: string
  t_Message :: string
  t_Severity :: string
  t_Action :: string
  t_Notify :: bool
  t_Extra :: "(string \<Rightarrow> string \<times> eval_state) option"
  t_Guard :: "(string \<times> nat) option"

definition rank :: "string \<Rightarrow> int" where
  "rank s = (if s = ''critical'' then 3 else if s = ''warning'' then 2 else 1)"

definition nowReason :: "transition \<Rightarrow> string" where
  "nowReason t = (if cr_Reason (t_Result t) \<noteq> [] then cr_Reason (t_Result t) else ''recovered'')"

definition Record_validate :: "transition \<Rightarrow> error" where
  "Record_validate t =
     (let r = t_Result t in
      if cr_CheckID r = [] \<or> cr_Producer r = [] \<or> cr_Kind r = [] \<or> cr_EvaluatedAt r = 0 then Some ''check identity, producer, kind and evaluation time required''
      else if cr_Status r \<notin> {''healthy'', ''failing'', ''unknown'', ''disabled'', ''unsupported''} then Some ''invalid check status''
      else if t_Action t \<notin> {''keep'', ''open'', ''resolve'', ''retire''} then Some ''invalid transition''
      else if (cr_Status r = ''healthy'' \<or> cr_Status r = ''failing'') \<and>
        (cr_ObservedAt r = 0 \<or> cr_ObservedAt r > cr_EvaluatedAt r \<or> cr_ExpiresAt r \<noteq> 0 \<and> cr_ExpiresAt r < cr_EvaluatedAt r) then
        Some ''positive check result requires fresh evidence''
      else if t_Action t = ''open'' \<and> cr_Status r \<noteq> ''failing'' \<or> t_Action t = ''resolve'' \<and> cr_Status r \<noteq> ''healthy'' \<or>
        t_Action t = ''retire'' \<and> cr_Status r \<noteq> ''disabled'' then Some ''transition contradicts check status''
      else if t_Severity t \<notin> {''info'', ''warning'', ''critical''} then Some ''invalid severity''
      else None)"

text \<open>An attempt whose evidence is not newer than the check's returns at once.\<close>

definition outdated :: "transition \<Rightarrow> check \<Rightarrow> bool" where
  "outdated t old \<longleftrightarrow>
     (let r = t_Result t; o_r = c_Result old in
      \<not> cr_EvaluatedAt r > cr_EvaluatedAt o_r \<or>
      t_Action t = ''open'' \<and> (cr_ObservedAt r < cr_ObservedAt o_r \<or> c_IncidentID old = [] \<and> \<not> cr_ObservedAt r > cr_ObservedAt o_r) \<or>
      t_Action t = ''resolve'' \<and> \<not> cr_ObservedAt r > cr_ObservedAt o_r)"

definition closes :: "transition \<Rightarrow> bool" where
  "closes t \<longleftrightarrow> t_Action t = ''resolve'' \<or> t_Action t = ''retire''"

text \<open>The UUIDs of an attempt: of the incident it may open, of its notification, of its observation.\<close>

record draws =
  dr_incident :: string
  dr_notification :: string
  dr_observation :: string

definition next_incident :: "transition \<Rightarrow> check \<Rightarrow> draws \<Rightarrow> string" where
  "next_incident t old u = (if t_Action t = ''open'' \<and> c_IncidentID old = [] then dr_incident u else c_IncidentID old)"

definition notice_kind :: "transition \<Rightarrow> check \<Rightarrow> string" where
  "notice_kind t old =
     (if t_Action t = ''open'' then
        (if c_IncidentID old = [] then ''alert'' else if rank (t_Severity t) > rank (c_Severity old) then ''alert.escalated'' else [])
      else if closes t \<and> c_IncidentID old \<noteq> [] \<and> c_Notified old then ''alert.resolved'' else [])"

definition next_result :: "transition \<Rightarrow> check \<Rightarrow> check_result" where
  "next_result t old = (t_Result t)\<lparr>cr_ObservedAt := max (cr_ObservedAt (t_Result t)) (cr_ObservedAt (c_Result old))\<rparr>"

definition next_check :: "transition \<Rightarrow> check \<Rightarrow> draws \<Rightarrow> check" where
  "next_check t old u =
     \<lparr>c_Result = next_result t old,
      c_LastSuccess = (if cr_Status (t_Result t) = ''healthy'' \<and> cr_ObservedAt (t_Result t) > c_LastSuccess old then cr_ObservedAt (t_Result t) else c_LastSuccess old),
      c_IncidentID = (if closes t then [] else next_incident t old u),
      c_Severity = (if t_Action t = ''open'' then t_Severity t else c_Severity old),
      c_Notified = (if closes t then False else c_Notified old \<or> t_Notify t \<and> notice_kind t old \<noteq> [])\<rparr>"

definition notice :: "transition \<Rightarrow> check \<Rightarrow> draws \<Rightarrow> notification" where
  "notice t old u =
     (let r = t_Result t in
      \<lparr>n_id = dr_notification u, n_alert_id = next_incident t old u, n_stack_id = rs_WorkloadID (cr_Resource r), n_node_id = rs_HostID (cr_Resource r),
       n_kind = notice_kind t old, n_severity = t_Severity t, n_title = t_Title t, n_body = t_Message t, n_state = ''unread'',
       n_created_at = cr_EvaluatedAt r, n_silenced_until = None, n_resolved_at = None\<rparr>)"

definition labels_or_empty :: "check_result \<Rightarrow> labels" where
  "labels_or_empty r = (case cr_Labels r of None \<Rightarrow> Map.empty | Some ls \<Rightarrow> ls)"

definition incident_sql :: "transition \<Rightarrow> check \<Rightarrow> draws \<Rightarrow> sql list" where
  "incident_sql t old u =
     (let r = t_Result t; now = cr_EvaluatedAt r; res = cr_Resource r in
      if t_Action t = ''open'' then
        (if c_IncidentID old = [] then
           [Insert_alert (dr_incident u) \<lparr>a_rule_id = t_RuleID t, a_stack_id = rs_WorkloadID res, a_node_id = rs_HostID res, a_severity = t_Severity t,
              a_kind = cr_Kind r, a_state = ''active'', a_message = t_Message t, a_created_at = now, a_updated_at = now, a_labels = labels_or_empty r,
              a_resolved_at = None, a_reason = [], a_silenced_until = None\<rparr>]
         else [Update_alert (c_IncidentID old) (t_Severity t) (t_Message t) (labels_or_empty r) now (rs_WorkloadID res) (rs_HostID res)])
      else if closes t \<and> c_IncidentID old \<noteq> [] then
        [Resolve_alert (c_IncidentID old) now (nowReason t), Resolve_notifications (c_IncidentID old) now]
      else [])"

definition notice_sql :: "transition \<Rightarrow> check \<Rightarrow> draws \<Rightarrow> sql list" where
  "notice_sql t old u = (if t_Notify t \<and> notice_kind t old \<noteq> [] then [Insert_notification (notice t old u)] else [])"

definition record_sql :: "transition \<Rightarrow> check \<Rightarrow> draws \<Rightarrow> sql list" where
  "record_sql t old u = (let r = t_Result t in incident_sql t old u @ notice_sql t old u @
     [Insert_observation (dr_observation u) (cr_CheckID r) (cr_EvaluatedAt r) r, Update_check (cr_CheckID r) (next_check t old u)])"

definition extra_sql :: "transition \<Rightarrow> check \<Rightarrow> draws \<Rightarrow> (guard \<times> sql) list" where
  "extra_sql t old u = (case t_Extra t of None \<Rightarrow> []
     | Some f \<Rightarrow> [(Observed (dr_observation u), case f (c_IncidentID (next_check t old u)) of (e, s) \<Rightarrow> Update_eval e s)])"

definition record_guard :: "transition \<Rightarrow> nat \<Rightarrow> guard" where
  "record_guard t v = At_version (cr_CheckID (t_Result t)) v (t_Guard t)"

definition commit :: "transition \<Rightarrow> nat \<Rightarrow> check \<Rightarrow> draws \<Rightarrow> monitor_db \<Rightarrow> monitor_db" where
  "commit t v old u = Execute (map (Pair (record_guard t v)) (record_sql t old u) @ extra_sql t old u)"


section \<open>Saving an evaluation\<close>

record stored =
  st_ID :: string
  st_Version :: nat
  st_State :: eval_state

definition no_stored :: stored where
  "no_stored = \<lparr>st_ID = [], st_Version = 0, st_State = zero_state\<rparr>"

definition save_skips :: "stored \<Rightarrow> int \<Rightarrow> bool" where
  "save_skips old now \<longleftrightarrow> e_LastEvaluated (st_State old) \<noteq> 0 \<and> \<not> now > e_LastEvaluated (st_State old)"

definition save_id :: "fingerprinter \<Rightarrow> rule \<Rightarrow> stored \<Rightarrow> eval_state \<Rightarrow> string" where
  "save_id fp rule old n = (if st_ID old = [] then instanceID fp rule (e_Labels n) else st_ID old)"

definition removed_reason :: string where
  "removed_reason = ''rule disabled or removed''"

definition save_status :: "eval_state \<Rightarrow> string \<Rightarrow> string" where
  "save_status n reason =
     (if reason = removed_reason then ''disabled''
      else if e_Status n = ''pending'' then ''failing''
      else if e_Status n = ''inactive'' \<or> e_Status n = ''resolved'' then ''healthy''
      else if e_Status n = ''firing'' then (if e_RecoverySince n \<noteq> 0 then ''healthy'' else ''failing'')
      else ''unknown'')"

definition save_decision :: "eval_state \<Rightarrow> string \<Rightarrow> string" where
  "save_decision n reason =
     (if reason = removed_reason then ''retire''
      else if e_Status n = ''resolved'' then ''resolve''
      else if e_Status n = ''firing'' \<and> e_RecoverySince n = 0 then ''open''
      else ''keep'')"

definition save_severity :: "rule \<Rightarrow> stored \<Rightarrow> string" where
  "save_severity rule old = (if r_Severity rule \<noteq> [] then r_Severity rule
     else if e_Severity (st_State old) \<noteq> [] then e_Severity (st_State old) else ''warning'')"

definition save_message :: "rule \<Rightarrow> string \<Rightarrow> string" where
  "save_message rule reason = (if reason \<noteq> [] then reason else if r_Message rule \<noteq> [] then r_Message rule else r_Name rule)"

definition label_or :: "eval_state \<Rightarrow> string \<Rightarrow> string \<Rightarrow> string" where
  "label_or n k dflt = (let v = (case e_Labels n of None \<Rightarrow> [] | Some ls \<Rightarrow> label ls k) in if v = [] then dflt else v)"

definition save_result :: "rule \<Rightarrow> string \<Rightarrow> eval_state \<Rightarrow> int \<Rightarrow> string \<Rightarrow> string \<Rightarrow> check_result" where
  "save_result rule e n now reason observer =
     \<lparr>cr_CheckID = ''metrics:'' @ e, cr_Producer = ''metrics'', cr_Kind = ''evaluator'',
      cr_Resource = \<lparr>rs_HostID = label_or n ''node_id'' (r_NodeID rule), rs_WorkloadID = label_or n ''stack_id'' (r_StackID rule),
        rs_Pool = label_or n ''pool'' [], rs_Dataset = label_or n ''dataset'' [], rs_SourceID = label_or n ''source_node_id'' [],
        rs_DestinationID = label_or n ''dest_node_id'' []\<rparr>,
      cr_Observer = observer, cr_Target = [], cr_Status = save_status n reason, cr_Reason = reason, cr_ObservedAt = e_LastObserved n, cr_EvaluatedAt = now,
      cr_ExpiresAt = (if r_MaxAge rule > 0 \<and> e_LastObserved n \<noteq> 0 then e_LastObserved n + r_MaxAge rule else 0),
      cr_Labels = e_Labels n, cr_Evidence = Some (e_Value n, e_Error n)\<rparr>"

definition save_action :: "eval_state \<Rightarrow> string \<Rightarrow> check_result \<Rightarrow> string" where
  "save_action n reason r =
     (if save_decision n reason = ''open'' \<and> (cr_ObservedAt r = 0 \<or> cr_ExpiresAt r < cr_EvaluatedAt r) then ''keep'' else save_decision n reason)"

text \<open>\<open>Extra\<close>: the state that goes with the incident.\<close>

definition save_extra :: "string \<Rightarrow> string \<Rightarrow> string \<Rightarrow> eval_state \<Rightarrow> string \<Rightarrow> string \<times> eval_state" where
  "save_extra e action severity n incidentID =
     (let n1 = n\<lparr>e_AlertID := incidentID\<rparr>;
          n2 = (if action = ''open'' then n1\<lparr>e_Severity := severity\<rparr> else n1);
          n3 = (if action = ''resolve'' \<or> action = ''retire'' then reset_timers n2 else n2) in (e, n3))"

definition save_transition :: "fingerprinter \<Rightarrow> rule \<Rightarrow> stored \<Rightarrow> eval_state \<Rightarrow> int \<Rightarrow> string \<Rightarrow> string \<Rightarrow> transition" where
  "save_transition fp rule old n now reason observer =
     (let e = save_id fp rule old n; r = save_result rule e n now reason observer; action = save_action n reason r; severity = save_severity rule old in
      \<lparr>t_Result = r, t_RuleID = r_ID rule, t_Title = r_Name rule, t_Message = save_message rule reason, t_Severity = severity, t_Action = action,
       t_Notify = True, t_Extra = Some (save_extra e action severity n), t_Guard = Some (e, st_Version old)\<rparr>)"

text \<open>What \<open>Tick\<close> saves for an instance of an enabled rule, and of a rule that was disabled or removed.\<close>

definition tick_next :: "(rule \<Rightarrow> string) \<Rightarrow> rule \<Rightarrow> stored \<Rightarrow> observation option \<Rightarrow> error \<Rightarrow> int \<Rightarrow> eval_state" where
  "tick_next h rule old ob queryErr now = (advance h rule (st_State old) ob now)\<lparr>e_Error := (case queryErr of None \<Rightarrow> [] | Some e \<Rightarrow> e)\<rparr>"

definition retired_rule :: "string \<Rightarrow> stored \<Rightarrow> rule" where
  "retired_rule ruleID old =
     \<lparr>r_ID = ruleID, r_Name = ''Alert rule disabled or removed'', r_Condition = [], r_RecoveryCondition = [], r_FreshnessQuery = [],
      r_Severity = e_Severity (st_State old), r_StackID = [], r_NodeID = [], r_Message = [], r_For = 0, r_RecoveryFor = 0, r_MaxAge = 0,
      r_Enabled = False, r_Compose = False\<rparr>"

definition tick_retired :: "stored \<Rightarrow> int \<Rightarrow> eval_state" where
  "tick_retired old now = (st_State old)\<lparr>e_Status := ''resolved'', e_LastEvaluated := now\<rparr>"

text \<open>
  What the row of an instance becomes when a save of the loaded row commits (\<open>Extra\<close>): \<open>incident\<close> is the incident of the check
  after the transaction. The row may be saved by an evaluation, under whatever the rule is at the time, or retired with its rule.
\<close>

definition saves :: "fingerprinter \<Rightarrow> string \<Rightarrow> rule \<Rightarrow> stored \<Rightarrow> eval_state \<Rightarrow> int \<Rightarrow> string \<Rightarrow> string \<Rightarrow> stored" where
  "saves fp observer rule old n now reason incident = (case t_Extra (save_transition fp rule old n now reason observer) of None \<Rightarrow> old
     | Some f \<Rightarrow> (case f incident of (e, s) \<Rightarrow> \<lparr>st_ID = e, st_Version = st_Version old + 1, st_State = s\<rparr>))"

datatype save_input = Evaluated rule "observation option" error int string | Retired string int string

fun saved :: "fingerprinter \<Rightarrow> (rule \<Rightarrow> string) \<Rightarrow> string \<Rightarrow> save_input \<Rightarrow> stored \<Rightarrow> stored" where
  "saved fp h observer (Evaluated rule ob queryErr now incident) old = saves fp observer rule old (tick_next h rule old ob queryErr now) now [] incident"
| "saved fp h observer (Retired ruleID now incident) old =
     saves fp observer (retired_rule ruleID old) old (tick_retired old now) now removed_reason incident"

fun save_time :: "save_input \<Rightarrow> int" where
  "save_time (Evaluated rule ob queryErr now incident) = now"
| "save_time (Retired ruleID now incident) = now"

text \<open>The row that stood for a rule without any series.\<close>

definition placeholder :: "stored \<Rightarrow> bool" where
  "placeholder old \<longleftrightarrow> e_Labels (st_State old) = None \<and> e_AlertID (st_State old) = []"

definition delete_eval :: "stored \<Rightarrow> monitor_db \<Rightarrow> monitor_db" where
  "delete_eval old db = (case d_evals db (st_ID old) of None \<Rightarrow> db
     | Some row \<Rightarrow> if ew_version row = st_Version old then db\<lparr>d_evals := (d_evals db)(st_ID old := None)\<rparr> else db)"

subsection \<open>Requests that act on incidents\<close>

definition is_resolved :: "monitor_db \<Rightarrow> string \<Rightarrow> bool" where
  "is_resolved db i \<longleftrightarrow> (case d_alerts db i of None \<Rightarrow> False | Some a \<Rightarrow> a_state a = ''resolved'')"

definition handleDeleteAlert :: "string \<Rightarrow> monitor_db \<Rightarrow> monitor_db" where
  "handleDeleteAlert i db = (if is_resolved db i then
     db\<lparr>d_notifications := filter (\<lambda>n. n_alert_id n \<noteq> i) (d_notifications db), d_alerts := (d_alerts db)(i := None)\<rparr> else db)"

definition handleSilenceAlert :: "string \<Rightarrow> int \<Rightarrow> monitor_db \<Rightarrow> monitor_db" where
  "handleSilenceAlert i deadline db = (case d_alerts db i of None \<Rightarrow> db
     | Some a \<Rightarrow> if a_state a \<noteq> ''active'' then db
         else db\<lparr>d_alerts := (d_alerts db)(i \<mapsto> a\<lparr>a_silenced_until := Some deadline\<rparr>),
           d_notifications := map (\<lambda>n. if n_alert_id n = i \<and> n_resolved_at n = None then n\<lparr>n_state := ''silenced'', n_silenced_until := Some deadline\<rparr> else n)
             (d_notifications db)\<rparr>)"

subsection \<open>Requests and jobs that act on notifications\<close>

definition notify_Create :: "string \<Rightarrow> int \<Rightarrow> notification \<Rightarrow> monitor_db \<Rightarrow> monitor_db" where
  "notify_Create uuid now n db = db\<lparr>d_notifications := d_notifications db @
     [n\<lparr>n_id := (if n_id n = [] then uuid else n_id n), n_state := (if n_state n = [] then ''unread'' else n_state n), n_created_at := now,
        n_silenced_until := None, n_resolved_at := None\<rparr>]\<rparr>"

definition handleCreateNotification :: "string \<Rightarrow> int \<Rightarrow> notification \<Rightarrow> monitor_db \<Rightarrow> monitor_db" where
  "handleCreateNotification uuid now n db =
     (if n_severity n \<notin> {''info'', ''warning'', ''critical''} \<or> n_title n = [] \<or> n_body n = [] then db
      else notify_Create uuid now (n\<lparr>n_id := [], n_state := ''unread'', n_resolved_at := None\<rparr>) db)"

definition updateNotification :: "string \<Rightarrow> string \<Rightarrow> int option \<Rightarrow> int \<Rightarrow> monitor_db \<Rightarrow> monitor_db" where
  "updateNotification i state until now db = db\<lparr>d_notifications := map (\<lambda>n. if n_id n = i
     then n\<lparr>n_state := state, n_silenced_until := until, n_resolved_at := (if state = ''resolved'' then Some now else None)\<rparr> else n) (d_notifications db)\<rparr>"

definition handleReadNotification :: "string \<Rightarrow> int \<Rightarrow> monitor_db \<Rightarrow> monitor_db" where
  "handleReadNotification i now = updateNotification i ''read'' None now"

definition handleResolveNotification :: "string \<Rightarrow> int \<Rightarrow> monitor_db \<Rightarrow> monitor_db" where
  "handleResolveNotification i now = updateNotification i ''resolved'' None now"

definition handleSilenceNotification :: "string \<Rightarrow> int \<Rightarrow> int \<Rightarrow> monitor_db \<Rightarrow> monitor_db" where
  "handleSilenceNotification i until now db = (if until > now then updateNotification i ''silenced'' (Some until) now db else db)"

definition handleDeleteNotification :: "string \<Rightarrow> monitor_db \<Rightarrow> monitor_db" where
  "handleDeleteNotification i db = db\<lparr>d_notifications := filter (\<lambda>n. n_id n \<noteq> i) (d_notifications db)\<rparr>"

definition notify_Cleanup :: "int \<Rightarrow> monitor_db \<Rightarrow> monitor_db" where
  "notify_Cleanup now db = db\<lparr>d_notifications := filter (\<lambda>n. \<not> (n_state n = ''read'' \<and> n_created_at n < now - 30 * 24 * 3600 * 1000000000)) (d_notifications db)\<rparr>"

section \<open>Evaluators and producers at work\<close>

text \<open>
  Where a session stands: it has loaded a row of \<open>alert_evaluations\<close>; it is inside \<open>Record\<close>, before the check's row was made;
  it is about to read the check for its \<open>n\<close>-th attempt; it has read the check at a version. A session that fails or dies
  is idle again.
\<close>

datatype phase =
    Idle
  | Loaded stored
  | Recording transition
  | Reading transition nat
  | Planned transition nat check nat

record system =
  sy_db :: monitor_db
  sy_sessions :: "nat \<Rightarrow> phase"

definition session :: "nat \<Rightarrow> phase \<Rightarrow> (monitor_db \<Rightarrow> monitor_db) \<Rightarrow> system \<Rightarrow> system" where
  "session n ph f s = s\<lparr>sy_db := f (sy_db s), sy_sessions := (sy_sessions s)(n := ph)\<rparr>"

definition fresh_draws :: "monitor_db \<Rightarrow> draws \<Rightarrow> bool" where
  "fresh_draws db u \<longleftrightarrow> dr_incident u \<noteq> [] \<and> d_alerts db (dr_incident u) = None \<and> dr_incident u \<notin> fst ` set (d_sent db) \<and>
     dr_observation u \<notin> fst ` set (d_observations db)"

definition maxAttempts :: nat where "maxAttempts = 8"

text \<open>After a transaction that did not commit, a producer without a guard tries again, at most eight times.\<close>

definition after_commit :: "transition \<Rightarrow> nat \<Rightarrow> draws \<Rightarrow> monitor_db \<Rightarrow> phase" where
  "after_commit t k u db = (if guard_holds db (Observed (dr_observation u)) \<or> t_Guard t \<noteq> None then Idle else Reading t (k + 1))"

inductive monitor_step :: "fingerprinter \<Rightarrow> (rule \<Rightarrow> string) \<Rightarrow> system \<Rightarrow> system \<Rightarrow> bool" for fp h where
  load: "d_evals (sy_db s) e = Some row \<Longrightarrow>
    monitor_step fp h s (session n (Loaded \<lparr>st_ID = e, st_Version = ew_version row, st_State = ew_state row\<rparr>) (\<lambda>db. db) s)"
| load_none: "monitor_step fp h s (session n (Loaded no_stored) (\<lambda>db. db) s)"
| evaluate: "sy_sessions s n = Loaded old \<Longrightarrow> r_Enabled rule \<Longrightarrow> \<not> save_skips old now \<Longrightarrow> nxt = tick_next h rule old ob queryErr now \<Longrightarrow>
    monitor_step fp h s (session n (Recording (save_transition fp rule old nxt now [] observer)) (insert_or_ignore_eval (save_id fp rule old nxt) (r_ID rule)) s)"
| retire: "sy_sessions s n = Loaded old \<Longrightarrow> \<not> (e_Status (st_State old) = ''resolved'' \<and> e_AlertID (st_State old) = []) \<Longrightarrow> \<not> save_skips old now \<Longrightarrow> nxt = tick_retired old now \<Longrightarrow> rule = retired_rule ruleID old \<Longrightarrow>
    monitor_step fp h s (session n (Recording (save_transition fp rule old nxt now removed_reason observer)) (insert_or_ignore_eval (save_id fp rule old nxt) (r_ID rule)) s)"
| discard: "sy_sessions s n = Loaded old \<Longrightarrow> placeholder old \<Longrightarrow> monitor_step fp h s (session n Idle (delete_eval old) s)"
| produce: "cr_Producer (t_Result t) \<noteq> ''metrics'' \<Longrightarrow> t_Guard t = None \<Longrightarrow> t_Extra t = None \<Longrightarrow> monitor_step fp h s (session n (Recording t) (\<lambda>db. db) s)"
| insert_check: "sy_sessions s n = Recording t \<Longrightarrow> Record_validate t = None \<Longrightarrow>
    monitor_step fp h s (session n (Reading t 0) (insert_or_ignore_check (cr_CheckID (t_Result t)) (cr_Producer (t_Result t))) s)"
| read_check: "sy_sessions s n = Reading t k \<Longrightarrow> k < maxAttempts \<Longrightarrow> d_checks (sy_db s) (cr_CheckID (t_Result t)) = Some row \<Longrightarrow>
    cw_producer row = cr_Producer (t_Result t) \<Longrightarrow> \<not> outdated t (cw_check row) \<Longrightarrow>
    monitor_step fp h s (session n (Planned t k (cw_check row) (cw_version row)) (\<lambda>db. db) s)"
| commit: "sy_sessions s n = Planned t k old v \<Longrightarrow> fresh_draws (sy_db s) u \<Longrightarrow>
    monitor_step fp h s (session n (after_commit t k u (commit t v old u (sy_db s))) (commit t v old u) s)"
| leave: "monitor_step fp h s (session n Idle (\<lambda>db. db) s)"
| delete_alert: "monitor_step fp h s (s\<lparr>sy_db := handleDeleteAlert i (sy_db s)\<rparr>)"
| silence_alert: "monitor_step fp h s (s\<lparr>sy_db := handleSilenceAlert i deadline (sy_db s)\<rparr>)"
| create_notification: "monitor_step fp h s (s\<lparr>sy_db := handleCreateNotification uuid now n (sy_db s)\<rparr>)"
| read_notification: "monitor_step fp h s (s\<lparr>sy_db := handleReadNotification i now (sy_db s)\<rparr>)"
| resolve_notification: "monitor_step fp h s (s\<lparr>sy_db := handleResolveNotification i now (sy_db s)\<rparr>)"
| silence_notification: "monitor_step fp h s (s\<lparr>sy_db := handleSilenceNotification i until now (sy_db s)\<rparr>)"
| delete_notification: "monitor_step fp h s (s\<lparr>sy_db := handleDeleteNotification i (sy_db s)\<rparr>)"
| cleanup: "monitor_step fp h s (s\<lparr>sy_db := notify_Cleanup now (sy_db s)\<rparr>)"

definition start :: system where
  "start = \<lparr>sy_db = empty_db, sy_sessions = \<lambda>_. Idle\<rparr>"

inductive reachable :: "fingerprinter \<Rightarrow> (rule \<Rightarrow> string) \<Rightarrow> system \<Rightarrow> bool" for fp h where
  start: "reachable fp h start"
| step: "reachable fp h s \<Longrightarrow> monitor_step fp h s s' \<Longrightarrow> reachable fp h s'"


section \<open>Resolution\<close>

text \<open>A save begins a recovery, or lets it go on, as its pass does; retiring a rule does neither.\<close>

fun begins_recovery :: "stored \<Rightarrow> save_input \<Rightarrow> bool" where
  "begins_recovery old (Evaluated rule ob queryErr now incident) = begins rule False (st_State old) (ob, now)"
| "begins_recovery old (Retired ruleID now incident) = False"

fun recovery_goes_on :: "(rule \<Rightarrow> string) \<Rightarrow> stored \<Rightarrow> save_input \<Rightarrow> bool" where
  "recovery_goes_on h old (Evaluated rule ob queryErr now incident) = goes_on h rule False (st_State old) (ob, now)"
| "recovery_goes_on h old (Retired ruleID now incident) = False"

lemma saved_evaluated:
  "e_Status (st_State (saved fp h observer (Evaluated rule ob queryErr now incident) old)) = e_Status (advance h rule (st_State old) ob now)"
  "e_RecoverySince (st_State (saved fp h observer (Evaluated rule ob queryErr now incident) old)) =
     (if e_Status (advance h rule (st_State old) ob now) = ''resolved'' then 0 else e_RecoverySince (advance h rule (st_State old) ob now))"
  by (simp_all add: saves_def save_transition_def save_extra_def save_action_def save_decision_def removed_reason_def tick_next_def reset_timers_def Let_def)

lemma saved_retired: "e_RecoverySince (st_State (saved fp h observer (Retired ruleID now incident) old)) = 0"
  by (simp add: saves_def save_transition_def save_extra_def save_action_def save_decision_def reset_timers_def Let_def)

lemma recovery_kept:
  "e_RecoverySince (advance h rule s ob now) \<noteq> 0 \<Longrightarrow>
   e_RecoverySince (advance h rule s ob now) = e_RecoverySince s \<and> goes_on h rule False s (ob, now) \<or>
   e_RecoverySince (advance h rule s ob now) = now \<and> begins rule False s (ob, now)"
  using recovery.since_step [of h rule "(ob, now)" s] by (simp add: run_pass_def)

interpretation saved_recovery: timer "saved fp h observer" "\<lambda>st. e_RecoverySince (st_State st)" save_time begins_recovery "recovery_goes_on h" for fp h observer
proof
  fix i old
  assume "e_RecoverySince (st_State (saved fp h observer i old)) \<noteq> 0"
  then show "e_RecoverySince (st_State (saved fp h observer i old)) = e_RecoverySince (st_State old) \<and> recovery_goes_on h old i \<or>
      e_RecoverySince (st_State (saved fp h observer i old)) = save_time i \<and> begins_recovery old i"
    by (cases i) (auto simp: saved_evaluated saved_retired simp del: saved.simps split: if_splits dest: recovery_kept)
qed

text \<open>
  C18. The saved state of an instance turns to resolved in two ways only. Either its rule was disabled or removed; or an evaluation found
  a sustained recovery: the saves end in an unbroken recovery that began at least \<open>RecoveryFor\<close> before. The save it began with brought a
  usable sample of recovery, newer than the last sample that counted. Every later one came within three intervals, under a rule with the
  same hash, and with a usable sample; where that sample was newer than the last, it was again one of recovery and followed it within \<open>MaxAge\<close>.
  (A sample that is not newer counts for nothing, whatever it says.)\<close>

theorem resolution_needs_sustained_recovery:
  assumes "e_RecoverySince (st_State old) = 0" and "e_Status (st_State (runs (saved fp h observer) is old)) \<noteq> ''resolved''"
    and "e_Status (st_State (runs (saved fp h observer) (is @ [i]) old)) = ''resolved''" and "save_time i \<noteq> 0"
  shows "(\<exists>ruleID now incident. i = Retired ruleID now incident) \<or>
    (\<exists>rule ob queryErr now incident. i = Evaluated rule ob queryErr now incident \<and>
       (\<exists>pre p post. is @ [i] = pre @ p # post \<and> r_RecoveryFor rule \<le> now - save_time p \<and>
         begins_recovery (runs (saved fp h observer) pre old) p \<and>
         unbroken (saved fp h observer) (recovery_goes_on h) (runs (saved fp h observer) (pre @ [p]) old) post))"
proof (cases i)
  case (Evaluated rule ob queryErr now incident)
  let ?old = "runs (saved fp h observer) is old" and ?n = "advance h rule (st_State (runs (saved fp h observer) is old)) ob now"
  have "e_Status ?n = ''resolved''" using assms(3) unfolding runs_append by (simp add: Evaluated saved_evaluated del: saved.simps)
  then have n: "e_RecoverySince ?n \<noteq> 0" "r_RecoveryFor rule \<le> now - e_RecoverySince ?n"
    using resolved_after [OF assms(2)] assms(4) by (simp_all add: Evaluated)
  consider (kept) "e_RecoverySince ?n = e_RecoverySince (st_State ?old)" "recovery_goes_on h ?old i"
    | (new) "e_RecoverySince ?n = now" "begins_recovery ?old i"
    using recovery_kept [OF n(1)] by (auto simp: Evaluated)
  then have "\<exists>pre p post. is @ [i] = pre @ p # post \<and> r_RecoveryFor rule \<le> now - save_time p \<and>
      begins_recovery (runs (saved fp h observer) pre old) p \<and>
      unbroken (saved fp h observer) (recovery_goes_on h) (runs (saved fp h observer) (pre @ [p]) old) post"
  proof cases
    case kept
    then show ?thesis using n by (intro saved_recovery.lasted_until [OF assms(1)]) simp_all
  next
    case new
    then show ?thesis using n by (intro exI [of _ "is"] exI [of _ i] exI [of _ "[]"]) (simp add: Evaluated)
  qed
  then show ?thesis using Evaluated by blast
qed simp


section \<open>A commit is all or nothing\<close>

fun exec_all :: "sql list \<Rightarrow> monitor_db \<Rightarrow> monitor_db" where
  "exec_all [] db = db"
| "exec_all (q # qs) db = exec_all qs (exec_sql q db)"

lemma exec_all_append: "exec_all (qs @ rs) db = exec_all rs (exec_all qs db)"
  by (induction qs arbitrary: db) auto

text \<open>Statements that leave the versions alone.\<close>

fun keeps_versions :: "sql \<Rightarrow> bool" where
  "keeps_versions (Update_check c ch) = False"
| "keeps_versions (Update_eval e s) = False"
| "keeps_versions _ = True"

lemma exec_keeps_versions [simp]:
  "keeps_versions q \<Longrightarrow> d_checks (exec_sql q db) = d_checks db \<and> d_evals (exec_sql q db) = d_evals db"
  by (cases q) (auto split: option.split)

lemma exec_all_keeps_versions:
  "list_all keeps_versions qs \<Longrightarrow> d_checks (exec_all qs db) = d_checks db \<and> d_evals (exec_all qs db) = d_evals db"
  by (induction qs arbitrary: db) auto

lemma guard_cong: "d_checks db = d_checks db' \<Longrightarrow> d_evals db = d_evals db' \<Longrightarrow> guard_holds db (At_version c v g) = guard_holds db' (At_version c v g)"
  by (cases g) auto

lemma guard_exec [simp]: "keeps_versions q \<Longrightarrow> guard_holds (exec_sql q db) (At_version c v g) = guard_holds db (At_version c v g)"
  by (rule guard_cong) simp_all

lemma Execute_append: "Execute (xs @ ys) db = Execute ys (Execute xs db)"
  by (induction xs arbitrary: db) auto

lemma Execute_false: "\<not> guard_holds db g \<Longrightarrow> Execute (map (Pair g) qs) db = db"
  by (induction qs) auto

lemma Execute_true:
  "list_all keeps_versions qs \<Longrightarrow> guard_holds db (At_version c v g) \<Longrightarrow> Execute (map (Pair (At_version c v g)) qs) db = exec_all qs db"
  by (induction qs arbitrary: db) (auto simp del: guard_holds.simps)

definition evidence_sql :: "transition \<Rightarrow> check \<Rightarrow> draws \<Rightarrow> sql list" where
  "evidence_sql t old u = incident_sql t old u @ notice_sql t old u @
     [Insert_observation (dr_observation u) (cr_CheckID (t_Result t)) (cr_EvaluatedAt (t_Result t)) (t_Result t)]"

lemma record_sql_alt: "record_sql t old u = evidence_sql t old u @ [Update_check (cr_CheckID (t_Result t)) (next_check t old u)]"
  by (simp add: record_sql_def evidence_sql_def Let_def)

lemma evidence_keeps_versions: "list_all keeps_versions (evidence_sql t old u)"
  by (simp add: evidence_sql_def incident_sql_def notice_sql_def Let_def)

lemma exec_all_observations:
  "d_observations (exec_all (evidence_sql t old u) db) =
     d_observations db @ [(dr_observation u, cr_CheckID (t_Result t), cr_EvaluatedAt (t_Result t), t_Result t)]"
  by (auto simp: evidence_sql_def incident_sql_def notice_sql_def Let_def split: option.split)

text \<open>What a commit does when its guard holds, and that it does nothing otherwise.\<close>

definition extra_evals :: "transition \<Rightarrow> check \<Rightarrow> draws \<Rightarrow> monitor_db \<Rightarrow> monitor_db" where
  "extra_evals t old u db = (case t_Extra t of None \<Rightarrow> db
     | Some f \<Rightarrow> (case f (c_IncidentID (next_check t old u)) of (e, s) \<Rightarrow> exec_sql (Update_eval e s) db))"

lemma commit_effect:
  assumes "fresh_draws db u"
  shows "commit t v old u db = (if guard_holds db (record_guard t v)
    then extra_evals t old u (exec_sql (Update_check (cr_CheckID (t_Result t)) (next_check t old u)) (exec_all (evidence_sql t old u) db)) else db)"
proof (cases "guard_holds db (record_guard t v)")
  case True
  let ?db = "exec_all (evidence_sql t old u) db"
  have "guard_holds ?db (record_guard t v)"
    using True exec_all_keeps_versions [OF evidence_keeps_versions, of t old u db] guard_cong by (metis record_guard_def)
  then show ?thesis
    using True Execute_true [OF evidence_keeps_versions, of db "cr_CheckID (t_Result t)" v "t_Guard t" t old u] exec_all_observations [of t old u db]
    by (simp add: commit_def Execute_append record_sql_alt record_guard_def extra_sql_def extra_evals_def del: guard_holds.simps(1) split: option.split prod.split)
next
  case False
  then show ?thesis
    using assms by (simp add: commit_def Execute_append Execute_false extra_sql_def fresh_draws_def split: option.split)
qed


section \<open>Incidents and checks stay in step\<close>

text \<open>
  What the invariant speaks about: the incident and the producer of a check, the open incidents, and how often \<open>Record\<close> sent a
  notification of a kind about an incident (a row that a user deletes later was sent all the same).
\<close>

definition incident_of :: "monitor_db \<Rightarrow> string \<Rightarrow> string" where
  "incident_of db c = (case d_checks db c of None \<Rightarrow> [] | Some row \<Rightarrow> c_IncidentID (cw_check row))"

definition producer_of :: "monitor_db \<Rightarrow> string \<Rightarrow> string option" where
  "producer_of db c = map_option cw_producer (d_checks db c)"

definition is_notified :: "monitor_db \<Rightarrow> string \<Rightarrow> bool" where
  "is_notified db c = (case d_checks db c of None \<Rightarrow> False | Some row \<Rightarrow> c_Notified (cw_check row))"

definition is_active :: "monitor_db \<Rightarrow> string \<Rightarrow> bool" where
  "is_active db i \<longleftrightarrow> (case d_alerts db i of None \<Rightarrow> False | Some a \<Rightarrow> a_state a = ''active'')"

definition is_known :: "monitor_db \<Rightarrow> string \<Rightarrow> bool" where
  "is_known db i \<longleftrightarrow> d_alerts db i \<noteq> None"

definition notices :: "monitor_db \<Rightarrow> string \<Rightarrow> string \<Rightarrow> nat" where
  "notices db kind i = count_list (d_sent db) (i, kind)"

text \<open>The checks with an incident and the active alerts correspond one to one.\<close>

definition incidents_match :: "monitor_db \<Rightarrow> bool" where
  "incidents_match db \<longleftrightarrow> bij_betw (incident_of db) {c. incident_of db c \<noteq> []} {i. is_active db i}"

text \<open>The evaluation of an instance names the incident of its check.\<close>

definition evaluations_match :: "monitor_db \<Rightarrow> bool" where
  "evaluations_match db \<longleftrightarrow> (\<forall>e row. d_evals db e = Some row \<longrightarrow> ew_version row > 0 \<longrightarrow>
     producer_of db (''metrics:'' @ e) = Some ''metrics'' \<and> e_AlertID (ew_state row) = incident_of db (''metrics:'' @ e))"

text \<open>
  \<open>Record\<close> announces no incident twice and reports none closed twice or while active, and it has announced every active incident of
  the evaluator.
\<close>

definition notices_match :: "monitor_db \<Rightarrow> bool" where
  "notices_match db \<longleftrightarrow>
     (\<forall>i. is_known db i \<longrightarrow> notices db ''alert'' i \<le> 1 \<and> notices db ''alert.resolved'' i \<le> of_bool (\<not> is_active db i)) \<and>
     (\<forall>c. producer_of db c = Some ''metrics'' \<longrightarrow> incident_of db c \<noteq> [] \<longrightarrow> is_notified db c \<and> notices db ''alert'' (incident_of db c) = 1)"

definition in_step :: "monitor_db \<Rightarrow> bool" where
  "in_step db \<longleftrightarrow> incidents_match db \<and> evaluations_match db \<and> notices_match db"

lemmas view_defs = incident_of_def producer_of_def is_notified_def is_active_def is_known_def notices_def

subsection \<open>The evidence a commit stores\<close>

lemma active_exec:
  "is_active (exec_sql (Insert_alert j a) db) i \<longleftrightarrow> (if i = j then a_state a = ''active'' else is_active db i)"
  "is_active (exec_sql (Update_alert j sev msg ls now st nd) db) i \<longleftrightarrow> is_active db i"
  "is_active (exec_sql (Resolve_alert j now reason) db) i \<longleftrightarrow> is_active db i \<and> i \<noteq> j"
  "is_active (exec_sql (Resolve_notifications j now) db) i \<longleftrightarrow> is_active db i"
  "is_active (exec_sql (Insert_notification n) db) i \<longleftrightarrow> is_active db i"
  "is_active (exec_sql (Insert_observation o' c now r) db) i \<longleftrightarrow> is_active db i"
  by (auto simp: is_active_def split: option.split)

lemma known_exec:
  "is_known (exec_sql (Insert_alert j a) db) i \<longleftrightarrow> i = j \<or> is_known db i"
  "is_known (exec_sql (Update_alert j sev msg ls now st nd) db) i \<longleftrightarrow> is_known db i"
  "is_known (exec_sql (Resolve_alert j now reason) db) i \<longleftrightarrow> is_known db i"
  "is_known (exec_sql (Resolve_notifications j now) db) i \<longleftrightarrow> is_known db i"
  "is_known (exec_sql (Insert_notification n) db) i \<longleftrightarrow> is_known db i"
  "is_known (exec_sql (Insert_observation o' c now r) db) i \<longleftrightarrow> is_known db i"
  by (auto simp: is_known_def split: option.split)

lemma notices_exec:
  "notices (exec_sql (Insert_alert j a) db) = notices db"
  "notices (exec_sql (Update_alert j sev msg ls now st nd) db) = notices db"
  "notices (exec_sql (Resolve_alert j now reason) db) = notices db"
  "notices (exec_sql (Resolve_notifications j now) db) = notices db"
  "notices (exec_sql (Insert_notification n) db) kind i =
     notices db kind i + of_bool (is_known db (n_alert_id n) \<and> i = n_alert_id n \<and> kind = n_kind n)"
  "notices (exec_sql (Insert_observation o' c now r) db) = notices db"
  by (auto simp: notices_def [abs_def] is_known_def split: option.split)

lemmas exec_views = active_exec known_exec notices_exec

lemma notice_fields [simp]: "n_alert_id (notice t old u) = next_incident t old u" "n_kind (notice t old u) = notice_kind t old"
  by (simp_all add: notice_def Let_def)

text \<open>The four ways a transition meets an incident.\<close>

lemma evidence_opens:
  assumes "t_Action t = ''open''" and "c_IncidentID old = []"
  shows "is_active (exec_all (evidence_sql t old u) db) i \<longleftrightarrow> i = dr_incident u \<or> is_active db i"
    and "is_known (exec_all (evidence_sql t old u) db) i \<longleftrightarrow> i = dr_incident u \<or> is_known db i"
    and "notices (exec_all (evidence_sql t old u) db) kind i = notices db kind i + of_bool (t_Notify t \<and> i = dr_incident u \<and> kind = ''alert'')"
proof -
  have n: "next_incident t old u = dr_incident u" "notice_kind t old = ''alert''" using assms by (simp_all add: next_incident_def notice_kind_def)
  obtain row where sql: "incident_sql t old u = [Insert_alert (dr_incident u) row]" "a_state row = ''active''"
    using assms by (simp add: incident_sql_def Let_def)
  show "is_active (exec_all (evidence_sql t old u) db) i \<longleftrightarrow> i = dr_incident u \<or> is_active db i"
    and "is_known (exec_all (evidence_sql t old u) db) i \<longleftrightarrow> i = dr_incident u \<or> is_known db i"
    and "notices (exec_all (evidence_sql t old u) db) kind i = notices db kind i + of_bool (t_Notify t \<and> i = dr_incident u \<and> kind = ''alert'')"
    by (simp_all add: evidence_sql_def sql notice_sql_def n exec_views del: exec_sql.simps)
qed

lemma evidence_updates:
  assumes "t_Action t = ''open''" and "c_IncidentID old \<noteq> []"
  shows "is_active (exec_all (evidence_sql t old u) db) i \<longleftrightarrow> is_active db i"
    and "is_known (exec_all (evidence_sql t old u) db) i \<longleftrightarrow> is_known db i"
    and "kind \<noteq> ''alert.escalated'' \<Longrightarrow> notices (exec_all (evidence_sql t old u) db) kind i = notices db kind i"
proof -
  have k: "notice_kind t old = [] \<or> notice_kind t old = ''alert.escalated''" using assms by (simp add: notice_kind_def)
  obtain sev msg ls now st nd where sql: "incident_sql t old u = [Update_alert (c_IncidentID old) sev msg ls now st nd]"
    using assms by (simp add: incident_sql_def Let_def)
  show "is_active (exec_all (evidence_sql t old u) db) i \<longleftrightarrow> is_active db i"
    and "is_known (exec_all (evidence_sql t old u) db) i \<longleftrightarrow> is_known db i"
    by (simp_all add: evidence_sql_def sql notice_sql_def exec_views del: exec_sql.simps)
  show "notices (exec_all (evidence_sql t old u) db) kind i = notices db kind i" if "kind \<noteq> ''alert.escalated''"
    using that k by (auto simp: evidence_sql_def sql notice_sql_def exec_views simp del: exec_sql.simps)
qed

lemma evidence_closes:
  assumes "closes t" and "c_IncidentID old \<noteq> []" and "is_known db (c_IncidentID old)"
  shows "is_active (exec_all (evidence_sql t old u) db) i \<longleftrightarrow> is_active db i \<and> i \<noteq> c_IncidentID old"
    and "is_known (exec_all (evidence_sql t old u) db) i \<longleftrightarrow> is_known db i"
    and "notices (exec_all (evidence_sql t old u) db) kind i =
      notices db kind i + of_bool (t_Notify t \<and> c_Notified old \<and> i = c_IncidentID old \<and> kind = ''alert.resolved'')"
proof -
  have a: "t_Action t \<noteq> ''open''" using assms(1) by (auto simp: closes_def)
  have n: "next_incident t old u = c_IncidentID old" "notice_kind t old = (if c_Notified old then ''alert.resolved'' else [])"
    using assms(1,2) a by (simp_all add: next_incident_def notice_kind_def)
  obtain now reason where sql: "incident_sql t old u = [Resolve_alert (c_IncidentID old) now reason, Resolve_notifications (c_IncidentID old) now]"
    using assms(1,2) a by (simp add: incident_sql_def Let_def)
  show "is_active (exec_all (evidence_sql t old u) db) i \<longleftrightarrow> is_active db i \<and> i \<noteq> c_IncidentID old"
    and "is_known (exec_all (evidence_sql t old u) db) i \<longleftrightarrow> is_known db i"
    and "notices (exec_all (evidence_sql t old u) db) kind i =
      notices db kind i + of_bool (t_Notify t \<and> c_Notified old \<and> i = c_IncidentID old \<and> kind = ''alert.resolved'')"
    using assms(3) by (simp_all add: evidence_sql_def sql notice_sql_def n exec_views del: exec_sql.simps)
qed

lemma evidence_keeps:
  assumes "t_Action t \<noteq> ''open''" and "\<not> (closes t \<and> c_IncidentID old \<noteq> [])"
  shows "is_active (exec_all (evidence_sql t old u) db) i \<longleftrightarrow> is_active db i"
    and "is_known (exec_all (evidence_sql t old u) db) i \<longleftrightarrow> is_known db i"
    and "notices (exec_all (evidence_sql t old u) db) kind i = notices db kind i"
proof -
  have "incident_sql t old u = []" "notice_kind t old = []" using assms by (auto simp: incident_sql_def notice_kind_def Let_def)
  then show "is_active (exec_all (evidence_sql t old u) db) i \<longleftrightarrow> is_active db i"
    and "is_known (exec_all (evidence_sql t old u) db) i \<longleftrightarrow> is_known db i"
    and "notices (exec_all (evidence_sql t old u) db) kind i = notices db kind i"
    by (simp_all add: evidence_sql_def notice_sql_def exec_views del: exec_sql.simps)
qed


subsection \<open>The invariant of the database\<close>

text \<open>A commit whose guard holds, at a check that is still what was read.\<close>

definition committed :: "transition \<Rightarrow> check \<Rightarrow> draws \<Rightarrow> monitor_db \<Rightarrow> monitor_db" where
  "committed t old u db =
     extra_evals t old u (exec_sql (Update_check (cr_CheckID (t_Result t)) (next_check t old u)) (exec_all (evidence_sql t old u) db))"

definition committable :: "transition \<Rightarrow> check \<Rightarrow> draws \<Rightarrow> monitor_db \<Rightarrow> bool" where
  "committable t old u db \<longleftrightarrow> fresh_draws db u \<and> in_step db \<and>
     (\<exists>row. d_checks db (cr_CheckID (t_Result t)) = Some row \<and> cw_check row = old \<and> cw_producer row = cr_Producer (t_Result t))"

lemma checks_after:
  "d_checks (committed t old u db) = (d_checks db)(cr_CheckID (t_Result t) :=
     map_option (\<lambda>row. row\<lparr>cw_check := next_check t old u, cw_version := cw_version row + 1\<rparr>) (d_checks db (cr_CheckID (t_Result t))))"
  using exec_all_keeps_versions [OF evidence_keeps_versions, of t old u db]
  by (simp add: committed_def extra_evals_def split: option.split prod.split)

lemma incident_after:
  "committable t old u db \<Longrightarrow> incident_of (committed t old u db) = (incident_of db)(cr_CheckID (t_Result t) := c_IncidentID (next_check t old u))"
  by (auto simp: incident_of_def checks_after committable_def fun_eq_iff)

lemma producer_after: "producer_of (committed t old u db) = producer_of db"
  by (auto simp: producer_of_def checks_after fun_eq_iff option.map_comp comp_def)

lemma notified_after:
  "committable t old u db \<Longrightarrow> is_notified (committed t old u db) = (is_notified db)(cr_CheckID (t_Result t) := c_Notified (next_check t old u))"
  by (auto simp: is_notified_def checks_after committable_def fun_eq_iff)

lemma others_after:
  "is_active (committed t old u db) i = is_active (exec_all (evidence_sql t old u) db) i"
  "is_known (committed t old u db) i = is_known (exec_all (evidence_sql t old u) db) i"
  "notices (committed t old u db) kind i = notices (exec_all (evidence_sql t old u) db) kind i"
  by (simp_all add: committed_def extra_evals_def is_active_def is_known_def notices_def split: option.split prod.split)

lemma before:
  assumes "committable t old u db"
  shows "incident_of db (cr_CheckID (t_Result t)) = c_IncidentID old" and "is_notified db (cr_CheckID (t_Result t)) = c_Notified old"
    and "producer_of db (cr_CheckID (t_Result t)) = Some (cr_Producer (t_Result t))"
  using assms by (auto simp: committable_def incident_of_def is_notified_def producer_of_def)

lemma fresh_incident:
  assumes "committable t old u db"
  shows "dr_incident u \<noteq> []" "\<not> is_active db (dr_incident u)" "\<not> is_known db (dr_incident u)" "notices db kind (dr_incident u) = 0"
  using assms by (auto simp: committable_def fresh_draws_def view_defs count_list_0_iff image_iff)

lemma incident_active: "in_step db \<Longrightarrow> incident_of db c \<noteq> [] \<Longrightarrow> is_active db (incident_of db c)"
  by (auto simp: in_step_def incidents_match_def bij_betw_def)

lemma active_known: "is_active db i \<Longrightarrow> is_known db i"
  by (simp add: is_active_def is_known_def split: option.splits)

text \<open>The same four ways, seen from the check and its incident.\<close>

lemma commit_cases:
  assumes c: "committable t old u db"
  obtains (opens) "c_IncidentID old = []" "c_IncidentID (next_check t old u) = dr_incident u" "\<And>i. is_active (committed t old u db) i = (i = dr_incident u \<or> is_active db i)"
      "\<And>i. is_known (committed t old u db) i = (i = dr_incident u \<or> is_known db i)"
      "\<And>kind i. notices (committed t old u db) kind i = notices db kind i + of_bool (t_Notify t \<and> i = dr_incident u \<and> kind = ''alert'')"
      "c_Notified (next_check t old u) = (c_Notified old \<or> t_Notify t)"
    | (closing) "c_IncidentID old \<noteq> []" "c_IncidentID (next_check t old u) = []" "\<And>i. is_active (committed t old u db) i = (is_active db i \<and> i \<noteq> c_IncidentID old)"
      "\<And>i. is_known (committed t old u db) i = is_known db i"
      "\<And>kind i. notices (committed t old u db) kind i =
        notices db kind i + of_bool (t_Notify t \<and> c_Notified old \<and> i = c_IncidentID old \<and> kind = ''alert.resolved'')"
    | (same) "c_IncidentID (next_check t old u) = c_IncidentID old" "\<And>i. is_active (committed t old u db) i = is_active db i"
      "\<And>i. is_known (committed t old u db) i = is_known db i"
      "\<And>kind i. kind \<noteq> ''alert.escalated'' \<Longrightarrow> notices (committed t old u db) kind i = notices db kind i"
      "c_IncidentID old \<noteq> [] \<Longrightarrow> c_Notified old \<Longrightarrow> c_Notified (next_check t old u)"
proof -
  consider (o) "t_Action t = ''open''" "c_IncidentID old = []" | (up) "t_Action t = ''open''" "c_IncidentID old \<noteq> []"
    | (cl) "closes t" "c_IncidentID old \<noteq> []" | (k) "t_Action t \<noteq> ''open''" "\<not> (closes t \<and> c_IncidentID old \<noteq> [])"
    by blast
  then show thesis
  proof cases
    case o
    have "\<not> closes t" "notice_kind t old \<noteq> []" using o by (auto simp: closes_def notice_kind_def)
    then show ?thesis using o by (intro opens) (simp_all add: others_after evidence_opens next_check_def next_incident_def)
  next
    case up
    have "\<not> closes t" using up by (auto simp: closes_def)
    then show ?thesis using up by (intro same) (simp_all add: others_after evidence_updates next_check_def next_incident_def)
  next
    case cl
    have "is_known db (c_IncidentID old)"
      using c cl before [OF c] incident_active [of db "cr_CheckID (t_Result t)"] active_known by (metis committable_def)
    then show ?thesis using cl by (intro closing) (simp_all add: others_after evidence_closes next_check_def)
  next
    case k
    then show ?thesis by (intro same) (auto simp: others_after evidence_keeps next_check_def next_incident_def)
  qed
qed

lemma incidents_after:
  assumes c: "committable t old u db"
  shows "incidents_match (committed t old u db)"
proof -
  let ?c = "cr_CheckID (t_Result t)" and ?C = "{c. incident_of db c \<noteq> []}" and ?db = "committed t old u db"
  have bij: "bij_betw (incident_of db) ?C {i. is_active db i}" using c by (auto simp: committable_def in_step_def incidents_match_def)
  show ?thesis using c
  proof (cases rule: commit_cases)
    case opens
    have now: "incident_of ?db = (incident_of db)(?c := dr_incident u)" "{i. is_active ?db i} = {i. is_active db i} \<union> {dr_incident u}"
      using opens by (auto simp: incident_after [OF c])
    have C: "{c. incident_of ?db c \<noteq> []} = ?C \<union> {?c}" "?c \<notin> ?C" using now fresh_incident [OF c] before [OF c] opens by auto
    have "\<And>a. a \<in> ?C \<Longrightarrow> incident_of ?db a = incident_of db a" using C(2) now(1) by auto
    then have "bij_betw (incident_of ?db) ?C {i. is_active db i}" using bij bij_betw_cong by blast
    then show ?thesis using fresh_incident(2) [OF c] now C notIn_Un_bij_betw [of ?c ?C "incident_of ?db" "{i. is_active db i}"]
      by (simp add: incidents_match_def)
  next
    case closing
    have now: "incident_of ?db = (incident_of db)(?c := [])" "{i. is_active ?db i} = {i. is_active db i} - {incident_of db ?c}"
      using closing before [OF c] by (auto simp: incident_after [OF c])
    have C: "{c. incident_of ?db c \<noteq> []} = ?C - {?c}" "?c \<in> ?C" using now before [OF c] closing by auto
    have rest: "bij_betw (incident_of db) (?C - {?c}) ({i. is_active db i} - {incident_of db ?c})"
      using bij_betw_DiffI [OF bij, of "{?c}" "{incident_of db ?c}"] C(2) c incident_active [of db ?c] by (auto simp: bij_betw_def committable_def)
    have "\<And>a. a \<in> ?C - {?c} \<Longrightarrow> incident_of ?db a = incident_of db a" using now(1) by auto
    then have "bij_betw (incident_of ?db) (?C - {?c}) ({i. is_active db i} - {incident_of db ?c})" using rest bij_betw_cong by blast
    then show ?thesis using now C by (simp add: incidents_match_def)
  next
    case same
    have "incident_of ?db = incident_of db" using same before [OF c] by (simp add: incident_after [OF c] fun_upd_idem)
    then show ?thesis using bij same by (simp add: incidents_match_def)
  qed
qed


lemma notices_after:
  assumes c: "committable t old u db" and notify: "cr_Producer (t_Result t) = ''metrics'' \<Longrightarrow> t_Notify t"
  shows "notices_match (committed t old u db)"
proof -
  let ?c = "cr_CheckID (t_Result t)" and ?db = "committed t old u db"
  have old: "is_known db i \<Longrightarrow> notices db ''alert'' i \<le> 1 \<and> notices db ''alert.resolved'' i \<le> of_bool (\<not> is_active db i)"
    "producer_of db c = Some ''metrics'' \<Longrightarrow> incident_of db c \<noteq> [] \<Longrightarrow> is_notified db c \<and> notices db ''alert'' (incident_of db c) = 1" for i c
    using c by (auto simp: committable_def in_step_def notices_match_def)
  have active: "incident_of db c \<noteq> [] \<Longrightarrow> is_active db (incident_of db c)" for c
    using c incident_active by (simp add: committable_def)
  show ?thesis using c
  proof (cases rule: commit_cases)
    case opens
    note fresh = fresh_incident [OF c]
    have "notices ?db ''alert'' i \<le> 1 \<and> notices ?db ''alert.resolved'' i \<le> of_bool (\<not> is_active ?db i)" if "is_known ?db i" for i
      using that old(1) [of i] opens(3-5) fresh by auto
    moreover have "is_notified ?db c \<and> notices ?db ''alert'' (incident_of ?db c) = 1" if "producer_of ?db c = Some ''metrics''" "incident_of ?db c \<noteq> []" for c
    proof (cases "c = ?c")
      case True
      then show ?thesis using that(1) notify before(3) [OF c] fresh(4) [of "''alert''"] opens
        by (simp add: incident_after [OF c] notified_after [OF c] producer_after)
    next
      case False
      then have "incident_of db c \<noteq> dr_incident u" using active [of c] fresh that(2) by (auto simp: incident_after [OF c])
      then show ?thesis using that False old(2) [of c] opens by (simp add: incident_after [OF c] notified_after [OF c] producer_after)
    qed
    ultimately show ?thesis by (simp add: notices_match_def)
  next
    case closing
    have j: "is_active db (c_IncidentID old)" using active [of ?c] before [OF c] closing by simp
    have "notices ?db ''alert'' i \<le> 1 \<and> notices ?db ''alert.resolved'' i \<le> of_bool (\<not> is_active ?db i)" if "is_known ?db i" for i
      using that old(1) [of i] j closing(3-5) by (cases "i = c_IncidentID old") auto
    moreover have "is_notified ?db c \<and> notices ?db ''alert'' (incident_of ?db c) = 1" if "producer_of ?db c = Some ''metrics''" "incident_of ?db c \<noteq> []" for c
      using that old(2) [of c] closing by (auto simp: incident_after [OF c] notified_after [OF c] producer_after split: if_splits)
    ultimately show ?thesis by (simp add: notices_match_def)
  next
    case same
    have "incident_of ?db = incident_of db" using same before [OF c] by (simp add: incident_after [OF c] fun_upd_idem)
    then show ?thesis using old same before [OF c] by (auto simp: notices_match_def notified_after [OF c] producer_after)
  qed
qed

text \<open>
  What \<open>save\<close> and the other producers hand to \<open>Record\<close>: the evaluator guards its check by its evaluation, updates exactly that
  evaluation with the incident, and notifies.
\<close>

definition proper :: "transition \<Rightarrow> bool" where
  "proper t \<longleftrightarrow> (if cr_Producer (t_Result t) = ''metrics'' then t_Notify t \<and>
       (\<exists>e v f. cr_CheckID (t_Result t) = ''metrics:'' @ e \<and> t_Guard t = Some (e, v) \<and> t_Extra t = Some f \<and> (\<forall>i. fst (f i) = e \<and> e_AlertID (snd (f i)) = i))
     else t_Guard t = None \<and> t_Extra t = None)"

lemma proper_save: "proper (save_transition fp rule old n now reason observer)"
  by (auto simp: proper_def save_transition_def save_result_def save_extra_def reset_timers_def Let_def)

lemma evaluations_after:
  assumes c: "committable t old u db" and p: "proper t"
  shows "evaluations_match (committed t old u db)"
proof (cases "cr_Producer (t_Result t) = ''metrics''")
  case True
  let ?db = "committed t old u db"
  obtain e v f where t: "cr_CheckID (t_Result t) = ''metrics:'' @ e" "t_Extra t = Some f" "\<And>i. fst (f i) = e \<and> e_AlertID (snd (f i)) = i"
    using p True by (auto simp: proper_def)
  obtain s where s: "f (c_IncidentID (next_check t old u)) = (e, s)" "e_AlertID s = c_IncidentID (next_check t old u)"
    using t(3) [of "c_IncidentID (next_check t old u)"] by (metis prod.collapse)
  have evals: "d_evals ?db = (d_evals db)(e := map_option (\<lambda>row. row\<lparr>ew_state := s, ew_version := ew_version row + 1\<rparr>) (d_evals db e))"
    using exec_all_keeps_versions [OF evidence_keeps_versions, of t old u db] t(2) s(1) by (simp add: committed_def extra_evals_def)
  have "producer_of ?db (''metrics:'' @ e') = Some ''metrics'' \<and> e_AlertID (ew_state row) = incident_of ?db (''metrics:'' @ e')"
    if "d_evals ?db e' = Some row" "ew_version row > 0" for e' row
  proof (cases "e' = e")
    case True
    then show ?thesis using that evals s(2) t(1) before(3) [OF c] \<open>cr_Producer (t_Result t) = ''metrics''\<close>
      by (auto simp: incident_after [OF c] producer_after)
  next
    case False
    then show ?thesis using that evals t(1) c by (simp add: incident_after [OF c] producer_after committable_def in_step_def evaluations_match_def)
  qed
  then show ?thesis by (simp add: evaluations_match_def)
next
  case False
  let ?db = "committed t old u db"
  have evals: "d_evals ?db = d_evals db" using p False exec_all_keeps_versions [OF evidence_keeps_versions, of t old u db]
    by (simp add: proper_def committed_def extra_evals_def)
  have foreign: "producer_of db (cr_CheckID (t_Result t)) \<noteq> Some ''metrics''" using before(3) [OF c] False by simp
  have "producer_of ?db c' = Some ''metrics'' \<and> e_AlertID (ew_state row) = incident_of ?db c'"
    if row: "d_evals ?db e' = Some row" "ew_version row > 0" and c': "c' = ''metrics:'' @ e'" for e' row c'
  proof -
    have "producer_of db c' = Some ''metrics''" "e_AlertID (ew_state row) = incident_of db c'"
      using row evals c unfolding c' committable_def in_step_def evaluations_match_def by auto
    then show ?thesis using foreign by (auto simp: incident_after [OF c] producer_after)
  qed
  then show ?thesis by (simp add: evaluations_match_def)
qed

lemma commit_in_step: "committable t old u db \<Longrightarrow> proper t \<Longrightarrow> in_step (committed t old u db)"
  unfolding in_step_def [of "committed t old u db"]
  by (intro conjI incidents_after evaluations_after notices_after) (auto simp: proper_def)


subsection \<open>The other statements\<close>

lemma in_step_views:
  assumes "in_step db" and "incident_of db' = incident_of db" and "\<And>c. producer_of db c \<noteq> None \<Longrightarrow> producer_of db' c = producer_of db c"
    and "is_notified db' = is_notified db" and "is_active db' = is_active db" and "is_known db' = is_known db" and "notices db' = notices db"
    and "\<And>e row. d_evals db' e = Some row \<Longrightarrow> ew_version row > 0 \<Longrightarrow> d_evals db e = Some row"
  shows "in_step db'"
proof -
  have evals: "evaluations_match db'"
    unfolding evaluations_match_def
  proof (intro allI impI)
    fix e row assume row: "d_evals db' e = Some row" "ew_version row > 0"
    have "producer_of db (''metrics:'' @ e) = Some ''metrics''" "e_AlertID (ew_state row) = incident_of db (''metrics:'' @ e)"
      using assms(1,8) row unfolding in_step_def evaluations_match_def by auto
    then show "producer_of db' (''metrics:'' @ e) = Some ''metrics'' \<and> e_AlertID (ew_state row) = incident_of db' (''metrics:'' @ e)"
      using assms(2) assms(3) [of "''metrics:'' @ e"] by (simp only: option.simps) simp
  qed
  have owned: "producer_of db c = Some ''metrics''" if "producer_of db' c = Some ''metrics''" "incident_of db c \<noteq> []" for c
    using that assms(3) [of c] by (auto simp: incident_of_def producer_of_def split: option.splits)
  have "incidents_match db'" "notices_match db'"
    using assms(1,2,4-7) owned by (auto simp: in_step_def incidents_match_def notices_match_def)
  then show ?thesis using evals by (simp add: in_step_def)
qed

lemma insert_eval_in_step: "in_step db \<Longrightarrow> in_step (insert_or_ignore_eval e r db)"
  by (erule in_step_views) (auto simp: insert_or_ignore_eval_def view_defs fun_eq_iff split: option.splits if_splits)

lemma insert_check_in_step: "in_step db \<Longrightarrow> in_step (insert_or_ignore_check c p db)"
  by (erule in_step_views) (auto simp: insert_or_ignore_check_def zero_check_def view_defs fun_eq_iff split: option.splits if_splits)

lemma delete_eval_in_step: "in_step db \<Longrightarrow> in_step (delete_eval old db)"
  by (erule in_step_views) (auto simp: delete_eval_def view_defs fun_eq_iff split: option.splits if_splits)

lemma silence_in_step: "in_step db \<Longrightarrow> in_step (handleSilenceAlert i deadline db)"
  by (erule in_step_views) (auto simp: handleSilenceAlert_def view_defs fun_eq_iff split: option.splits if_splits)

lemma in_step_notifications: "in_step db \<Longrightarrow> in_step (db\<lparr>d_notifications := ns\<rparr>)"
  by (erule in_step_views) (simp_all add: view_defs fun_eq_iff)

lemma notification_in_step:
  "in_step db \<Longrightarrow> in_step (handleCreateNotification uuid now n db)" "in_step db \<Longrightarrow> in_step (updateNotification i state deadline now db)"
  "in_step db \<Longrightarrow> in_step (handleDeleteNotification i db)" "in_step db \<Longrightarrow> in_step (notify_Cleanup now db)"
  unfolding handleCreateNotification_def notify_Create_def updateNotification_def handleDeleteNotification_def notify_Cleanup_def
  by (auto intro: in_step_notifications)

lemma delete_alert_in_step:
  assumes "in_step db"
  shows "in_step (handleDeleteAlert i db)"
proof (cases "is_resolved db i")
  case True
  let ?db = "handleDeleteAlert i db"
  have idle: "\<not> is_active db i" using True by (auto simp: is_resolved_def is_active_def split: option.splits)
  have views: "incident_of ?db = incident_of db" "producer_of ?db = producer_of db" "is_notified ?db = is_notified db" "d_evals ?db = d_evals db"
    "is_known ?db j = (is_known db j \<and> j \<noteq> i)" "notices ?db kind j = notices db kind j" for j kind
    using True by (auto simp: handleDeleteAlert_def view_defs fun_eq_iff)
  have active: "is_active ?db = is_active db" using True idle by (auto simp: handleDeleteAlert_def is_active_def fun_eq_iff)
  have "notices_match ?db"
    using assms idle views(1-3,5,6) incident_active [OF assms] active unfolding notices_match_def in_step_def by metis
  then show ?thesis using assms by (simp add: in_step_def incidents_match_def evaluations_match_def views active)
qed (simp add: handleDeleteAlert_def assms)

subsection \<open>Versions identify what was read\<close>

definition db_advances :: "monitor_db \<Rightarrow> monitor_db \<Rightarrow> bool" where
  "db_advances db db' \<longleftrightarrow> (\<forall>c row. d_checks db c = Some row \<longrightarrow>
     (\<exists>row'. d_checks db' c = Some row' \<and> cw_producer row' = cw_producer row \<and> (row' = row \<or> cw_version row < cw_version row')))"

definition still_read :: "monitor_db \<Rightarrow> transition \<Rightarrow> check \<Rightarrow> nat \<Rightarrow> bool" where
  "still_read db t old v \<longleftrightarrow> (\<exists>row. d_checks db (cr_CheckID (t_Result t)) = Some row \<and> cw_producer row = cr_Producer (t_Result t) \<and>
     v \<le> cw_version row \<and> (cw_version row = v \<longrightarrow> cw_check row = old))"

lemma still_read_advances: "still_read db t old v \<Longrightarrow> db_advances db db' \<Longrightarrow> still_read db' t old v"
  unfolding still_read_def db_advances_def by fastforce

lemma db_advances_same: "d_checks db' = d_checks db \<Longrightarrow> db_advances db db'"
  by (simp add: db_advances_def)

lemma advances [simp]:
  "db_advances db db" "db_advances db (insert_or_ignore_eval e r db)" "db_advances db (insert_or_ignore_check c p db)"
  "db_advances db (delete_eval old db)" "db_advances db (handleDeleteAlert i db)" "db_advances db (handleSilenceAlert i d db)"
  "db_advances db (committed t ch u db)" "db_advances db (handleCreateNotification uuid now n db)" "db_advances db (updateNotification i state until now db)"
  "db_advances db (handleDeleteNotification i db)" "db_advances db (notify_Cleanup now db)"
  by (auto simp: handleCreateNotification_def notify_Create_def updateNotification_def handleDeleteNotification_def notify_Cleanup_def db_advances_def insert_or_ignore_eval_def insert_or_ignore_check_def delete_eval_def handleDeleteAlert_def handleSilenceAlert_def checks_after split: option.split)

fun session_ok :: "monitor_db \<Rightarrow> phase \<Rightarrow> bool" where
  "session_ok db (Recording t) = proper t"
| "session_ok db (Reading t k) = proper t"
| "session_ok db (Planned t k old v) = (proper t \<and> still_read db t old v)"
| "session_ok db _ = True"

lemma session_ok_advances: "session_ok db ph \<Longrightarrow> db_advances db db' \<Longrightarrow> session_ok db' ph"
  by (cases ph) (auto intro: still_read_advances)

definition system_ok :: "system \<Rightarrow> bool" where
  "system_ok s \<longleftrightarrow> in_step (sy_db s) \<and> (\<forall>n. session_ok (sy_db s) (sy_sessions s n))"

lemma system_ok_session:
  assumes "system_ok s" and "in_step (f (sy_db s))" and "db_advances (sy_db s) (f (sy_db s))" and "session_ok (f (sy_db s)) ph"
  shows "system_ok (session n ph f s)"
  using assms session_ok_advances by (auto simp: system_ok_def session_def)

lemma system_ok_db: "system_ok s \<Longrightarrow> in_step db \<Longrightarrow> db_advances (sy_db s) db \<Longrightarrow> system_ok (s\<lparr>sy_db := db\<rparr>)"
  using session_ok_advances by (auto simp: system_ok_def)

lemma commit_alt:
  assumes "still_read db t old v" and "fresh_draws db u" and "in_step db"
  shows "commit t v old u db = db \<or> committable t old u db \<and> commit t v old u db = committed t old u db"
  using assms by (auto simp: commit_effect committed_def committable_def still_read_def record_guard_def)

lemma system_ok_step:
  assumes "monitor_step fp h s s'" and "system_ok s"
  shows "system_ok s'"
  using assms
proof cases
  case (commit n t k old v u)
  have ok: "in_step (sy_db s)" "proper t" "still_read (sy_db s) t old v"
    using assms(2) commit(2) unfolding system_ok_def by (metis session_ok.simps(3))+
  have "in_step (commit t v old u (sy_db s)) \<and> db_advances (sy_db s) (commit t v old u (sy_db s))"
    using commit_alt [OF ok(3) commit(3) ok(1)] commit_in_step [OF _ ok(2)] ok(1) by fastforce
  moreover have "session_ok db (after_commit t k u db')" for db db' using ok(2) by (simp add: after_commit_def)
  ultimately show ?thesis using assms(2) by (simp add: commit(1) system_ok_session)
next
  case (read_check n t k row)
  have "proper t" using assms(2) read_check(2) unfolding system_ok_def by (metis session_ok.simps(2))
  moreover have "still_read (sy_db s) t (cw_check row) (cw_version row)" using read_check by (simp add: still_read_def)
  ultimately show ?thesis using assms(2) read_check(1) by (simp add: system_ok_session system_ok_def [of s])
next
  case (produce t n)
  then show ?thesis using assms(2) by (simp add: system_ok_session system_ok_def [of s] proper_def)
next
  case (delete_alert i)
  then show ?thesis using assms(2) system_ok_db [OF assms(2)] delete_alert_in_step by (simp add: system_ok_def [of s])
next
  case (silence_alert i deadline)
  then show ?thesis using assms(2) system_ok_db [OF assms(2)] silence_in_step by (simp add: system_ok_def [of s])
next
  case (create_notification uuid now n)
  then show ?thesis using assms(2) system_ok_db [OF assms(2)] notification_in_step(1) by (simp add: system_ok_def [of s])
next
  case (read_notification i now)
  then show ?thesis using assms(2) system_ok_db [OF assms(2)] notification_in_step(2) by (simp add: system_ok_def [of s] handleReadNotification_def)
next
  case (resolve_notification i now)
  then show ?thesis using assms(2) system_ok_db [OF assms(2)] notification_in_step(2) by (simp add: system_ok_def [of s] handleResolveNotification_def)
next
  case (silence_notification i until now)
  then show ?thesis using assms(2) system_ok_db [OF assms(2)] notification_in_step(2) by (simp add: system_ok_def [of s] handleSilenceNotification_def)
next
  case (delete_notification i)
  then show ?thesis using assms(2) system_ok_db [OF assms(2)] notification_in_step(3) by (simp add: system_ok_def [of s])
next
  case (cleanup now)
  then show ?thesis using assms(2) system_ok_db [OF assms(2)] notification_in_step(4) by (simp add: system_ok_def [of s])
next
  case (insert_check n t)
  have "proper t" using assms(2) insert_check(2) unfolding system_ok_def by (metis session_ok.simps(1))
  then show ?thesis using assms(2) insert_check(1) by (simp add: system_ok_session system_ok_def [of s] insert_check_in_step)
qed (use assms(2) in \<open>simp_all add: system_ok_session system_ok_def [of s] proper_save insert_eval_in_step delete_eval_in_step\<close>)


lemma system_ok_start: "system_ok start"
  by (auto simp: system_ok_def start_def empty_db_def in_step_def incidents_match_def evaluations_match_def notices_match_def view_defs bij_betw_def)

lemma reachable_system_ok: "reachable fp h s \<Longrightarrow> system_ok s"
  by (induction rule: reachable.induct) (auto intro: system_ok_start system_ok_step)

text \<open>
  C13. However evaluators and the other producers of checks interleave, fail and retry, and whatever users and the daily cleanup do to
  alerts and notifications meanwhile, checks, incidents and evaluations stay in step: the checks with an incident correspond one to one to
  the active alerts; every evaluation that was saved names exactly the incident of its check; of the alerts that still exist, none was
  announced twice, reported closed twice, or reported closed while active; and every active incident of the evaluator was announced
  once. (What was announced is what \<open>Record\<close> stored as a notification, whether or not the row was deleted since.)\<close>

theorem incidents_stay_in_step: "reachable fp h s \<Longrightarrow> in_step (sy_db s)"
  using reachable_system_ok by (simp add: system_ok_def)

subsection \<open>An instance that recovers\<close>

definition sample_stored :: stored where
  "sample_stored = \<lparr>st_ID = ''cpu'', st_Version = 3, st_State = zero_state\<lparr>e_AlertID := ''a'', e_Status := ''firing'', e_LastObserved := 1000, e_LastEvaluated := 1000\<rparr>\<rparr>"

definition recovered_at :: "int \<Rightarrow> save_input" where
  "recovered_at t = Evaluated sample_rule (Some \<lparr>ob_Labels = Map.empty, ob_Value = 0, ob_At = t, ob_Firing = False, ob_Recovered = True\<rparr>) None t ''a''"

theorem resolution_needs_sustained_recovery_witness:
  "\<exists>pre p post. [recovered_at 1030, recovered_at 1060] @ [recovered_at 1090] = pre @ p # post \<and> 60 \<le> 1090 - save_time p \<and>
    begins_recovery (runs (saved sample_fp r_ID ''n1'') pre sample_stored) p \<and>
    unbroken (saved sample_fp r_ID ''n1'') (recovery_goes_on r_ID) (runs (saved sample_fp r_ID ''n1'') (pre @ [p]) sample_stored) post"
proof -
  have 1: "e_RecoverySince (st_State sample_stored) = 0" by (simp add: sample_stored_def zero_state_def)
  have 2: "e_Status (st_State (runs (saved sample_fp r_ID ''n1'') [recovered_at 1030, recovered_at 1060] sample_stored)) \<noteq> ''resolved''"
    and 3: "e_Status (st_State (runs (saved sample_fp r_ID ''n1'') ([recovered_at 1030, recovered_at 1060] @ [recovered_at 1090]) sample_stored)) = ''resolved''"
    by (simp_all add: recovered_at_def saves_def save_transition_def save_extra_def save_action_def save_decision_def removed_reason_def tick_next_def
        save_result_def save_id_def sample_stored_def sample_defs)
  show ?thesis
    using resolution_needs_sustained_recovery [OF 1 2 3] by (simp add: recovered_at_def sample_rule_def)
qed

subsection \<open>A session that opens an incident\<close>

definition sample_firing :: observation where
  "sample_firing = \<lparr>ob_Labels = Map.empty, ob_Value = 1, ob_At = 990, ob_Firing = True, ob_Recovered = False\<rparr>"

definition sample_transition :: transition where
  "sample_transition = (let rule = sample_rule\<lparr>r_For := 0\<rparr> in
     save_transition sample_fp rule no_stored (tick_next r_ID rule no_stored (Some sample_firing) None 1000) 1000 [] ''n1'')"

definition sample_draws :: draws where
  "sample_draws = \<lparr>dr_incident = ''i1'', dr_notification = ''n1'', dr_observation = ''o1''\<rparr>"

definition sample_planned :: system where
  "sample_planned = session 0 (Planned sample_transition 0 zero_check 0) (\<lambda>db. db)
     (session 0 (Reading sample_transition 0) (insert_or_ignore_check ''metrics:cpu'' ''metrics'')
       (session 0 (Recording sample_transition) (insert_or_ignore_eval ''cpu'' ''cpu'') (session 0 (Loaded no_stored) (\<lambda>db. db) start)))"

definition sample_open :: system where
  "sample_open = session 0 (after_commit sample_transition 0 sample_draws (commit sample_transition 0 zero_check sample_draws (sy_db sample_planned)))
     (commit sample_transition 0 zero_check sample_draws) sample_planned"

lemmas sample_save_defs = save_transition_def save_id_def instanceID_def sample_fp_def save_result_def save_status_def save_decision_def save_action_def
  save_severity_def removed_reason_def tick_next_def no_stored_def sample_firing_def

lemma sample_transition_fields:
  "cr_CheckID (t_Result sample_transition) = ''metrics:cpu''" "cr_Producer (t_Result sample_transition) = ''metrics''"
  "t_Guard sample_transition = Some (''cpu'', 0)" "t_Action sample_transition = ''open''" "cr_EvaluatedAt (t_Result sample_transition) = 1000"
  "cr_ObservedAt (t_Result sample_transition) = 990"
  by (simp_all add: sample_transition_def sample_save_defs sample_defs)

lemma sample_transition_valid: "Record_validate sample_transition = None"
  by (simp add: Record_validate_def sample_transition_def sample_save_defs sample_defs)

lemma sample_reachable: "reachable sample_fp r_ID sample_open"
proof -
  let ?rule = "sample_rule\<lparr>r_For := 0\<rparr>"
  let ?n = "tick_next r_ID ?rule no_stored (Some sample_firing) None 1000"
  let ?s1 = "session 0 (Loaded no_stored) (\<lambda>db. db) start"
  let ?s2 = "session 0 (Recording sample_transition) (insert_or_ignore_eval ''cpu'' ''cpu'') ?s1"
  let ?s3 = "session 0 (Reading sample_transition 0) (insert_or_ignore_check ''metrics:cpu'' ''metrics'') ?s2"
  have s1: "reachable sample_fp r_ID ?s1" by (rule reachable.step [OF reachable.start monitor_step.load_none])
  have "monitor_step sample_fp r_ID ?s1 ?s2"
    using monitor_step.evaluate [of ?s1 0 no_stored ?rule 1000 ?n r_ID "Some sample_firing" None sample_fp "''n1''"]
    by (simp add: session_def sample_transition_def save_skips_def save_id_def instanceID_def sample_fp_def no_stored_def zero_state_def sample_rule_def Let_def)
  with s1 have s2: "reachable sample_fp r_ID ?s2" by (rule reachable.step)
  have "monitor_step sample_fp r_ID ?s2 ?s3"
    using monitor_step.insert_check [of ?s2 0 sample_transition sample_fp r_ID] sample_transition_valid sample_transition_fields by (simp add: session_def)
  with s2 have s3: "reachable sample_fp r_ID ?s3" by (rule reachable.step)
  have "monitor_step sample_fp r_ID ?s3 sample_planned"
    using monitor_step.read_check [of ?s3 0 sample_transition 0 "\<lparr>cw_producer = ''metrics'', cw_check = zero_check, cw_version = 0\<rparr>" sample_fp r_ID] sample_transition_fields
    by (simp add: sample_planned_def session_def start_def empty_db_def insert_or_ignore_check_def insert_or_ignore_eval_def maxAttempts_def outdated_def zero_check_def no_result_def Let_def)
  with s3 have s4: "reachable sample_fp r_ID sample_planned" by (rule reachable.step)
  have "monitor_step sample_fp r_ID sample_planned sample_open"
    unfolding sample_open_def by (rule monitor_step.commit)
      (simp_all add: sample_planned_def session_def start_def empty_db_def insert_or_ignore_check_def insert_or_ignore_eval_def fresh_draws_def sample_draws_def)
  with s4 show ?thesis by (rule reachable.step)
qed

lemma sample_open_active: "is_active (sy_db sample_open) ''i1''"
proof -
  let ?db = "sy_db sample_planned"
  have "fresh_draws ?db sample_draws" "guard_holds ?db (record_guard sample_transition 0)"
    by (simp_all add: sample_planned_def session_def start_def empty_db_def insert_or_ignore_check_def insert_or_ignore_eval_def fresh_draws_def sample_draws_def
        record_guard_def sample_transition_fields)
  then have "sy_db sample_open = committed sample_transition zero_check sample_draws ?db"
    by (simp add: sample_open_def session_def commit_effect committed_def)
  then show ?thesis by (simp add: others_after evidence_opens sample_transition_fields zero_check_def sample_draws_def)
qed

theorem incidents_stay_in_step_witness: "reachable sample_fp r_ID sample_open \<and> is_active (sy_db sample_open) ''i1'' \<and> in_step (sy_db sample_open)"
  using sample_reachable sample_open_active incidents_stay_in_step by blast

end
