(* ===== verification/Update_Fence.thy ===== *)
theory Update_Fence
  imports Prelude
begin

text \<open>
  The fence that quiets a host before a management update snapshots it. \<open>Fence\<close> (\<open>internal/managementupdate/linux.go\<close>) writes
  the file \<open>blocked\<close>, waits until the control process acknowledges with \<open>controllers-drained\<close> and \<open>api-drained\<close>, and drains the
  mutations of hostd. On the other side are the middleware and the supervisor of the API (\<open>internal/control/update_fence.go\<close>),
  the supervisor of the controllers (\<open>cmd/floatlab-control/update_runtime.go\<close>) and the dispatcher of hostd
  (\<open>internal/hostd/update_fence.go\<close>). The trial of an operating system uses the same file: it starts blocked, \<open>Supervise\<close>
  (\<open>internal/hostupgrade/manager.go\<close>) unblocks it when it is healthy, and a rollback fences it again.

  The processes share files and counters and run interleaved, one access at a time. A file access may fail; the control
  process may die and start at any time.
\<close>

section \<open>Files\<close>

text \<open>What reading (or stat) of a file returns; \<open>err == nil || !os.IsNotExist(err)\<close> counts as blocked.\<close>

datatype file_read = Missing | Content string | Unreadable

definition reads :: "string option \<Rightarrow> file_read \<Rightarrow> bool" where
  "reads f r \<longleftrightarrow> r = Unreadable \<or> r = (case f of None \<Rightarrow> Missing | Some c \<Rightarrow> Content c)"

definition is_blocked :: "file_read \<Rightarrow> bool" where
  "is_blocked r \<longleftrightarrow> r \<noteq> Missing"

definition content :: "file_read \<Rightarrow> string" where
  "content r = (case r of Content c \<Rightarrow> c | _ \<Rightarrow> [])"

text \<open>\<open>os.WriteFile\<close> truncates, then writes: it can fail before, between or not at all. \<open>os.Remove\<close> can fail.\<close>

definition writes :: "string option \<Rightarrow> string \<Rightarrow> string option \<Rightarrow> bool" where
  "writes f c f' \<longleftrightarrow> f' = f \<or> f' = Some [] \<or> f' = Some c"

definition removes :: "string option \<Rightarrow> string option \<Rightarrow> bool" where
  "removes f f' \<longleftrightarrow> f' = f \<or> f' = None"

section \<open>The middleware of the API\<close>

definition starts_with :: "string \<Rightarrow> string \<Rightarrow> bool" where
  "starts_with p s \<longleftrightarrow> take (length p) s = p"

definition contains :: "string \<Rightarrow> string \<Rightarrow> bool" where
  "contains p s \<longleftrightarrow> list_ex (\<lambda>n. starts_with p (drop n s)) [0..<Suc (length s)]"

definition is_read :: "string \<Rightarrow> bool" where
  "is_read verb \<longleftrightarrow> verb = ''GET'' \<or> verb = ''HEAD'' \<or> verb = ''OPTIONS''"

definition is_recovery :: "string \<Rightarrow> bool" where
  "is_recovery path \<longleftrightarrow> path = ''/api/v1/auth/token'' \<or> starts_with ''/api/v1/nodes/'' path \<and> contains ''/updates/'' path"

text \<open>The requests that count in \<open>activeManagementMutations\<close>, and the error a request gets instead of its handler.\<close>

definition is_mutation :: "string \<Rightarrow> string \<Rightarrow> bool" where
  "is_mutation verb path \<longleftrightarrow> \<not> is_read verb \<and> \<not> is_recovery path"

record fence_env =
  env_directory :: string
  env_preflight :: bool

definition updateMutationFence :: "fence_env \<Rightarrow> string \<Rightarrow> string \<Rightarrow> file_read \<Rightarrow> error" where
  "updateMutationFence env verb path stat =
     (if env_preflight env \<and> \<not> is_read verb \<and> path \<noteq> ''/api/v1/auth/token'' then Some ''update.preflight''
      else if env_directory env \<noteq> [] \<and> is_mutation verb path \<and> is_blocked stat then Some ''update.maintenance''
      else None)"

section \<open>The processes and their shared state\<close>

text \<open>
  A mutation of the API is counted, then checked, then served or rejected, and leaves. A mutation of hostd holds the mutex while
  it looks for the file and is counted, then runs.
\<close>

datatype request = No_request | Counted string string | Serving | Rejected

datatype command = No_command | Locked | Passed | Running

text \<open>
  The two supervisors: where the loop is, what its iteration read, and whether it holds the \<open>cancel\<close> of a background job. The token
  is what it will write to its marker.
\<close>

datatype api_pc = A_read | A_stop | A_load | A_write | A_remove | A_launch

datatype ctl_pc = C_stat | C_stop | C_token | C_write | C_remove | C_launch | C_token2 | C_write2

record 'pc supervisor =
  sv_pc :: 'pc
  sv_blocked :: bool
  sv_token :: string
  sv_running :: bool

text \<open>
  How far the operation is that holds the update lock, and its \<open>Fence\<close>. \<open>Released\<close>: none of them holds the lock. \<open>Starting\<close>: \<open>Recover\<close> has
  blocked the host for a trial. \<open>Clearing\<close>: a rollback has saved its journal and comes to \<open>TrialStop\<close>.
\<close>

datatype fence_pc =
    Released
  | Starting string
  | Clearing string
  | Remove_controllers string
  | Remove_api string
  | Block string
  | Find_control string
  | Await_controllers string
  | Await_api string
  | Quiesce string
  | Drained string
  | Stopping string

text \<open>What the journal of the host update says of a trial, and where \<open>Supervise\<close> is, with what it read of the journal.\<close>

datatype trial_journal = No_trial | On_trial | Trial_ready | Trial_recovering | Trial_committed

datatype watch_pc = W_off | W_wait | W_health trial_journal | W_unblock | W_tell | W_over

record fence_state =
  f_blocked :: "string option"
  f_controllers_drained :: "string option"
  f_api_drained :: "string option"
  f_control :: bool
  f_requests :: "nat \<Rightarrow> request"
  f_active :: int
  f_api :: "api_pc supervisor"
  f_evaluator :: bool
  f_ctl :: "ctl_pc supervisor"
  f_controllers :: bool
  f_commands :: "nat \<Rightarrow> command"
  f_mutex :: "nat option"
  f_mutations :: int
  f_pc :: fence_pc
  f_tokens :: "string set"
  f_journal :: trial_journal
  f_trial :: string
  f_watch :: watch_pc
  f_alone :: bool

text \<open>
  A control process that starts. Two fields only record the past: \<open>f_tokens\<close> the operations that blocked the host so far, and \<open>f_alone\<close>
  that the fence under way belongs to an operation that had never blocked it, and began while no trial was supervised.
\<close>

definition api_start :: "api_pc supervisor" where
  "api_start = \<lparr>sv_pc = A_read, sv_blocked = False, sv_token = [], sv_running = False\<rparr>"

definition ctl_start :: "ctl_pc supervisor" where
  "ctl_start = \<lparr>sv_pc = C_stat, sv_blocked = False, sv_token = [], sv_running = False\<rparr>"

definition fence_start :: fence_state where
  "fence_start = \<lparr>f_blocked = None, f_controllers_drained = None, f_api_drained = None, f_control = False, f_requests = (\<lambda>_. No_request),
     f_active = 0, f_api = api_start, f_evaluator = False, f_ctl = ctl_start, f_controllers = False, f_commands = (\<lambda>_. No_command),
     f_mutex = None, f_mutations = 0, f_pc = Released, f_tokens = {[]}, f_journal = No_trial, f_trial = [],
     f_watch = W_off, f_alone = False\<rparr>"

subsection \<open>Requests\<close>

inductive request_step :: "fence_env \<Rightarrow> fence_state \<Rightarrow> fence_state \<Rightarrow> bool" for env where
  request_enter: "f_control s \<Longrightarrow> f_requests s r = No_request \<Longrightarrow> is_mutation verb path \<Longrightarrow>
    request_step env s (s\<lparr>f_requests := (f_requests s)(r := Counted verb path), f_active := f_active s + 1\<rparr>)"
| request_check: "f_requests s r = Counted verb path \<Longrightarrow> reads (f_blocked s) stat \<Longrightarrow>
    request_step env s (s\<lparr>f_requests := (f_requests s)(r := (if updateMutationFence env verb path stat = None then Serving else Rejected))\<rparr>)"
| request_leave: "f_requests s r = Serving \<or> f_requests s r = Rejected \<Longrightarrow>
    request_step env s (s\<lparr>f_requests := (f_requests s)(r := No_request), f_active := f_active s - 1\<rparr>)"

subsection \<open>The supervisor of the API\<close>

text \<open>One iteration of \<open>runUpdateBackground\<close>; its job is the alert evaluator, which ends some time after it is cancelled.\<close>

definition api_blocked :: "fence_env \<Rightarrow> file_read \<Rightarrow> bool" where
  "api_blocked env r \<longleftrightarrow> env_preflight env \<or> env_directory env \<noteq> [] \<and> is_blocked r"

definition api_acknowledges :: "api_pc supervisor \<Rightarrow> int \<Rightarrow> bool" where
  "api_acknowledges a active \<longleftrightarrow> sv_blocked a \<and> sv_token a \<noteq> [] \<and> active = 0"

inductive api_step :: "fence_env \<Rightarrow> fence_state \<Rightarrow> fence_state \<Rightarrow> bool" for env where
  api_read: "f_control s \<Longrightarrow> sv_pc (f_api s) = A_read \<Longrightarrow> reads (f_blocked s) r \<Longrightarrow>
    api_step env s (s\<lparr>f_api := (f_api s)\<lparr>sv_pc := A_stop, sv_blocked := api_blocked env r, sv_token := (if env_directory env \<noteq> [] then content r else [])\<rparr>\<rparr>)"
| api_stop: "sv_pc (f_api s) = A_stop \<Longrightarrow> sv_blocked (f_api s) \<Longrightarrow> sv_running (f_api s) \<Longrightarrow> \<not> f_evaluator s \<Longrightarrow>
    api_step env s (s\<lparr>f_api := (f_api s)\<lparr>sv_pc := A_load, sv_running := False\<rparr>\<rparr>)"
| api_no_stop: "sv_pc (f_api s) = A_stop \<Longrightarrow> \<not> (sv_blocked (f_api s) \<and> sv_running (f_api s)) \<Longrightarrow>
    api_step env s (s\<lparr>f_api := (f_api s)\<lparr>sv_pc := A_load\<rparr>\<rparr>)"
| api_load: "sv_pc (f_api s) = A_load \<Longrightarrow> env_directory env \<noteq> [] \<Longrightarrow>
    api_step env s (s\<lparr>f_api := (f_api s)\<lparr>sv_pc := (if api_acknowledges (f_api s) (f_active s) then A_write else A_remove)\<rparr>\<rparr>)"
| api_no_directory: "sv_pc (f_api s) = A_load \<Longrightarrow> env_directory env = [] \<Longrightarrow> api_step env s (s\<lparr>f_api := (f_api s)\<lparr>sv_pc := A_launch\<rparr>\<rparr>)"
| api_write: "sv_pc (f_api s) = A_write \<Longrightarrow> writes (f_api_drained s) (sv_token (f_api s)) f \<Longrightarrow>
    api_step env s (s\<lparr>f_api_drained := f, f_api := (f_api s)\<lparr>sv_pc := A_launch\<rparr>\<rparr>)"
| api_remove: "sv_pc (f_api s) = A_remove \<Longrightarrow> removes (f_api_drained s) f \<Longrightarrow>
    api_step env s (s\<lparr>f_api_drained := f, f_api := (f_api s)\<lparr>sv_pc := A_launch\<rparr>\<rparr>)"
| api_launch: "sv_pc (f_api s) = A_launch \<Longrightarrow> \<not> sv_blocked (f_api s) \<and> \<not> sv_running (f_api s) \<Longrightarrow>
    api_step env s (s\<lparr>f_evaluator := True, f_api := (f_api s)\<lparr>sv_pc := A_read, sv_running := True\<rparr>\<rparr>)"
| api_no_launch: "sv_pc (f_api s) = A_launch \<Longrightarrow> sv_blocked (f_api s) \<or> sv_running (f_api s) \<Longrightarrow>
    api_step env s (s\<lparr>f_api := (f_api s)\<lparr>sv_pc := A_read\<rparr>\<rparr>)"
| evaluator_ends: "api_step env s (s\<lparr>f_evaluator := False\<rparr>)"

subsection \<open>The supervisor of the controllers\<close>

text \<open>One iteration of \<open>superviseControllers\<close>. The token is read (\<open>blockedToken\<close>) just before it is written.\<close>

inductive ctl_step :: "fence_env \<Rightarrow> fence_state \<Rightarrow> fence_state \<Rightarrow> bool" for env where
  ctl_stat: "f_control s \<Longrightarrow> sv_pc (f_ctl s) = C_stat \<Longrightarrow> reads (f_blocked s) r \<Longrightarrow> blocked = (env_directory env \<noteq> [] \<and> is_blocked r) \<Longrightarrow>
    ctl_step env s (s\<lparr>f_ctl := (f_ctl s)\<lparr>sv_blocked := blocked, sv_pc := (if blocked \<and> sv_running (f_ctl s) then C_stop
      else if blocked then C_token2 else if sv_running (f_ctl s) then C_stat else C_remove)\<rparr>\<rparr>)"
| ctl_stop: "sv_pc (f_ctl s) = C_stop \<Longrightarrow> \<not> f_controllers s \<Longrightarrow> ctl_step env s (s\<lparr>f_ctl := (f_ctl s)\<lparr>sv_pc := C_token, sv_running := False\<rparr>\<rparr>)"
| ctl_token: "sv_pc (f_ctl s) = C_token \<Longrightarrow> reads (f_blocked s) r \<Longrightarrow> ctl_step env s (s\<lparr>f_ctl := (f_ctl s)\<lparr>sv_pc := C_write, sv_token := content r\<rparr>\<rparr>)"
| ctl_write: "sv_pc (f_ctl s) = C_write \<Longrightarrow> writes (f_controllers_drained s) (sv_token (f_ctl s)) f \<Longrightarrow>
    ctl_step env s (s\<lparr>f_controllers_drained := f, f_ctl := (f_ctl s)\<lparr>sv_pc := C_token2\<rparr>\<rparr>)"
| ctl_remove: "sv_pc (f_ctl s) = C_remove \<Longrightarrow> (if env_directory env \<noteq> [] then removes (f_controllers_drained s) f else f = f_controllers_drained s) \<Longrightarrow>
    ctl_step env s (s\<lparr>f_controllers_drained := f, f_ctl := (f_ctl s)\<lparr>sv_pc := C_launch\<rparr>\<rparr>)"
| ctl_launch: "sv_pc (f_ctl s) = C_launch \<Longrightarrow> ctl_step env s (s\<lparr>f_controllers := True, f_ctl := (f_ctl s)\<lparr>sv_pc := C_stat, sv_running := True\<rparr>\<rparr>)"
| ctl_token2: "sv_pc (f_ctl s) = C_token2 \<Longrightarrow> reads (f_blocked s) r \<Longrightarrow> ctl_step env s (s\<lparr>f_ctl := (f_ctl s)\<lparr>sv_pc := C_write2, sv_token := content r\<rparr>\<rparr>)"
| ctl_write2: "sv_pc (f_ctl s) = C_write2 \<Longrightarrow> writes (f_controllers_drained s) (sv_token (f_ctl s)) f \<Longrightarrow>
    ctl_step env s (s\<lparr>f_controllers_drained := f, f_ctl := (f_ctl s)\<lparr>sv_pc := C_stat\<rparr>\<rparr>)"
| controllers_end: "ctl_step env s (s\<lparr>f_controllers := False\<rparr>)"

subsection \<open>Life of the processes\<close>

inductive process_step :: "fence_state \<Rightarrow> fence_state \<Rightarrow> bool" where
  control_starts: "\<not> f_control s \<Longrightarrow> process_step s (s\<lparr>f_control := True\<rparr>)"
| control_dies: "process_step s (s\<lparr>f_control := False, f_requests := (\<lambda>_. No_request), f_active := 0, f_api := api_start, f_evaluator := False,
    f_ctl := ctl_start, f_controllers := False\<rparr>)"
| hostd_dies: "process_step s (s\<lparr>f_commands := (\<lambda>_. No_command), f_mutex := None, f_mutations := 0, f_pc := Released, f_watch := W_off\<rparr>)"
| host_reboots: "process_step s (fence_start\<lparr>f_tokens := f_tokens s, f_journal := f_journal s, f_trial := f_trial s\<rparr>)"

subsection \<open>The dispatcher of hostd\<close>

text \<open>The commands that never wait for the fence.\<close>

definition readCommands :: "string list" where
  "readCommands = [''sys.info'', ''sys.version'', ''sys.docker.events'', ''docker.list'', ''fs.pool.list'', ''fs.pool.health'', ''fs.dataset.list'',
     ''fs.snapshot.list'', ''net.config.status'']"

inductive host_step :: "fence_state \<Rightarrow> fence_state \<Rightarrow> bool" where
  host_lock: "name \<notin> set readCommands \<Longrightarrow> f_commands s c = No_command \<Longrightarrow> f_mutex s = None \<Longrightarrow> host_step s (s\<lparr>f_commands := (f_commands s)(c := Locked), f_mutex := Some c\<rparr>)"
| host_refuse: "f_commands s c = Locked \<Longrightarrow> reads (f_blocked s) r \<Longrightarrow> is_blocked r \<Longrightarrow>
    host_step s (s\<lparr>f_commands := (f_commands s)(c := No_command), f_mutex := None\<rparr>)"
| host_pass: "f_commands s c = Locked \<Longrightarrow> reads (f_blocked s) r \<Longrightarrow> \<not> is_blocked r \<Longrightarrow> host_step s (s\<lparr>f_commands := (f_commands s)(c := Passed)\<rparr>)"
| host_admit: "f_commands s c = Passed \<Longrightarrow> host_step s (s\<lparr>f_commands := (f_commands s)(c := Running), f_mutations := f_mutations s + 1, f_mutex := None\<rparr>)"
| host_done: "f_commands s c = Running \<Longrightarrow> f_mutex s = None \<Longrightarrow> host_step s (s\<lparr>f_commands := (f_commands s)(c := No_command), f_mutations := f_mutations s - 1\<rparr>)"

subsection \<open>The fence\<close>

text \<open>
  The fence of a new update, or of the checkpoint before a trial: its operation never blocked the host before. \<open>Start\<close> and \<open>Activate\<close> find
  no trial in the journal of the host. After the drain \<open>suppressAndStop\<close> writes \<open>blocked\<close> once more and stops the containers; \<open>Authorize\<close>
  unblocks the host. The parameter says whether \<open>docker ps\<close> may fail in \<open>controlID\<close>, which then reports no control container.
\<close>

inductive fence_step :: "bool \<Rightarrow> fence_state \<Rightarrow> fence_state \<Rightarrow> bool" for docker_fails where
  fence_begin: "f_pc s = Released \<Longrightarrow> opid \<notin> f_tokens s \<Longrightarrow> f_journal s \<in> {No_trial, Trial_committed} \<Longrightarrow>
    fence_step docker_fails s (s\<lparr>f_pc := Remove_controllers opid, f_alone := (f_watch s \<in> {W_off, W_over})\<rparr>)"
| fence_remove_controllers: "f_pc s = Remove_controllers opid \<Longrightarrow> fence_step docker_fails s (s\<lparr>f_controllers_drained := None, f_pc := Remove_api opid\<rparr>)"
| fence_remove_api: "f_pc s = Remove_api opid \<Longrightarrow> fence_step docker_fails s (s\<lparr>f_api_drained := None, f_pc := Block opid\<rparr>)"
| fence_block: "f_pc s = Block opid \<Longrightarrow> fence_step docker_fails s (s\<lparr>f_blocked := Some opid, f_tokens := insert opid (f_tokens s), f_pc := Find_control opid\<rparr>)"
| fence_block_error: "f_pc s = Block opid \<Longrightarrow> fence_step docker_fails s (s\<lparr>f_blocked := Some opid, f_tokens := insert opid (f_tokens s), f_pc := Released\<rparr>)"
| fence_no_control: "f_pc s = Find_control opid \<Longrightarrow> \<not> f_control s \<or> docker_fails \<Longrightarrow> fence_step docker_fails s (s\<lparr>f_pc := Quiesce opid\<rparr>)"
| fence_control: "f_pc s = Find_control opid \<Longrightarrow> fence_step docker_fails s (s\<lparr>f_pc := Await_controllers opid\<rparr>)"
| fence_controllers: "f_pc s = Await_controllers opid \<Longrightarrow> f_controllers_drained s = Some opid \<Longrightarrow> fence_step docker_fails s (s\<lparr>f_pc := Await_api opid\<rparr>)"
| fence_api: "f_pc s = Await_api opid \<Longrightarrow> f_api_drained s = Some opid \<Longrightarrow> fence_step docker_fails s (s\<lparr>f_pc := Quiesce opid\<rparr>)"
| fence_again: "f_pc s = Await_api opid \<Longrightarrow> fence_step docker_fails s (s\<lparr>f_pc := Await_controllers opid\<rparr>)"
| fence_quiesce: "f_pc s = Quiesce opid \<Longrightarrow> f_mutex s = None \<Longrightarrow> f_mutations s = 0 \<Longrightarrow> fence_step docker_fails s (s\<lparr>f_pc := Drained opid\<rparr>)"
| fence_stop: "f_pc s = Drained opid \<Longrightarrow> fence_step docker_fails s (s\<lparr>f_blocked := Some opid, f_tokens := insert opid (f_tokens s), f_pc := Stopping opid\<rparr>)"
| fence_gives_up: "fence_step docker_fails s (s\<lparr>f_pc := Released\<rparr>)"
| fence_unblock: "fence_step docker_fails s (s\<lparr>f_blocked := None, f_pc := Released\<rparr>)"

subsection \<open>The trial of an operating system\<close>

text \<open>
  \<open>Recover\<close> blocks the host under the operation of the trial and saves the journal (\<open>StartCheckpointTrial\<close>); a rollback saves its journal
  and fences that same operation (\<open>StopCheckpoint\<close>); a commit saves its journal. All hold the update lock.
\<close>

inductive trial_step :: "fence_state \<Rightarrow> fence_state \<Rightarrow> bool" where
  trial_blocks: "f_pc s = Released \<Longrightarrow> opid \<noteq> [] \<Longrightarrow> f_journal s = No_trial \<or> f_journal s \<in> {On_trial, Trial_ready} \<and> opid = f_trial s \<Longrightarrow>
    trial_step s (s\<lparr>f_blocked := Some opid, f_tokens := insert opid (f_tokens s), f_pc := Starting opid, f_alone := False\<rparr>)"
| trial_starts: "f_pc s = Starting opid \<Longrightarrow>
    trial_step s (s\<lparr>f_journal := (if f_journal s = Trial_ready then Trial_ready else On_trial), f_trial := opid, f_pc := Released\<rparr>)"
| trial_rolls_back: "f_pc s = Released \<Longrightarrow> f_journal s \<in> {On_trial, Trial_ready, Trial_recovering} \<Longrightarrow>
    trial_step s (s\<lparr>f_journal := Trial_recovering, f_pc := Clearing (f_trial s), f_alone := False\<rparr>)"
| trial_fences: "f_pc s = Clearing opid \<Longrightarrow> trial_step s (s\<lparr>f_pc := Remove_controllers opid\<rparr>)"
| trial_commits: "f_pc s = Released \<Longrightarrow> f_journal s = Trial_ready \<Longrightarrow> trial_step s (s\<lparr>f_journal := Trial_committed\<rparr>)"
| trial_ends: "f_pc s = Released \<Longrightarrow> f_journal s \<in> {Trial_recovering, Trial_committed} \<Longrightarrow> trial_step s (s\<lparr>f_journal := No_trial\<rparr>)"

text \<open>
  \<open>Supervise\<close>, one access at a time. It reads the journal, checks the health of the host for at least a minute, saves \<open>ready\<close> under the
  update lock (where it reads the journal again, but goes on whatever that says), and then calls \<open>TrialReady\<close> without the lock, which removes
  \<open>blocked\<close> (\<open>ActivateCheckpointControllers\<close>). An error ends it; a lock that is taken sends it back to wait.
\<close>

inductive watch_step :: "fence_state \<Rightarrow> fence_state \<Rightarrow> bool" where
  watch_begins: "f_watch s = W_off \<Longrightarrow> f_journal s \<in> {On_trial, Trial_ready} \<Longrightarrow> watch_step s (s\<lparr>f_watch := W_wait\<rparr>)"
| watch_reads: "f_watch s = W_wait \<Longrightarrow> f_journal s \<notin> {Trial_recovering, Trial_committed} \<Longrightarrow> watch_step s (s\<lparr>f_watch := W_health (f_journal s)\<rparr>)"
| watch_ends: "f_watch s = W_wait \<Longrightarrow> f_journal s \<in> {Trial_recovering, Trial_committed} \<Longrightarrow> watch_step s (s\<lparr>f_watch := W_over\<rparr>)"
| watch_again: "f_watch s = W_health j \<Longrightarrow> watch_step s (s\<lparr>f_watch := W_wait\<rparr>)"
| watch_ready: "f_watch s = W_health Trial_ready \<Longrightarrow> watch_step s (s\<lparr>f_watch := W_unblock\<rparr>)"
| watch_saves: "f_watch s = W_health j \<Longrightarrow> j \<noteq> Trial_ready \<Longrightarrow> f_pc s = Released \<Longrightarrow>
    watch_step s (s\<lparr>f_journal := (if f_journal s = On_trial then Trial_ready else f_journal s), f_watch := W_unblock\<rparr>)"
| watch_unblocks: "f_watch s = W_unblock \<Longrightarrow> watch_step s (s\<lparr>f_blocked := None, f_watch := W_tell\<rparr>)"
| watch_tells: "f_watch s = W_tell \<Longrightarrow> watch_step s (s\<lparr>f_watch := W_wait\<rparr>)"
| watch_fails: "f_watch s \<noteq> W_off \<Longrightarrow> watch_step s (s\<lparr>f_watch := W_over\<rparr>)"

inductive reachable_fence :: "fence_env \<Rightarrow> bool \<Rightarrow> fence_state \<Rightarrow> bool" for env d where
  fence_starts: "reachable_fence env d fence_start"
| fence_request: "reachable_fence env d s \<Longrightarrow> request_step env s s' \<Longrightarrow> reachable_fence env d s'"
| fence_supervise: "reachable_fence env d s \<Longrightarrow> api_step env s s' \<Longrightarrow> reachable_fence env d s'"
| fence_controls: "reachable_fence env d s \<Longrightarrow> ctl_step env s s' \<Longrightarrow> reachable_fence env d s'"
| fence_process: "reachable_fence env d s \<Longrightarrow> process_step s s' \<Longrightarrow> reachable_fence env d s'"
| fence_host: "reachable_fence env d s \<Longrightarrow> host_step s s' \<Longrightarrow> reachable_fence env d s'"
| fence_fences: "reachable_fence env d s \<Longrightarrow> fence_step d s s' \<Longrightarrow> reachable_fence env d s'"
| fence_tries: "reachable_fence env d s \<Longrightarrow> trial_step s s' \<Longrightarrow> reachable_fence env d s'"
| fence_watches: "reachable_fence env d s \<Longrightarrow> watch_step s s' \<Longrightarrow> reachable_fence env d s'"


section \<open>Counters and loops\<close>













text \<open>What the two loops know where they are.\<close>

definition api_ok :: "api_pc supervisor \<Rightarrow> bool \<Rightarrow> bool" where
  "api_ok a evaluator \<longleftrightarrow> (evaluator \<longrightarrow> sv_running a) \<and> (sv_pc a \<noteq> A_read \<and> sv_pc a \<noteq> A_stop \<and> sv_blocked a \<longrightarrow> \<not> sv_running a) \<and>
     (sv_pc a \<noteq> A_read \<and> sv_token a \<noteq> [] \<longrightarrow> sv_blocked a) \<and> (sv_pc a = A_write \<longrightarrow> sv_token a \<noteq> [])"

definition ctl_ok :: "ctl_pc supervisor \<Rightarrow> bool \<Rightarrow> bool" where
  "ctl_ok c controllers \<longleftrightarrow> (controllers \<longrightarrow> sv_running c) \<and> (sv_pc c = C_stop \<longrightarrow> sv_blocked c) \<and>
     (sv_pc c \<in> {C_token, C_write, C_token2, C_write2} \<longrightarrow> sv_blocked c \<and> \<not> sv_running c) \<and>
     (sv_pc c \<in> {C_remove, C_launch} \<longrightarrow> \<not> sv_running c \<and> \<not> sv_blocked c)"



lemma start_ok [simp]: "api_ok api_start e = (\<not> e)" "ctl_ok ctl_start e = (\<not> e)" "sv_pc api_start = A_read" "sv_pc ctl_start = C_stat"
  by (auto simp: api_ok_def ctl_ok_def api_start_def ctl_start_def)


















section \<open>Operations name their fence\<close>
























section \<open>Quiet under a block\<close>

























section \<open>What a passed fence means\<close>

definition mutations_stopped :: "fence_state \<Rightarrow> bool" where
  "mutations_stopped s \<longleftrightarrow> (\<forall>r. f_requests s r \<noteq> Serving) \<and> \<not> f_evaluator s \<and> \<not> f_controllers s \<and> (\<forall>c. f_commands s c \<noteq> Running)"



subsection \<open>A fence that passes\<close>

definition sample_env :: fence_env where
  "sample_env = \<lparr>env_directory = ''/run/floatlab/activation'', env_preflight = False\<rparr>"

abbreviation idle :: "nat \<Rightarrow> request" where
  "idle \<equiv> (\<lambda>_. No_request)"

text \<open>A control process that is up, with the trial, the files, the supervisors and the fence as given.\<close>

definition fence_at :: "trial_journal \<times> string \<times> watch_pc \<times> bool \<Rightarrow> string set \<Rightarrow> string option \<Rightarrow> string option \<Rightarrow> string option \<Rightarrow>
    api_pc supervisor \<Rightarrow> ctl_pc supervisor \<Rightarrow> (nat \<Rightarrow> request) \<Rightarrow> int \<Rightarrow> fence_pc \<Rightarrow> fence_state" where
  "fence_at x known b c a api ctl reqs n pc = \<lparr>f_blocked = b, f_controllers_drained = c, f_api_drained = a, f_control = True, f_requests = reqs,
     f_active = n, f_api = api, f_evaluator = False, f_ctl = ctl, f_controllers = False, f_commands = (\<lambda>_. No_command),
     f_mutex = None, f_mutations = 0, f_pc = pc, f_tokens = known, f_journal = fst x, f_trial = fst (snd x), f_watch = fst (snd (snd x)),
     f_alone = snd (snd (snd x))\<rparr>"

definition sv :: "'pc \<Rightarrow> 'pc supervisor" where
  "sv pc = \<lparr>sv_pc = pc, sv_blocked = True, sv_token = ''u1'', sv_running = False\<rparr>"

lemmas fence_sample_defs = fence_at_def fence_start_def sv_def api_start_def ctl_start_def sample_env_def reads_def writes_def is_blocked_def content_def
  api_blocked_def api_acknowledges_def is_mutation_def is_read_def is_recovery_def starts_with_def contains_def updateMutationFence_def insert_commute

text \<open>The two supervisors acknowledge the operation \<open>u1\<close>, and no mutation of hostd runs.\<close>

lemma sample_drained:
  assumes "reachable_fence sample_env d (fence_at x {[], ''u1''} (Some ''u1'') None None api_start ctl_start idle 0 (Await_controllers ''u1''))"
  shows "reachable_fence sample_env d (fence_at x {[], ''u1''} (Some ''u1'') (Some ''u1'') (Some ''u1'') (sv A_launch) (sv C_stat) idle 0 (Drained ''u1''))"
proof -
  let ?s0 = "fence_at x {[], ''u1''} (Some ''u1'') None None api_start ctl_start idle 0 (Await_controllers ''u1'')"
  let ?s1 = "fence_at x {[], ''u1''} (Some ''u1'') None None api_start (\<lparr>sv_pc = C_token2, sv_blocked = True, sv_token = [], sv_running = False\<rparr>) idle 0 (Await_controllers ''u1'')"
  let ?s2 = "fence_at x {[], ''u1''} (Some ''u1'') None None api_start (sv C_write2) idle 0 (Await_controllers ''u1'')"
  let ?s3 = "fence_at x {[], ''u1''} (Some ''u1'') (Some ''u1'') None api_start (sv C_stat) idle 0 (Await_controllers ''u1'')"
  let ?s4 = "fence_at x {[], ''u1''} (Some ''u1'') (Some ''u1'') None api_start (sv C_stat) idle 0 (Await_api ''u1'')"
  let ?s5 = "fence_at x {[], ''u1''} (Some ''u1'') (Some ''u1'') None (sv A_stop) (sv C_stat) idle 0 (Await_api ''u1'')"
  let ?s6 = "fence_at x {[], ''u1''} (Some ''u1'') (Some ''u1'') None (sv A_load) (sv C_stat) idle 0 (Await_api ''u1'')"
  let ?s7 = "fence_at x {[], ''u1''} (Some ''u1'') (Some ''u1'') None (sv A_write) (sv C_stat) idle 0 (Await_api ''u1'')"
  let ?s8 = "fence_at x {[], ''u1''} (Some ''u1'') (Some ''u1'') (Some ''u1'') (sv A_launch) (sv C_stat) idle 0 (Await_api ''u1'')"
  let ?s9 = "fence_at x {[], ''u1''} (Some ''u1'') (Some ''u1'') (Some ''u1'') (sv A_launch) (sv C_stat) idle 0 (Quiesce ''u1'')"
  let ?s10 = "fence_at x {[], ''u1''} (Some ''u1'') (Some ''u1'') (Some ''u1'') (sv A_launch) (sv C_stat) idle 0 (Drained ''u1'')"
  have r0: "reachable_fence sample_env d ?s0" by (rule assms)
  have "ctl_step sample_env ?s0 ?s1" using ctl_stat [of ?s0 "Content ''u1''" True sample_env] by (simp add: fence_sample_defs)
  with r0 have r1: "reachable_fence sample_env d ?s1" by (rule fence_controls)
  have "ctl_step sample_env ?s1 ?s2" using ctl_token2 [of ?s1 "Content ''u1''" sample_env] by (simp add: fence_sample_defs)
  with r1 have r2: "reachable_fence sample_env d ?s2" by (rule fence_controls)
  have "ctl_step sample_env ?s2 ?s3" using ctl_write2 [of ?s2 "Some ''u1''" sample_env] by (simp add: fence_sample_defs)
  with r2 have r3: "reachable_fence sample_env d ?s3" by (rule fence_controls)
  have "fence_step d ?s3 ?s4" using fence_controllers [of ?s3 "''u1''" d] by (simp add: fence_sample_defs)
  with r3 have r4: "reachable_fence sample_env d ?s4" by (rule fence_fences)
  have "api_step sample_env ?s4 ?s5" using api_read [of ?s4 "Content ''u1''" sample_env] by (simp add: fence_sample_defs)
  with r4 have r5: "reachable_fence sample_env d ?s5" by (rule fence_supervise)
  have "api_step sample_env ?s5 ?s6" using api_no_stop [of ?s5 sample_env] by (simp add: fence_sample_defs)
  with r5 have r6: "reachable_fence sample_env d ?s6" by (rule fence_supervise)
  have "api_step sample_env ?s6 ?s7" using api_load [of ?s6 sample_env] by (simp add: fence_sample_defs)
  with r6 have r7: "reachable_fence sample_env d ?s7" by (rule fence_supervise)
  have "api_step sample_env ?s7 ?s8" using api_write [of ?s7 "Some ''u1''" sample_env] by (simp add: fence_sample_defs)
  with r7 have r8: "reachable_fence sample_env d ?s8" by (rule fence_supervise)
  have "fence_step d ?s8 ?s9" using fence_api [of ?s8 "''u1''" d] by (simp add: fence_sample_defs)
  with r8 have r9: "reachable_fence sample_env d ?s9" by (rule fence_fences)
  have "fence_step d ?s9 ?s10" using fence_quiesce [of ?s9 "''u1''" d] by (simp add: fence_sample_defs)
  with r9 show ?thesis by (rule fence_fences)
qed




subsection \<open>Two ways to disturb the fence\<close>

text \<open>A trial is supervised, and found healthy; as \<open>Supervise\<close> has given back the lock, a rollback fences the trial.\<close>

lemma sample_rollback: "reachable_fence sample_env d (fence_at (Trial_recovering, ''u1'', W_unblock, False) {[], ''u1''} (Some ''u1'') None None api_start ctl_start idle 0 (Await_controllers ''u1''))"
proof -
  let ?s0 = "fence_start"
  let ?s1 = "fence_start\<lparr>f_blocked := Some ''u1'', f_tokens := {[], ''u1''}, f_pc := Starting ''u1''\<rparr>"
  let ?s2 = "fence_start\<lparr>f_blocked := Some ''u1'', f_tokens := {[], ''u1''}, f_journal := On_trial, f_trial := ''u1''\<rparr>"
  let ?s3 = "fence_at (On_trial, ''u1'', W_off, False) {[], ''u1''} (Some ''u1'') None None api_start ctl_start idle 0 Released"
  let ?s4 = "fence_at (On_trial, ''u1'', W_wait, False) {[], ''u1''} (Some ''u1'') None None api_start ctl_start idle 0 Released"
  let ?s5 = "fence_at (On_trial, ''u1'', (W_health On_trial), False) {[], ''u1''} (Some ''u1'') None None api_start ctl_start idle 0 Released"
  let ?s6 = "fence_at (Trial_ready, ''u1'', W_unblock, False) {[], ''u1''} (Some ''u1'') None None api_start ctl_start idle 0 Released"
  let ?s7 = "fence_at (Trial_recovering, ''u1'', W_unblock, False) {[], ''u1''} (Some ''u1'') None None api_start ctl_start idle 0 (Clearing ''u1'')"
  let ?s8 = "fence_at (Trial_recovering, ''u1'', W_unblock, False) {[], ''u1''} (Some ''u1'') None None api_start ctl_start idle 0 (Remove_controllers ''u1'')"
  let ?s9 = "fence_at (Trial_recovering, ''u1'', W_unblock, False) {[], ''u1''} (Some ''u1'') None None api_start ctl_start idle 0 (Remove_api ''u1'')"
  let ?s10 = "fence_at (Trial_recovering, ''u1'', W_unblock, False) {[], ''u1''} (Some ''u1'') None None api_start ctl_start idle 0 (Block ''u1'')"
  let ?s11 = "fence_at (Trial_recovering, ''u1'', W_unblock, False) {[], ''u1''} (Some ''u1'') None None api_start ctl_start idle 0 (Find_control ''u1'')"
  let ?s12 = "fence_at (Trial_recovering, ''u1'', W_unblock, False) {[], ''u1''} (Some ''u1'') None None api_start ctl_start idle 0 (Await_controllers ''u1'')"
  have r0: "reachable_fence sample_env d ?s0" by (rule fence_starts)
  have "trial_step ?s0 ?s1" using trial_blocks [of ?s0 "''u1''"] by (simp add: fence_sample_defs)
  with r0 have r1: "reachable_fence sample_env d ?s1" by (rule fence_tries)
  have "trial_step ?s1 ?s2" using trial_starts [of ?s1 "''u1''"] by (simp add: fence_sample_defs)
  with r1 have r2: "reachable_fence sample_env d ?s2" by (rule fence_tries)
  have "process_step ?s2 ?s3" using control_starts [of ?s2] by (simp add: fence_sample_defs)
  with r2 have r3: "reachable_fence sample_env d ?s3" by (rule fence_process)
  have "watch_step ?s3 ?s4" using watch_begins [of ?s3] by (simp add: fence_sample_defs)
  with r3 have r4: "reachable_fence sample_env d ?s4" by (rule fence_watches)
  have "watch_step ?s4 ?s5" using watch_reads [of ?s4] by (simp add: fence_sample_defs)
  with r4 have r5: "reachable_fence sample_env d ?s5" by (rule fence_watches)
  have "watch_step ?s5 ?s6" using watch_saves [of ?s5 On_trial] by (simp add: fence_sample_defs)
  with r5 have r6: "reachable_fence sample_env d ?s6" by (rule fence_watches)
  have "trial_step ?s6 ?s7" using trial_rolls_back [of ?s6] by (simp add: fence_sample_defs)
  with r6 have r7: "reachable_fence sample_env d ?s7" by (rule fence_tries)
  have "trial_step ?s7 ?s8" using trial_fences [of ?s7 "''u1''"] by (simp add: fence_sample_defs)
  with r7 have r8: "reachable_fence sample_env d ?s8" by (rule fence_tries)
  have "fence_step d ?s8 ?s9" using fence_remove_controllers [of ?s8 "''u1''" d] by (simp add: fence_sample_defs)
  with r8 have r9: "reachable_fence sample_env d ?s9" by (rule fence_fences)
  have "fence_step d ?s9 ?s10" using fence_remove_api [of ?s9 "''u1''" d] by (simp add: fence_sample_defs)
  with r9 have r10: "reachable_fence sample_env d ?s10" by (rule fence_fences)
  have "fence_step d ?s10 ?s11" using fence_block [of ?s10 "''u1''" d] by (simp add: fence_sample_defs)
  with r10 have r11: "reachable_fence sample_env d ?s11" by (rule fence_fences)
  have "fence_step d ?s11 ?s12" using fence_control [of ?s11 "''u1''" d] by (simp add: fence_sample_defs)
  with r11 show ?thesis by (rule fence_fences)
qed

text \<open>
  C34. The supervision of a trial removes \<open>blocked\<close> behind a fence. \<open>Supervise\<close> calls \<open>TrialReady\<close> without the update lock and without looking at
  the journal again. So there is a run, with \<open>docker ps\<close> answering, in which a rollback holds the lock and has drained its fence (no mutation is
  under way), the heartbeat removes \<open>blocked\<close>, a request is admitted, and the rollback goes on to stop the containers while that mutation is
  served.\<close>

theorem heartbeat_breaks_the_fence:
  "\<exists>s s1 s2 s3 opid. reachable_fence sample_env False s \<and> f_pc s = Drained opid \<and> f_blocked s = Some opid \<and> mutations_stopped s \<and>
     f_journal s = Trial_recovering \<and> f_trial s = opid \<and> watch_step s s1 \<and> f_blocked s1 = None \<and> (request_step sample_env)\<^sup>*\<^sup>* s1 s2 \<and>
     fence_step False s2 s3 \<and> f_pc s3 = Stopping opid \<and> \<not> mutations_stopped s3"
proof (intro exI conjI)
  let ?s = "fence_at (Trial_recovering, ''u1'', W_unblock, False) {[], ''u1''} (Some ''u1'') (Some ''u1'') (Some ''u1'') (sv A_launch) (sv C_stat) idle 0 (Drained ''u1'')"
  let ?s1 = "fence_at (Trial_recovering, ''u1'', W_tell, False) {[], ''u1''} None (Some ''u1'') (Some ''u1'') (sv A_launch) (sv C_stat) idle 0 (Drained ''u1'')"
  let ?c = "fence_at (Trial_recovering, ''u1'', W_tell, False) {[], ''u1''} None (Some ''u1'') (Some ''u1'') (sv A_launch) (sv C_stat) (idle(0 := Counted ''POST'' ''/api/v1/stacks'')) 1 (Drained ''u1'')"
  let ?s2 = "fence_at (Trial_recovering, ''u1'', W_tell, False) {[], ''u1''} None (Some ''u1'') (Some ''u1'') (sv A_launch) (sv C_stat) (idle(0 := Serving)) 1 (Drained ''u1'')"
  let ?s3 = "fence_at (Trial_recovering, ''u1'', W_tell, False) {[], ''u1''} (Some ''u1'') (Some ''u1'') (Some ''u1'') (sv A_launch) (sv C_stat) (idle(0 := Serving)) 1 (Stopping ''u1'')"
  show "reachable_fence sample_env False ?s" by (rule sample_drained [OF sample_rollback])
  show "watch_step ?s ?s1" using watch_unblocks [of ?s] by (simp add: fence_sample_defs)
  have "request_step sample_env ?s1 ?c" using request_enter [of ?s1 0 "''POST''" "''/api/v1/stacks''" sample_env] by (simp add: fence_sample_defs)
  moreover have "request_step sample_env ?c ?s2" using request_check [of ?c 0 "''POST''" "''/api/v1/stacks''" Missing sample_env] by (simp add: fence_sample_defs)
  ultimately show "(request_step sample_env)\<^sup>*\<^sup>* ?s1 ?s2" by (rule converse_rtranclp_into_rtranclp [OF _ r_into_rtranclp])
  show "fence_step False ?s2 ?s3" using fence_stop [of ?s2 "''u1''" False] by (simp add: fence_sample_defs)
  show "mutations_stopped ?s" "\<not> mutations_stopped ?s3" by (auto simp: fence_at_def mutations_stopped_def)
qed (simp_all add: fence_at_def)

text \<open>A failing \<open>docker ps\<close> lets the fence pass while a request is served: \<open>controlID\<close> drops the error and the fence does not wait at all.\<close>

theorem failing_docker_skips_the_drain:
  "\<exists>s opid. reachable_fence sample_env True s \<and> f_alone s \<and> f_pc s = Stopping opid \<and> \<not> mutations_stopped s"
proof -
  let ?s0 = "fence_start"
  let ?s1 = "fence_at (No_trial, [], W_off, False) {[]} None None None api_start ctl_start idle 0 Released"
  let ?s2 = "fence_at (No_trial, [], W_off, False) {[]} None None None api_start ctl_start (idle(0 := Counted ''POST'' ''/api/v1/stacks'')) 1 Released"
  let ?s3 = "fence_at (No_trial, [], W_off, False) {[]} None None None api_start ctl_start (idle(0 := Serving)) 1 Released"
  let ?s4 = "fence_at (No_trial, [], W_off, True) {[]} None None None api_start ctl_start (idle(0 := Serving)) 1 (Remove_controllers ''u1'')"
  let ?s5 = "fence_at (No_trial, [], W_off, True) {[]} None None None api_start ctl_start (idle(0 := Serving)) 1 (Remove_api ''u1'')"
  let ?s6 = "fence_at (No_trial, [], W_off, True) {[]} None None None api_start ctl_start (idle(0 := Serving)) 1 (Block ''u1'')"
  let ?s7 = "fence_at (No_trial, [], W_off, True) {[], ''u1''} (Some ''u1'') None None api_start ctl_start (idle(0 := Serving)) 1 (Find_control ''u1'')"
  let ?s8 = "fence_at (No_trial, [], W_off, True) {[], ''u1''} (Some ''u1'') None None api_start ctl_start (idle(0 := Serving)) 1 (Quiesce ''u1'')"
  let ?s9 = "fence_at (No_trial, [], W_off, True) {[], ''u1''} (Some ''u1'') None None api_start ctl_start (idle(0 := Serving)) 1 (Drained ''u1'')"
  let ?s10 = "fence_at (No_trial, [], W_off, True) {[], ''u1''} (Some ''u1'') None None api_start ctl_start (idle(0 := Serving)) 1 (Stopping ''u1'')"
  have r0: "reachable_fence sample_env True ?s0" by (rule fence_starts)
  have "process_step ?s0 ?s1" using control_starts [of ?s0] by (simp add: fence_sample_defs)
  with r0 have r1: "reachable_fence sample_env True ?s1" by (rule fence_process)
  have "request_step sample_env ?s1 ?s2" using request_enter [of ?s1 0 "''POST''" "''/api/v1/stacks''" sample_env] by (simp add: fence_sample_defs)
  with r1 have r2: "reachable_fence sample_env True ?s2" by (rule fence_request)
  have "request_step sample_env ?s2 ?s3" using request_check [of ?s2 0 "''POST''" "''/api/v1/stacks''" Missing sample_env] by (simp add: fence_sample_defs)
  with r2 have r3: "reachable_fence sample_env True ?s3" by (rule fence_request)
  have "fence_step True ?s3 ?s4" using fence_begin [of ?s3 "''u1''" True] by (simp add: fence_sample_defs)
  with r3 have r4: "reachable_fence sample_env True ?s4" by (rule fence_fences)
  have "fence_step True ?s4 ?s5" using fence_remove_controllers [of ?s4 "''u1''" True] by (simp add: fence_sample_defs)
  with r4 have r5: "reachable_fence sample_env True ?s5" by (rule fence_fences)
  have "fence_step True ?s5 ?s6" using fence_remove_api [of ?s5 "''u1''" True] by (simp add: fence_sample_defs)
  with r5 have r6: "reachable_fence sample_env True ?s6" by (rule fence_fences)
  have "fence_step True ?s6 ?s7" using fence_block [of ?s6 "''u1''" True] by (simp add: fence_sample_defs)
  with r6 have r7: "reachable_fence sample_env True ?s7" by (rule fence_fences)
  have "fence_step True ?s7 ?s8" using fence_no_control [of ?s7 "''u1''" True] by (simp add: fence_sample_defs)
  with r7 have r8: "reachable_fence sample_env True ?s8" by (rule fence_fences)
  have "fence_step True ?s8 ?s9" using fence_quiesce [of ?s8 "''u1''" True] by (simp add: fence_sample_defs)
  with r8 have r9: "reachable_fence sample_env True ?s9" by (rule fence_fences)
  have "fence_step True ?s9 ?s10" using fence_stop [of ?s9 "''u1''" True] by (simp add: fence_sample_defs)
  with r9 have r10: "reachable_fence sample_env True ?s10" by (rule fence_fences)
  then show ?thesis by (intro exI conjI) (auto simp: fence_at_def mutations_stopped_def)
qed

end
