(* ===== verification/Spec2Isabelle.thy ===== *)
theory Spec2Isabelle
  imports Stack_Lifecycle Retention Ipam Boot_Guard Failover_Detector Task_Queue Dataset_Restore Host_Network Alert_Incidents Update_Fence
begin

text \<open>
  \<^bold>\<open>FloatLab Core.\<close> The program runs the workloads of a small cluster of appliances. A control process
  (\<open>internal/control\<close>, \<open>cmd/floatlab-control\<close>) keeps the desired state in a replicated SQL database and drives stacks of
  containers through their life cycle; a host daemon (\<open>internal/hostd\<close>) carries out commands on each appliance: ZFS datasets,
  network, docker, updates of the management containers and of the operating system. The development models the decisions of these
  parts and proves what makes them correct; commands, sockets and libraries are parameters or are left out.

  \<^bold>\<open>How the program is modelled.\<close>

  \<^item> Effectful code is a \<open>prog\<close> of \<open>Prelude\<close>: a function from a world to an optional result and the next world. The result \<open>None\<close> is a crash or a
    power loss: nothing after that point runs. A Go \<open>error\<close> is a \<open>string option\<close>. Failures are part of the world. The updaters
    (\<open>Update_World\<close>) have a power budget, one unit per write or backend call, and functions that say how each write and call ends;
    \<open>Failover\<close>, \<open>Task_Queue\<close>, \<open>Dataset_Restore\<close> and \<open>Host_Network\<close> have a list of results still to come, by which a call succeeds, fails
    without or with an effect, or never returns. Statements hold for every budget and every such choice, hence for every pattern of
    failures and crashes. \<open>triple\<close>, \<open>keeps\<close> and \<open>ensures\<close> are the proof rules.
  \<^item> Concurrent code (\<open>Alert_Incidents\<close>, \<open>Update_Fence\<close>) is an \<open>inductive\<close> step relation over shared state, one database transaction or one file or
    counter access at a time, with the reachable states; invariants are by rule induction.
  \<^item> Interfaces of Go (\<open>Backend\<close> of the two updaters, the task handlers, ZFS) and what is not under src/ are arguments; what the code relies
    on is a hypothesis with a name (\<open>backend_frame\<close>, \<open>zfs_laws\<close>) that a witness satisfies with concrete functions.
  \<^item> Times and durations are \<open>int\<close> nanoseconds, IPv4 addresses and float bits are words, Go maps are maps or association lists.

  \<^bold>\<open>The theories\<close>, with the code each models and what it shows.

  \<^item> \<open>Prelude\<close> The effect model and its rules, \<open>runs\<close> with the locale \<open>machine\<close> (steps keep an invariant, so do runs), association lists.

  \<^item> \<open>Stack_Lifecycle\<close> \<open>pkg/run/machine.go\<close>, \<open>events.go\<close>, \<open>pkg/raft/fsm.go\<close>, \<open>local.go\<close>: the transition table, the replicated state map with its
    snapshots and subscribers, the local node. Locks are held exactly in transition; replay after a snapshot equals replay of the log (locale
    \<open>log_machine\<close>); what a subscriber reads is, in order, part of the log, and all of
    it while its channel has room; a restart restores the acknowledged states.

  \<^item> \<open>Snapshot_Names\<close> \<open>pkg/store/timestamp.go\<close>, \<open>snapshot.go\<close>: encoding and decoding of the timestamp in automated names, their order and
    classification.

  \<^item> \<open>Retention\<close> \<open>pkg/store/policy.go\<close> and the parts of package \<open>time\<close> it uses: policy parsing, calendar windows and buckets, due times and the
    selection of snapshots. Every bucket keeps a point, the newest snapshot is kept, selection is idempotent.

  \<^item> \<open>Ipam\<close> \<open>internal/ipam\<close> with the constraints and triggers of \<open>pkg/rqlite/migrations.go\<close>: pools, allocation, node ranges, IPv6 prefixes, host
    eligibility, migration, and the requests of the API on reservations. What the queries of an operation read may be old by the time of its
    transaction: allocations stay unique under arbitrarily stale reads, while a saved pool covers its stacks, and allocation is first-free,
    only when nobody writes in between.

  \<^item> \<open>Update_World\<close> \<open>internal/update\<close>: the update lock, the atomic journal write and its failures, boots. Shared by the next three.

  \<^item> \<open>Management_Update\<close> \<open>internal/managementupdate/manager.go\<close> over its \<open>Backend\<close>: update, rollback, recovery, cleanup, checkpoints. Changes are
    journalled first (locales \<open>transaction_invariant\<close>, \<open>journalled_invariant\<close>), and recovery reaches the decided outcome.

  \<^item> \<open>Host_Upgrade\<close> \<open>internal/hostupgrade/manager.go\<close>, \<open>manifest.go\<close>, \<open>internal/hostd/host_upgrade.go\<close>: staging, activation, commit, rollback,
    recovery and supervision, composed with the management updater as the coordinator composes them (locales \<open>host_invariant\<close>,
    \<open>checkpoint_invariant\<close>).

  \<^item> \<open>Boot_Guard\<close> \<open>internal/hostupgrade/guard.go\<close>: the deadline of a trial boot across restarts of the guard.

  \<^item> \<open>Update_Fence\<close> \<open>internal/control/update_fence.go\<close>, \<open>cmd/floatlab-control/update_runtime.go\<close>, \<open>internal/hostd/update_fence.go\<close>, \<open>Fence\<close> of
    \<open>internal/managementupdate/linux.go\<close> and \<open>Supervise\<close> of \<open>internal/hostupgrade/manager.go\<close>: the drain of mutations before an update stops the
    stack. A passed fence of a new operation, begun while no trial was supervised, means that nothing mutates of what goes through the fence;
    the supervision of a trial can break the fence of its rollback, and a failing docker any fence.

  \<^item> \<open>Failover\<close>, \<open>Failover_Detector\<close> \<open>internal/failover\<close>: failover, failback and abort call by call over the state map and the address
    tables (locale \<open>sequence_invariant\<close>), and the detector that triggers them.

  \<^item> \<open>Task_Queue\<close> \<open>internal/worker/queue.go\<close>, \<open>task.go\<close>: claim, retry, give-up and recovery of tasks; handlers may save task payloads (\<open>backup_restore.go\<close>).

  \<^item> \<open>Dataset_Restore\<close> \<open>restoreDatasets\<close> of \<open>internal/worker/queue.go\<close> with the commands of \<open>internal/hostd/dispatcher.go\<close> it uses: interrupted
    and repeated attempts refine an abstract swap of the dataset tree.

  \<^item> \<open>Host_Network\<close> \<open>internal/hostnetwork/config.go\<close>, \<open>manager.go\<close>, \<open>watch.go\<close>: validation, startup, submission, application, confirmation and rollback
    of network settings, and the service addresses of the stacks.

  \<^item> \<open>Alert_Evaluator\<close> \<open>pkg/alerts/evaluate.go\<close>, \<open>observe\<close> of \<open>evaluator.go\<close>: observations and the state of an instance. Both timers measure
    unbroken evidence (locale \<open>timer\<close>).

  \<^item> \<open>Alert_Incidents\<close> \<open>pkg/alerts/store.go\<close>, \<open>Record\<close> of \<open>pkg/monitoring/store.go\<close>, the requests on alerts and notifications of
    \<open>internal/control/routes_config.go\<close> and \<open>routes_notifications.go\<close>, \<open>Cleanup\<close> of \<open>pkg/notify/store.go\<close>: checks, incidents, evaluations and what was
    announced of them stay in step under interleaved evaluators, producers and requests; a saved evaluation is resolved only by a sustained
    recovery or with its rule.

  \<^bold>\<open>How the parts meet.\<close> The host updater calls the management updater through the coordinator, and both run over the same world
  (\<open>Host_Upgrade\<close> composes them). Failover reads the tables that \<open>Ipam\<close> keeps, moves stacks with the transition table of \<open>Stack_Lifecycle\<close>, and
  is triggered by the detector. A restore is a task of the queue; the queue's model takes handlers as parameters and retries what they leave
  behind, which is the sequence of attempts \<open>Dataset_Restore\<close> speaks about. \<open>Fence\<close> is one call of the management updater's backend.

  \<^bold>\<open>Loops and bounds.\<close> Loops over data are structural. The walks for a free address end by the size of the range, polls run once per reading
  given to them (\<open>verify_loop\<close>, the guard's and the detector's ticks), and no theorem speaks of running out of fuel. Recovery is
  repeated once per interruption; the statements hold for every number of them, and the last, undisturbed one returns. \<open>Record\<close> tries
  eight times as the code does.

  \<^bold>\<open>Not modelled\<close>, since their content is calls of other programs or of libraries: the other HTTP routes and authentication, enrolment and key
  rotation of labs (\<open>internal/lab\<close>), the Linux backends of the updaters and of the network, compose files and docker, storage transport and
  backups, the database client and its replication, the agent, metrics and log clients, the installer and its screens, and program
  start-up. Raft consensus is hashicorp/raft; the state map is modelled as the function it applies. Two failovers of one stack at the same
  time are not interleaved, and a background job of an updater is the tail of the call that starts it, since it holds the update lock.
\<close>

end
